(* ===== verification/Prelude.thy ===== *)
theory Prelude
  imports Main "HOL-Library.Word" "HOL-Library.AList"
begin

text \<open>
  Shared vocabulary of the development: Go's maps, slices and instants as HOL types, the
  collections of rewrite and introduction rules the component theories extend, and the
  generic facts on association lists, list positions and machine words that more than one
  component needs.

  A Go map is an association list with distinct keys. The order of the list stands for the
  order in which one \<open>range\<close> loop of the runtime visits the map; statements quantify over all
  association lists, hence over all visiting orders. \<open>nil\<close> and the empty map are not
  distinguished. A \<open>time.Time\<close> is an instant in nanoseconds, \<open>0\<close> being the zero time; the
  location, which no comparison of the program looks at, is dropped.
\<close>

section \<open>Types shared by the components\<close>

type_synonym ('k, 'v) gomap = "('k \<times> 'v) list"

type_synonym time = int

abbreviation keys :: "('k, 'v) gomap \<Rightarrow> 'k list" where
  "keys m \<equiv> map fst m"

abbreviation wf_map :: "('k, 'v) gomap \<Rightarrow> bool" where
  "wf_map m \<equiv> distinct (keys m)"

abbreviation lookup :: "('k, 'v) gomap \<Rightarrow> 'k \<Rightarrow> 'v option" where
  "lookup \<equiv> map_of"

named_theorems frame_simps \<open>fields and lists an operation leaves unchanged\<close>
named_theorems inv_intros \<open>preservation of the components' invariants\<close>
named_theorems outcome_simps \<open>outcome of an operation on each of its branches\<close>

text \<open>Signed 64-bit arithmetic: the value an \<open>int\<close> or a \<open>time.Duration\<close> keeps of a result.\<close>

definition wrap64 :: "int \<Rightarrow> int" where
  "wrap64 x = sint (word_of_int x :: 64 word)"

lemma wrap64_mod: "wrap64 x = (x + 2 ^ 63) mod 2 ^ 64 - 2 ^ 63"
  by (simp add: wrap64_def sint_word_ariths int_word_sint)

lemma wrap64_id: "0 \<le> x \<Longrightarrow> x < 2 ^ 63 \<Longrightarrow> wrap64 x = x"
  unfolding wrap64_mod by (simp add: mod_pos_pos_trivial)

section \<open>Association lists\<close>

lemma lookup_update [simp]: "lookup (AList.update k v m) = (lookup m)(k \<mapsto> v)"
  by (rule update_conv')

lemma lookup_delete [simp]: "lookup (AList.delete k m) = (lookup m)(k := None)"
  by (rule delete_conv')

lemma wf_map_update [simp, intro]: "wf_map m \<Longrightarrow> wf_map (AList.update k v m)"
  by (rule distinct_update)

lemma wf_map_delete [simp, intro]: "wf_map m \<Longrightarrow> wf_map (AList.delete k m)"
  by (rule distinct_delete)

lemma set_keys_update [simp]: "fst ` set (AList.update k v m) = insert k (fst ` set m)"
  by (metis Un_insert_right dom_map_of_conv_image_fst dom_fun_upd lookup_update
      option.distinct(1) sup_bot_right)

lemma set_keys_delete [simp]: "fst ` set (AList.delete k m) = fst ` set m - {k}"
  by (metis dom_map_of_conv_image_fst dom_fun_upd lookup_delete)

lemma set_delete_subset: "set (AList.delete k m) \<subseteq> set m"
  by (induction m) auto

lemma set_update_subset: "set (AList.update k v m) \<subseteq> insert (k, v) (set m)"
  by (induction m) auto

lemma length_update: "length (AList.update k v m) = (if k \<in> fst ` set m then length m else Suc (length m))"
  by (induction m) auto

lemma length_delete_le: "length (AList.delete k m) \<le> length m"
  by (rule length_delete_le)

lemma lookup_None_iff: "lookup m k = None \<longleftrightarrow> k \<notin> fst ` set m"
  by (rule map_of_eq_None_iff)

lemma lookup_Some_in: "lookup m k = Some v \<Longrightarrow> (k, v) \<in> set m"
  by (rule map_of_SomeD)

section \<open>Slices: positions and deletion\<close>

text \<open>\<open>slices.Index\<close>, with \<open>-1\<close> for an absent element, and \<open>slices.Delete\<close>.\<close>

fun slices_Index :: "'a list \<Rightarrow> 'a \<Rightarrow> int" where
  "slices_Index [] y = -1"
| "slices_Index (x # xs) y =
     (if x = y then 0 else let i = slices_Index xs y in if i < 0 then -1 else i + 1)"

definition slices_Delete :: "'a list \<Rightarrow> int \<Rightarrow> int \<Rightarrow> 'a list" where
  "slices_Delete xs i j = take (nat i) xs @ drop (nat j) xs"

lemma slices_Index_neg [simp]: "slices_Index xs y < 0 \<longleftrightarrow> y \<notin> set xs"
  by (induction xs) (auto simp: Let_def)

lemma slices_Index_nonneg [simp]: "0 \<le> slices_Index xs y \<longleftrightarrow> y \<in> set xs"
  using slices_Index_neg [of xs y] by linarith

lemma slices_Delete_Index:
  "y \<in> set xs \<Longrightarrow> slices_Delete xs (slices_Index xs y) (slices_Index xs y + 1) = remove1 y xs"
proof (induction xs)
  case (Cons x xs)
  show ?case
  proof (cases "x = y")
    case False
    with Cons.prems have y: "y \<in> set xs" by simp
    then have "0 \<le> slices_Index xs y" by simp
    then have "nat (slices_Index xs y + 1) = Suc (nat (slices_Index xs y))"
      and "nat (2 + slices_Index xs y) = Suc (nat (slices_Index xs y + 1))" by linarith+
    with y False Cons.IH show ?thesis by (simp add: slices_Delete_def Let_def)
  qed (simp add: slices_Delete_def)
qed simp

section \<open>Words\<close>

unbundle bit_operations_syntax

lemma word_xor_eq_0 [simp]:
  fixes a b :: "'a::len word"
  shows "a XOR b = 0 \<longleftrightarrow> a = b"
  by (auto simp: bit_eq_iff bit_simps)

lemma drop_bit_xor_eq_0:
  fixes a b :: "'a::len word"
  shows "drop_bit k (a XOR b) = 0 \<longleftrightarrow> drop_bit k a = drop_bit k b"
  by (auto simp: bit_eq_iff bit_simps)

lemma and_not_mask_eq_iff:
  fixes a b :: "'a::len word"
  shows "a AND NOT (mask k) = b AND NOT (mask k) \<longleftrightarrow> drop_bit k a = drop_bit k b"
proof
  assume eq: "a AND NOT (mask k) = b AND NOT (mask k)"
  have d: "drop_bit k (x AND NOT (mask k)) = drop_bit k x" for x :: "'a word"
    by (rule bit_word_eqI) (auto simp: bit_simps dest: bit_imp_le_length)
  show "drop_bit k a = drop_bit k b"
    using arg_cong [OF eq, of "drop_bit k"] by (simp only: d)
next
  assume eq: "drop_bit k a = drop_bit k b"
  have p: "x AND NOT (mask k) = push_bit k (drop_bit k x)" for x :: "'a word"
    by (rule bit_word_eqI) (auto simp: bit_simps)
  show "a AND NOT (mask k) = b AND NOT (mask k)"
    by (simp only: p eq)
qed

lemma xor_and_not_mask_eq_0:
  fixes a b :: "'a::len word"
  shows "(a XOR b) AND NOT (mask k) = 0 \<longleftrightarrow> drop_bit k a = drop_bit k b"
proof -
  have "(a XOR b) AND NOT (mask k) = 0 AND NOT (mask k) \<longleftrightarrow> drop_bit k (a XOR b) = drop_bit k 0"
    by (rule and_not_mask_eq_iff)
  then show ?thesis by (simp only: drop_bit_of_0 and_zero_eq zero_and_eq drop_bit_xor_eq_0)
qed

lemma drop_bit_and_not_mask:
  fixes a :: "'a::len word"
  shows "drop_bit k (a AND NOT (mask k)) = drop_bit k a"
  by (rule bit_word_eqI) (auto simp: bit_simps dest: bit_imp_le_length)

lemma drop_bit_mono_eq:
  fixes a b :: "'a::len word"
  assumes "drop_bit k a = drop_bit k b" and "k \<le> n"
  shows "drop_bit n a = drop_bit n b"
proof -
  have "drop_bit n x = drop_bit (n - k) (drop_bit k x)" for x :: "'a word"
    using assms(2) by (simp only: drop_bit_drop_bit le_add_diff_inverse2)
  then show ?thesis by (simp only: assms(1))
qed

lemma unat_Suc_no_wrap: "x + 1 \<noteq> (0 :: 'a::len word) \<Longrightarrow> unat (x + 1) = Suc (unat x)"
  by (metis unatSuc add.commute)

end
