(* ===== verification/Netip.thy ===== *)
theory Netip
  imports Prelude
begin

text \<open>
  The part of Go's \<open>net/netip\<close> the program computes with: \<open>netip.Addr\<close>, \<open>netip.Prefix\<close>, masking,
  containment, and the address classes of \<open>IsGlobalUnicast\<close> and its relatives. It is the
  standard library's behaviour, not code of the repository, so nothing here is mapped to a
  source line; every component computes with it. The section on overlap shows that the
  program's two-sided base-address test decides whether two CIDR blocks share an address.
\<close>

section \<open>Addresses\<close>

text \<open>
  The zero \<open>Addr\<close> is \<open>NoAddr\<close>; an IPv6 address carries its zone, empty when it has none. An
  IPv4-mapped IPv6 address is an IPv6 address.
\<close>

datatype addr = NoAddr | Addr4 "32 word" | Addr6 "128 word" string

definition addr_IsValid :: "addr \<Rightarrow> bool" where
  "addr_IsValid a = (a \<noteq> NoAddr)"

fun Is4 :: "addr \<Rightarrow> bool" where
  "Is4 (Addr4 _) = True"
| "Is4 _ = False"

fun Is6 :: "addr \<Rightarrow> bool" where
  "Is6 (Addr6 _ _) = True"
| "Is6 _ = False"

fun Is4In6 :: "addr \<Rightarrow> bool" where
  "Is4In6 (Addr6 w _) = (drop_bit 32 w = 0xffff)"
| "Is4In6 _ = False"

fun Unmap :: "addr \<Rightarrow> addr" where
  "Unmap (Addr6 w z) = (if Is4In6 (Addr6 w z) then Addr4 (ucast w) else Addr6 w z)"
| "Unmap a = a"

fun bit_len :: "addr \<Rightarrow> nat" where
  "bit_len NoAddr = 0"
| "bit_len (Addr4 _) = 32"
| "bit_len (Addr6 _ _) = 128"

fun has_zone :: "addr \<Rightarrow> bool" where
  "has_zone (Addr6 _ z) = (z \<noteq> [])"
| "has_zone _ = False"

fun without_zone :: "addr \<Rightarrow> addr" where
  "without_zone (Addr6 w _) = Addr6 w []"
| "without_zone a = a"

lemma Is4_iff: "Is4 a \<longleftrightarrow> (\<exists>w. a = Addr4 w)"
  by (cases a) auto

lemma Is6_iff: "Is6 a \<longleftrightarrow> (\<exists>w z. a = Addr6 w z)"
  by (cases a) auto

lemma valid_4_or_6: "addr_IsValid a \<longleftrightarrow> Is4 a \<or> Is6 a"
  by (cases a) (auto simp: addr_IsValid_def)

lemma not_4_and_6: "\<not> (Is4 a \<and> Is6 a)"
  by (cases a) auto

section \<open>Address classes\<close>

text \<open>Octets and 16-bit fields, counted from the most significant, as \<open>v4\<close>, \<open>v6\<close> and \<open>v6u16\<close>.\<close>

definition v4 :: "32 word \<Rightarrow> nat \<Rightarrow> 32 word" where
  "v4 w i = drop_bit (24 - 8 * i) w AND 0xff"

definition v6 :: "128 word \<Rightarrow> nat \<Rightarrow> 128 word" where
  "v6 w i = drop_bit (120 - 8 * i) w AND 0xff"

definition v6u16 :: "128 word \<Rightarrow> nat \<Rightarrow> 128 word" where
  "v6u16 w i = drop_bit (112 - 16 * i) w AND 0xffff"

fun loopback0 :: "addr \<Rightarrow> bool" where
  "loopback0 (Addr4 w) = (v4 w 0 = 127)"
| "loopback0 (Addr6 w _) = (w = 1)"
| "loopback0 NoAddr = False"

definition IsLoopback :: "addr \<Rightarrow> bool" where
  "IsLoopback a = loopback0 (Unmap a)"

fun multicast0 :: "addr \<Rightarrow> bool" where
  "multicast0 (Addr4 w) = (v4 w 0 AND 0xf0 = 0xe0)"
| "multicast0 (Addr6 w _) = (v6 w 0 = 0xff)"
| "multicast0 NoAddr = False"

definition IsMulticast :: "addr \<Rightarrow> bool" where
  "IsMulticast a = multicast0 (Unmap a)"

fun link_local0 :: "addr \<Rightarrow> bool" where
  "link_local0 (Addr4 w) = (v4 w 0 = 169 \<and> v4 w 1 = 254)"
| "link_local0 (Addr6 w _) = (v6u16 w 0 AND 0xffc0 = 0xfe80)"
| "link_local0 NoAddr = False"

definition IsLinkLocalUnicast :: "addr \<Rightarrow> bool" where
  "IsLinkLocalUnicast a = link_local0 (Unmap a)"

fun private0 :: "addr \<Rightarrow> bool" where
  "private0 (Addr4 w) =
     (v4 w 0 = 10 \<or> (v4 w 0 = 172 \<and> v4 w 1 AND 0xf0 = 16) \<or> (v4 w 0 = 192 \<and> v4 w 1 = 168))"
| "private0 (Addr6 w _) = (v6 w 0 AND 0xfe = 0xfc)"
| "private0 NoAddr = False"

definition IsPrivate :: "addr \<Rightarrow> bool" where
  "IsPrivate a = private0 (Unmap a)"

definition IsGlobalUnicast :: "addr \<Rightarrow> bool" where
  "IsGlobalUnicast a0 = (let a = Unmap a0 in
     a0 \<noteq> NoAddr \<and> a \<noteq> Addr4 0 \<and> a \<noteq> Addr4 0xffffffff \<and> a \<noteq> Addr6 0 [] \<and>
     \<not> IsLoopback a \<and> \<not> IsMulticast a \<and> \<not> IsLinkLocalUnicast a)"

section \<open>Prefixes\<close>

text \<open>
  A \<open>netip.Prefix\<close> holds an address and \<open>bitsPlusOne\<close>; \<open>None\<close> stands for \<open>bitsPlusOne = 0\<close>, the
  invalid prefix. The fields are private: every value the program can hold comes from
  \<open>PrefixFrom\<close>, which establishes \<open>wf_prefix\<close>.
\<close>

datatype prefix = Prefix (pfx_addr: addr) (pfx_bits: "nat option")

definition zero_prefix :: prefix where
  "zero_prefix = Prefix NoAddr None"

definition prefix_IsValid :: "prefix \<Rightarrow> bool" where
  "prefix_IsValid p = (pfx_bits p \<noteq> None)"

definition PrefixFrom :: "addr \<Rightarrow> int \<Rightarrow> prefix" where
  "PrefixFrom a b =
     Prefix (without_zone a)
       (if a \<noteq> NoAddr \<and> 0 \<le> b \<and> b \<le> int (bit_len a) then Some (nat b) else None)"

definition wf_prefix :: "prefix \<Rightarrow> bool" where
  "wf_prefix p = (\<not> has_zone (pfx_addr p) \<and>
     (case pfx_bits p of None \<Rightarrow> True
      | Some b \<Rightarrow> pfx_addr p \<noteq> NoAddr \<and> b \<le> bit_len (pfx_addr p)))"

fun Masked :: "prefix \<Rightarrow> prefix" where
  "Masked (Prefix (Addr4 w) (Some b)) =
     (if b \<le> 32 then Prefix (Addr4 (w AND NOT (mask (32 - b)))) (Some b) else zero_prefix)"
| "Masked (Prefix (Addr6 w _) (Some b)) =
     (if b \<le> 128 then Prefix (Addr6 (w AND NOT (mask (128 - b))) []) (Some b) else zero_prefix)"
| "Masked _ = zero_prefix"

fun Contains :: "prefix \<Rightarrow> addr \<Rightarrow> bool" where
  "Contains (Prefix (Addr4 n) (Some b)) (Addr4 a) = (drop_bit (32 - b) (a XOR n) = 0)"
| "Contains (Prefix (Addr6 n _) (Some b)) (Addr6 a z) =
     (z = [] \<and> (a XOR n) AND NOT (mask (128 - b)) = 0)"
| "Contains _ _ = False"

definition canonical :: "prefix \<Rightarrow> bool" where
  "canonical p = (prefix_IsValid p \<and> Masked p = p)"

lemma wf_PrefixFrom [simp, intro]: "wf_prefix (PrefixFrom a b)"
  by (cases a) (auto simp: wf_prefix_def PrefixFrom_def)

lemma wf_zero_prefix [simp]: "wf_prefix zero_prefix"
  by (simp add: wf_prefix_def zero_prefix_def)

lemma zero_prefix_invalid [simp]: "\<not> prefix_IsValid zero_prefix"
  by (simp add: prefix_IsValid_def zero_prefix_def)

text \<open>The three shapes of a well-formed prefix.\<close>

lemma wf_prefix_cases [consumes 1, case_names invalid v4 v6]:
  assumes "wf_prefix p"
    and "\<And>a. p = Prefix a None \<Longrightarrow> thesis"
    and "\<And>w b. p = Prefix (Addr4 w) (Some b) \<Longrightarrow> b \<le> 32 \<Longrightarrow> thesis"
    and "\<And>w b. p = Prefix (Addr6 w []) (Some b) \<Longrightarrow> b \<le> 128 \<Longrightarrow> thesis"
  shows thesis
proof (cases p)
  case (Prefix a bo)
  with assms show ?thesis
    by (cases a; cases bo) (auto simp: wf_prefix_def)
qed

lemma wf_Masked [simp, intro]: "wf_prefix p \<Longrightarrow> wf_prefix (Masked p)"
  by (erule wf_prefix_cases) (auto simp: wf_prefix_def zero_prefix_def)

lemma valid_Masked: "wf_prefix p \<Longrightarrow> prefix_IsValid (Masked p) = prefix_IsValid p"
  by (erule wf_prefix_cases) (auto simp: prefix_IsValid_def zero_prefix_def)

lemma Masked_idem [simp]: "Masked (Masked p) = Masked p"
  by (cases p rule: Masked.cases) (auto simp: zero_prefix_def)

lemma canonical_Masked: "wf_prefix p \<Longrightarrow> prefix_IsValid p \<Longrightarrow> canonical (Masked p)"
  by (simp add: canonical_def valid_Masked)

lemma canonical_valid: "canonical p \<Longrightarrow> prefix_IsValid p"
  and canonical_fix: "canonical p \<Longrightarrow> Masked p = p"
  by (simp_all add: canonical_def)

lemma canonical_wf: "canonical p \<Longrightarrow> wf_prefix p"
  by (cases p rule: Masked.cases)
    (auto simp: canonical_def wf_prefix_def prefix_IsValid_def zero_prefix_def split: if_splits)

lemma canonical_iff: "wf_prefix p \<Longrightarrow> canonical p \<longleftrightarrow> p = Masked p \<and> p \<noteq> zero_prefix"
  by (erule wf_prefix_cases)
    (auto simp: canonical_def zero_prefix_def prefix_IsValid_def)

lemma pfx_addr_family:
  assumes "wf_prefix p" "prefix_IsValid p"
  shows "Is4 (pfx_addr p) \<or> Is6 (pfx_addr p)"
  using assms by (cases rule: wf_prefix_cases) (auto simp: prefix_IsValid_def)

section \<open>Containment and overlap\<close>

text \<open>Masking does not change which addresses a prefix contains.\<close>

lemma Contains_4:
  "Contains (Prefix (Addr4 n) (Some b)) x \<longleftrightarrow> (\<exists>a. x = Addr4 a \<and> drop_bit (32 - b) a = drop_bit (32 - b) n)"
  by (cases x) (auto simp: drop_bit_xor_eq_0)

lemma Contains_6:
  "Contains (Prefix (Addr6 n z) (Some b)) x \<longleftrightarrow>
     (\<exists>a. x = Addr6 a [] \<and> drop_bit (128 - b) a = drop_bit (128 - b) n)"
  by (cases x) (auto simp: xor_and_not_mask_eq_0)

lemma Contains_invalid [simp]: "Contains (Prefix a None) x = False"
  by (cases a; cases x) auto

lemma Contains_Masked:
  assumes "wf_prefix p"
  shows "Contains (Masked p) x = Contains p x"
  using assms by (cases rule: wf_prefix_cases)
    (simp_all add: zero_prefix_def Contains_4 Contains_6 drop_bit_and_not_mask del: drop_bit_and)

lemma Contains_base:
  assumes "wf_prefix p" and "prefix_IsValid p"
  shows "Contains p (pfx_addr p)"
  using assms by (cases rule: wf_prefix_cases) (auto simp: prefix_IsValid_def)

lemma Contains_same_family:
  "Contains p x \<Longrightarrow> Is4 (pfx_addr p) = Is4 x \<and> Is6 (pfx_addr p) = Is6 x"
  by (cases p; cases x rule: addr.exhaust; cases "pfx_addr p"; cases "pfx_bits p") auto

text \<open>
  The test the program uses for \<open>overlap\<close>: one of the two prefixes contains the other's base
  address. It is exactly the existence of a shared address.
\<close>

definition overlap_test :: "prefix \<Rightarrow> prefix \<Rightarrow> bool" where
  "overlap_test p w = (Contains p (pfx_addr w) \<or> Contains w (pfx_addr p))"

lemma overlap_test_sym: "overlap_test p w = overlap_test w p"
  by (auto simp: overlap_test_def)

lemma overlap_if_shared:
  assumes wf: "wf_prefix p" "wf_prefix w" and x: "Contains p x" "Contains w x"
  shows "overlap_test p w"
  using wf(1)
proof (cases rule: wf_prefix_cases)
  case (invalid a)
  with x show ?thesis by simp
next
  case p: (v4 n b)
  with x obtain a where a: "x = Addr4 a" "drop_bit (32 - b) a = drop_bit (32 - b) n"
    by (auto simp: Contains_4)
  from wf(2) show ?thesis
  proof (cases rule: wf_prefix_cases)
    case w: (v4 m c)
    with x a have c: "drop_bit (32 - c) a = drop_bit (32 - c) m" by (simp add: Contains_4)
    show ?thesis
    proof (cases "b \<le> c")
      case True
      then have "drop_bit (32 - b) a = drop_bit (32 - b) m"
        by (intro drop_bit_mono_eq [OF c]) simp
      with a p w show ?thesis by (simp add: overlap_test_def Contains_4)
    next
      case False
      then have "drop_bit (32 - c) a = drop_bit (32 - c) n"
        by (intro drop_bit_mono_eq [OF a(2)]) simp
      with c p w show ?thesis by (simp add: overlap_test_def Contains_4)
    qed
  qed (use x a in \<open>auto simp: Contains_6\<close>)
next
  case p: (v6 n b)
  with x obtain a where a: "x = Addr6 a []" "drop_bit (128 - b) a = drop_bit (128 - b) n"
    by (auto simp: Contains_6)
  from wf(2) show ?thesis
  proof (cases rule: wf_prefix_cases)
    case w: (v6 m c)
    with x a have c: "drop_bit (128 - c) a = drop_bit (128 - c) m" by (simp add: Contains_6)
    show ?thesis
    proof (cases "b \<le> c")
      case True
      then have "drop_bit (128 - b) a = drop_bit (128 - b) m"
        by (intro drop_bit_mono_eq [OF c]) simp
      with a p w show ?thesis by (simp add: overlap_test_def Contains_6)
    next
      case False
      then have "drop_bit (128 - c) a = drop_bit (128 - c) n"
        by (intro drop_bit_mono_eq [OF a(2)]) simp
      with c p w show ?thesis by (simp add: overlap_test_def Contains_6)
    qed
  qed (use x a in \<open>auto simp: Contains_4\<close>)
qed

lemma shared_if_overlap:
  assumes "wf_prefix p" "prefix_IsValid p" "wf_prefix w" "prefix_IsValid w" and "overlap_test p w"
  shows "\<exists>x. Contains p x \<and> Contains w x"
  using assms Contains_base unfolding overlap_test_def by blast

end
