(* ===== verification/Go_Text.thy ===== *)
theory Go_Text
  imports Prelude
begin

text \<open>
  Go's \<open>strings\<close> and \<open>strconv\<close> as far as the program uses them. A Go string is a sequence of
  bytes, here a \<open>char list\<close>. The locale \<open>text_codec\<close> is the interface of a printer and its
  parser (a printed value parses back to itself); the decimal numbers interpret it here, the
  addresses and prefixes in \<open>Netip_Text\<close>.
\<close>

section \<open>Printers and parsers\<close>

locale text_codec =
  fixes print :: "'a \<Rightarrow> string"
    and parse :: "string \<Rightarrow> 'a option"
    and ok :: "'a \<Rightarrow> bool"
  assumes parse_print: "ok x \<Longrightarrow> parse (print x) = Some x"
begin

lemma print_inject: "ok x \<Longrightarrow> ok y \<Longrightarrow> print x = print y \<longleftrightarrow> x = y"
  by (metis option.inject parse_print)

lemma inj_on_print: "(\<And>x. x \<in> A \<Longrightarrow> ok x) \<Longrightarrow> inj_on print A"
  by (auto simp: inj_on_def print_inject)

lemma distinct_print:
  "distinct xs \<Longrightarrow> (\<And>x. x \<in> set xs \<Longrightarrow> ok x) \<Longrightarrow> distinct (map print xs)"
  by (simp add: distinct_map inj_on_print)

lemma print_mem: "ok x \<Longrightarrow> (\<And>y. y \<in> set ys \<Longrightarrow> ok y) \<Longrightarrow> print x \<in> print ` set ys \<longleftrightarrow> x \<in> set ys"
  by (auto simp: print_inject)

lemma parse_all: "(\<And>x. x \<in> set xs \<Longrightarrow> ok x) \<Longrightarrow> map parse (map print xs) = map Some xs"
  by (simp add: parse_print)

end

section \<open>Bytes and searching\<close>

abbreviation code :: "char \<Rightarrow> nat" where
  "code c \<equiv> of_char c"

definition is_digit :: "char \<Rightarrow> bool" where
  "is_digit c = (48 \<le> code c \<and> code c \<le> 57)"

definition digit_val :: "char \<Rightarrow> nat" where
  "digit_val c = code c - 48"

definition digit_char :: "nat \<Rightarrow> char" where
  "digit_char n = char_of (48 + n)"

lemma code_digit_char [simp]: "n < 10 \<Longrightarrow> code (digit_char n) = 48 + n"
  by (simp add: digit_char_def)

lemma is_digit_digit_char [simp]: "n < 10 \<Longrightarrow> is_digit (digit_char n)"
  by (simp add: is_digit_def)

lemma digit_val_digit_char [simp]: "n < 10 \<Longrightarrow> digit_val (digit_char n) = n"
  by (simp add: digit_val_def)

text \<open>\<open>strings.HasPrefix\<close>, \<open>strings.HasSuffix\<close>, \<open>strings.Contains\<close>, \<open>strings.Cut\<close>, \<open>strings.Split\<close>.\<close>

definition HasPrefix :: "string \<Rightarrow> string \<Rightarrow> bool" where
  "HasPrefix s p = (take (length p) s = p)"

definition HasSuffix :: "string \<Rightarrow> string \<Rightarrow> bool" where
  "HasSuffix s p = HasPrefix (rev s) (rev p)"

fun Contains_str :: "string \<Rightarrow> string \<Rightarrow> bool" where
  "Contains_str [] p = (p = [])"
| "Contains_str (c # s) p = (HasPrefix (c # s) p \<or> Contains_str s p)"

text \<open>Everything before and after the first occurrence of a byte.\<close>

fun cut_byte :: "char \<Rightarrow> string \<Rightarrow> (string \<times> string) option" where
  "cut_byte x [] = None"
| "cut_byte x (c # s) =
     (if c = x then Some ([], s) else map_option (\<lambda>(a, b). (c # a, b)) (cut_byte x s))"

text \<open>Everything before and after the last occurrence of a byte.\<close>

definition cut_last :: "char \<Rightarrow> string \<Rightarrow> (string \<times> string) option" where
  "cut_last x s = map_option (\<lambda>(a, b). (rev b, rev a)) (cut_byte x (rev s))"

fun split_byte :: "char \<Rightarrow> string \<Rightarrow> string list" where
  "split_byte x [] = [[]]"
| "split_byte x (c # s) =
     (if c = x then [] # split_byte x s
      else case split_byte x s of [] \<Rightarrow> [[c]] | t # ts \<Rightarrow> (c # t) # ts)"

fun join :: "string \<Rightarrow> string list \<Rightarrow> string" where
  "join sep [] = []"
| "join sep [x] = x"
| "join sep (x # xs) = x @ sep @ join sep xs"

lemma cut_byte_append:
  "x \<notin> set a \<Longrightarrow> cut_byte x (a @ x # b) = Some (a, b)"
  by (induction a) auto

lemma cut_byte_None: "cut_byte x s = None \<longleftrightarrow> x \<notin> set s"
  by (induction s) auto

lemma cut_byte_Some: "cut_byte x s = Some (a, b) \<Longrightarrow> s = a @ x # b \<and> x \<notin> set a"
  by (induction s arbitrary: a) (auto split: if_splits)

lemma cut_last_append: "x \<notin> set b \<Longrightarrow> cut_last x (a @ x # b) = Some (a, b)"
  by (simp add: cut_last_def cut_byte_append)

lemma HasPrefix_append [simp]: "HasPrefix (p @ s) p"
  by (simp add: HasPrefix_def)

lemma HasPrefix_iff: "HasPrefix s p \<longleftrightarrow> (\<exists>t. s = p @ t)"
  by (metis HasPrefix_append HasPrefix_def append_take_drop_id)

lemma Contains_str_iff: "Contains_str s p \<longleftrightarrow> (\<exists>a b. s = a @ p @ b)"
proof (induction s)
  case (Cons c s)
  show ?case
  proof
    assume "Contains_str (c # s) p"
    then consider "HasPrefix (c # s) p" | "Contains_str s p" by auto
    then show "\<exists>a b. c # s = a @ p @ b"
    proof cases
      case 1
      then show ?thesis by (metis HasPrefix_iff append_Nil)
    next
      case 2
      then show ?thesis by (metis Cons.IH append_Cons)
    qed
  next
    assume "\<exists>a b. c # s = a @ p @ b"
    then obtain a b where ab: "c # s = a @ p @ b" by blast
    show "Contains_str (c # s) p"
    proof (cases a)
      case Nil
      with ab have "HasPrefix (c # s) p" by (simp add: HasPrefix_def)
      then show ?thesis by simp
    next
      case (Cons d a')
      with ab have "\<exists>a b. s = a @ p @ b" by auto
      with Cons.IH show ?thesis by simp
    qed
  qed
qed auto

lemma Contains_str_byte [simp]: "Contains_str s [x] \<longleftrightarrow> x \<in> set s"
  by (auto simp: Contains_str_iff dest: split_list)

lemma split_byte_nonempty [simp]: "split_byte x s \<noteq> []"
  by (induction s) (auto split: list.splits)

lemma split_byte_join:
  "ts \<noteq> [] \<Longrightarrow> (\<And>t. t \<in> set ts \<Longrightarrow> x \<notin> set t) \<Longrightarrow> split_byte x (join [x] ts) = ts"
proof (induction ts rule: induct_list012)
  case (2 t)
  then have "x \<notin> set t" by simp
  then show ?case by (induction t) auto
next
  case (3 t u ts)
  then have "x \<notin> set t" by simp
  moreover have "split_byte x (join [x] (u # ts)) = u # ts"
    using "3.prems" by (intro "3.IH"(2)) auto
  ultimately show ?case
    by (induction t) auto
qed simp

section \<open>White space\<close>

text \<open>
  \<open>strings.TrimSpace\<close> removes leading and trailing Unicode white space; these are the UTF-8
  encodings of the code points \<open>unicode.IsSpace\<close> accepts.
\<close>

definition bytes :: "nat list \<Rightarrow> string" where
  "bytes = map char_of"

definition space_encodings :: "string list" where
  "space_encodings = map bytes
     ([[9], [10], [11], [12], [13], [32], [0xC2, 0x85], [0xC2, 0xA0], [0xE1, 0x9A, 0x80]]
      @ map (\<lambda>b. [0xE2, 0x80, b]) [0x80, 0x81, 0x82, 0x83, 0x84, 0x85, 0x86, 0x87, 0x88, 0x89,
           0x8A, 0xA8, 0xA9, 0xAF]
      @ [[0xE2, 0x81, 0x9F], [0xE3, 0x80, 0x80]])"

fun strip :: "string list \<Rightarrow> nat \<Rightarrow> string \<Rightarrow> string" where
  "strip encs 0 s = s"
| "strip encs (Suc n) s =
     (case find (\<lambda>e. HasPrefix s e) encs of
        None \<Rightarrow> s
      | Some e \<Rightarrow> strip encs n (drop (length e) s))"

text \<open>Each round removes at least one byte, so the length of the string bounds the rounds.\<close>

definition TrimSpace :: "string \<Rightarrow> string" where
  "TrimSpace s =
     (let l = strip space_encodings (length s) s
      in rev (strip (map rev space_encodings) (length l) (rev l)))"

lemma strip_suffix: "\<exists>p. s = p @ strip encs n s"
proof (induction n arbitrary: s)
  case (Suc n)
  show ?case
  proof (cases "find (\<lambda>e. HasPrefix s e) encs")
    case (Some e)
    obtain p where "drop (length e) s = p @ strip encs n (drop (length e) s)"
      using Suc.IH by blast
    then show ?thesis using Some
      by (metis append.assoc append_take_drop_id option.simps(5) strip.simps(2))
  qed simp
qed simp

lemma TrimSpace_infix: "\<exists>p q. s = p @ TrimSpace s @ q"
proof -
  let ?l = "strip space_encodings (length s) s"
  obtain p where p: "s = p @ ?l" using strip_suffix by blast
  obtain q where "rev ?l = q @ strip (map rev space_encodings) (length ?l) (rev ?l)"
    using strip_suffix by blast
  then have "?l = TrimSpace s @ rev q"
    by (metis TrimSpace_def rev_append rev_rev_ident)
  with p show ?thesis by metis
qed

lemma set_TrimSpace: "set (TrimSpace s) \<subseteq> set s"
  using TrimSpace_infix [of s] by (metis Un_iff set_append subsetI)

section \<open>Decimal numbers\<close>

fun dec :: "nat \<Rightarrow> string" where
  "dec n = (if n < 10 then [digit_char n] else dec (n div 10) @ [digit_char (n mod 10)])"

declare dec.simps [simp del]

definition dec_val :: "string \<Rightarrow> nat" where
  "dec_val s = foldl (\<lambda>acc c. acc * 10 + digit_val c) 0 s"

lemma dec_nonempty [simp]: "dec n \<noteq> []"
  by (subst dec.simps) simp

lemma dec_digits: "c \<in> set (dec n) \<Longrightarrow> is_digit c"
proof (induction n rule: dec.induct)
  case (1 n)
  then show ?case
    by (subst (asm) (2) dec.simps) (auto split: if_splits)
qed

lemma dec_val_dec [simp]: "dec_val (dec n) = n"
proof (induction n rule: dec.induct)
  case (1 n)
  show ?case
  proof (cases "n < 10")
    case True
    then show ?thesis by (subst dec.simps) (simp add: dec_val_def)
  next
    case False
    with "1.IH" have "dec_val (dec (n div 10)) = n div 10" by simp
    with False show ?thesis
      by (subst dec.simps) (simp add: dec_val_def)
  qed
qed

lemma dec_no_sign: "dec n = c # s \<Longrightarrow> is_digit c"
  using dec_digits [of c n] by simp

text \<open>\<open>strconv.ParseUint (s, 10, bits)\<close> and \<open>strconv.Atoi\<close>; \<open>None\<close> is the returned error.\<close>

definition ParseUint10 :: "nat \<Rightarrow> string \<Rightarrow> nat option" where
  "ParseUint10 n s =
     (if s \<noteq> [] \<and> list_all is_digit s \<and> dec_val s < 2 ^ n then Some (dec_val s) else None)"

definition Atoi :: "string \<Rightarrow> int option" where
  "Atoi s =
     (let (neg, t) = (case s of c # cs \<Rightarrow> if c = CHR ''-'' then (True, cs)
                                     else if c = CHR ''+'' then (False, cs) else (False, s)
                              | [] \<Rightarrow> (False, []));
          v = (if neg then - int (dec_val t) else int (dec_val t))
      in if t \<noteq> [] \<and> list_all is_digit t \<and> - (2 ^ 63) \<le> v \<and> v < 2 ^ 63 then Some v else None)"

lemma ParseUint10_dec [simp]: "k < 2 ^ n \<Longrightarrow> ParseUint10 n (dec k) = Some k"
  by (auto simp: ParseUint10_def list_all_iff dec_digits)

lemma ParseUint10_bound: "ParseUint10 n s = Some k \<Longrightarrow> k < 2 ^ n"
  by (auto simp: ParseUint10_def split: if_splits)

lemma Atoi_dec: "k < 2 ^ 63 \<Longrightarrow> Atoi (dec k) = Some (int k)"
proof -
  assume k: "k < 2 ^ 63"
  obtain c cs where s: "dec k = c # cs" by (cases "dec k") auto
  then have "is_digit c" by (rule dec_no_sign)
  then have "c \<noteq> CHR ''-''" "c \<noteq> CHR ''+''" by (auto simp: is_digit_def)
  moreover have "list_all is_digit (dec k)" by (auto simp: list_all_iff dec_digits)
  moreover have "int (dec_val (dec k)) < 2 ^ 63" using k by simp
  moreover have "dec_val (c # cs) = k" using dec_val_dec [of k] s by simp
  ultimately show ?thesis using s by (simp add: Atoi_def)
qed

interpretation uint64_text: text_codec dec "ParseUint10 64" "\<lambda>k. k < 2 ^ 64"
  by unfold_locales simp

end
