(* ===== verification/Netip_Text.thy ===== *)
theory Netip_Text
  imports Netip Go_Text
begin

text \<open>
  The text forms of \<open>net/netip\<close>: \<open>ParseAddr\<close>, \<open>ParsePrefix\<close>, \<open>Addr.String\<close> and
  \<open>Prefix.String\<close>, for dotted IPv4, colon-separated IPv6 with its \<open>::\<close> ellipsis, embedded
  IPv4 tails, and zones. The main result is the round trip of every well-formed prefix,
  stated as an interpretation of \<open>text_codec\<close>; the policy file, the feeds and the policy-sync
  stream all rest on it.
\<close>

section \<open>IPv4\<close>

fun ipv4_fields :: "string \<Rightarrow> nat \<Rightarrow> nat \<Rightarrow> nat list \<Rightarrow> nat list option" where
  "ipv4_fields [] val digLen fields = (if length fields < 3 then None else Some (fields @ [val]))"
| "ipv4_fields (c # s) val digLen fields =
     (if is_digit c then
        if digLen = 1 \<and> val = 0 then None
        else let v = val * 10 + digit_val c in
             if v > 255 then None else ipv4_fields s v (Suc digLen) fields
      else if c = CHR ''.'' then
        if digLen = 0 \<or> s = [] then None
        else if length fields = 3 then None
        else ipv4_fields s 0 0 (fields @ [val])
      else None)"

fun word_of_octets :: "nat list \<Rightarrow> 32 word" where
  "word_of_octets [a, b, c, d] = of_nat (((a * 256 + b) * 256 + c) * 256 + d)"
| "word_of_octets _ = 0"

definition parseIPv4 :: "string \<Rightarrow> addr option" where
  "parseIPv4 s = map_option (Addr4 \<circ> word_of_octets) (ipv4_fields s 0 0 [])"

definition octets :: "32 word \<Rightarrow> nat list" where
  "octets w = map (\<lambda>i. unat (v4 w i)) [0, 1, 2, 3]"

definition string4 :: "32 word \<Rightarrow> string" where
  "string4 w = join ''.'' (map dec (octets w))"

lemma dec_1: "n < 10 \<Longrightarrow> dec n = [digit_char n]"
  by (subst dec.simps) simp

lemma dec_2: "10 \<le> n \<Longrightarrow> n < 100 \<Longrightarrow> dec n = [digit_char (n div 10), digit_char (n mod 10)]"
  by (subst dec.simps) (simp add: dec_1)

lemma dec_3:
  assumes "100 \<le> n" "n < 1000"
  shows "dec n = [digit_char (n div 100), digit_char (n div 10 mod 10), digit_char (n mod 10)]"
proof -
  have "dec (n div 10) = [digit_char (n div 10 div 10), digit_char (n div 10 mod 10)]"
    using assms by (intro dec_2) auto
  then show ?thesis using assms
    by (subst dec.simps) (simp add: div_mult2_eq [symmetric])
qed

lemma digit_char_0_iff: "n < 10 \<Longrightarrow> digit_val (digit_char n) = 0 \<longleftrightarrow> n = 0"
  by simp

lemma ipv4_fields_dec:
  assumes "n < 256"
  shows "ipv4_fields (dec n @ rest) 0 0 fs = ipv4_fields rest n (length (dec n)) fs"
proof -
  consider "n < 10" | "10 \<le> n" "n < 100" | "100 \<le> n" "n < 1000" using assms by linarith
  then show ?thesis
  proof cases
    case 1
    then show ?thesis by (simp add: dec_1 Let_def)
  next
    case 2
    then have "n div 10 < 10" "n div 10 \<noteq> 0" "n mod 10 < 10" "n div 10 * 10 + n mod 10 = n"
      "\<not> 255 < n" by auto
    with 2 show ?thesis by (simp add: dec_2 Let_def)
  next
    case 3
    have d: "n div 100 * 10 + n div 10 mod 10 = n div 10"
      using div_mult_mod_eq [of "n div 10" 10] by (simp add: div_mult2_eq [symmetric])
    from 3 have "n div 100 < 10" "n div 100 \<noteq> 0" "n div 10 mod 10 < 10" "n mod 10 < 10"
      "n div 10 * 10 + n mod 10 = n" "n div 10 \<le> 255" by auto
    with 3 assms d show ?thesis by (simp add: dec_3 Let_def)
  qed
qed

lemma not_digit_dot [simp]: "\<not> is_digit CHR ''.''"
  by (simp add: is_digit_def)

lemma ipv4_fields_join:
  assumes "a < 256" "b < 256" "c < 256" "d < 256"
  shows "ipv4_fields (join ''.'' (map dec [a, b, c, d])) 0 0 [] = Some [a, b, c, d]"
proof -
  have last: "ipv4_fields (dec d) 0 0 fs = ipv4_fields [] d (length (dec d)) fs" for fs
    using ipv4_fields_dec [OF assms(4), of "[]"] by simp
  show ?thesis
    by (simp add: ipv4_fields_dec assms last)
qed

lemma octets_bound: "n \<in> set (octets w) \<Longrightarrow> n < 256"
proof -
  have "unat (x AND 0xff) < 256" for x :: "32 word"
  proof -
    have "unat (x AND 0xff) \<le> unat (0xff :: 32 word)"
      using word_and_le1 [of x "0xff"] by (simp add: word_le_nat_alt and.commute)
    then show ?thesis by simp
  qed
  then show "n \<in> set (octets w) \<Longrightarrow> n < 256"
    by (auto simp: octets_def v4_def)
qed

lemma word_of_octets_octets [simp]: "word_of_octets (octets w) = w"
proof -
  have o: "unat (v4 w i) = unat w div 2 ^ (24 - 8 * i) mod 256" for i
  proof -
    have "v4 w i = take_bit 8 (drop_bit (24 - 8 * i) w)"
      by (simp add: v4_def take_bit_eq_mask mask_eq_exp_minus_1)
    then have "unat (v4 w i) = take_bit 8 (drop_bit (24 - 8 * i) (unat w))"
      by (simp only: unsigned_take_bit_eq unat_drop_bit_eq)
    then show ?thesis by (simp add: drop_bit_eq_div take_bit_eq_mod)
  qed
  have lt: "unat w < 2 ^ 32" using unsigned_less [of w] by simp
  have "((unat w div 2 ^ 24 mod 256 * 256 + unat w div 2 ^ 16 mod 256) * 256
          + unat w div 2 ^ 8 mod 256) * 256 + unat w mod 256 = unat w"
  proof -
    have "unat w div 2 ^ 24 mod 256 = unat w div 2 ^ 24" using lt by simp
    moreover have "unat w div 2 ^ 24 * 256 + unat w div 2 ^ 16 mod 256 = unat w div 2 ^ 16"
      using div_mult_mod_eq [of "unat w div 2 ^ 16" 256] by (simp add: div_mult2_eq [symmetric])
    moreover have "unat w div 2 ^ 16 * 256 + unat w div 2 ^ 8 mod 256 = unat w div 2 ^ 8"
      using div_mult_mod_eq [of "unat w div 2 ^ 8" 256] by (simp add: div_mult2_eq [symmetric])
    moreover have "unat w div 2 ^ 8 * 256 + unat w mod 256 = unat w"
      using div_mult_mod_eq [of "unat w" 256] by simp
    ultimately show ?thesis by metis
  qed
  moreover have "octets w = [unat w div 2 ^ 24 mod 256, unat w div 2 ^ 16 mod 256,
      unat w div 2 ^ 8 mod 256, unat w mod 256]"
    by (simp add: octets_def o)
  ultimately have "word_of_octets (octets w) = of_nat (unat w)"
    by (simp only: word_of_octets.simps)
  then show ?thesis by simp
qed

lemma parseIPv4_string4 [simp]: "parseIPv4 (string4 w) = Some (Addr4 w)"
proof -
  obtain a b c d where o: "octets w = [a, b, c, d]" by (simp add: octets_def)
  have "a < 256" "b < 256" "c < 256" "d < 256"
    using octets_bound [of _ w] o by auto
  then have "ipv4_fields (string4 w) 0 0 [] = Some (octets w)"
    unfolding string4_def o by (rule ipv4_fields_join)
  then show ?thesis by (simp add: parseIPv4_def)
qed

section \<open>IPv6\<close>

text \<open>
  The sixteen bytes of an address are kept as eight 16-bit groups; the parser's byte position
  \<open>i\<close> is twice the number of groups read so far, and its \<open>ellipsis\<close> the number of groups
  before the \<open>::\<close>.
\<close>

definition hex_val :: "char \<Rightarrow> nat option" where
  "hex_val c =
     (if is_digit c then Some (code c - 48)
      else if 97 \<le> code c \<and> code c \<le> 102 then Some (code c - 97 + 10)
      else if 65 \<le> code c \<and> code c \<le> 70 then Some (code c - 65 + 10)
      else None)"

definition hex_char :: "nat \<Rightarrow> char" where
  "hex_char n = (if n < 10 then digit_char n else char_of (87 + n))"

fun hex_group :: "string \<Rightarrow> nat \<Rightarrow> nat \<Rightarrow> (nat \<times> nat \<times> string) option" where
  "hex_group [] off acc = Some (off, acc, [])"
| "hex_group (c # s) off acc =
     (case hex_val c of
        None \<Rightarrow> Some (off, acc, c # s)
      | Some d \<Rightarrow>
          if off > 3 then None
          else if acc * 16 + d > 65535 then None
          else hex_group s (Suc off) (acc * 16 + d))"

fun v6_loop :: "nat \<Rightarrow> nat list \<Rightarrow> nat option \<Rightarrow> string \<Rightarrow> (nat list \<times> nat option) option" where
  "v6_loop 0 gs el s = (if s = [] then Some (gs, el) else None)"
| "v6_loop (Suc n) gs el s =
     (case hex_group s 0 0 of
        None \<Rightarrow> None
      | Some (off, acc, r) \<Rightarrow>
          if off = 0 then None
          else (case r of
             [] \<Rightarrow> Some (gs @ [acc], el)
           | c # t \<Rightarrow>
               if c = CHR ''.'' then
                 if el = None \<and> length gs \<noteq> 6 then None
                 else if length gs > 6 then None
                 else (case ipv4_fields s 0 0 [] of
                         Some [a, b, x, y] \<Rightarrow> Some (gs @ [a * 256 + b, x * 256 + y], el)
                       | _ \<Rightarrow> None)
               else if c \<noteq> CHR '':'' then None
               else (case t of
                  [] \<Rightarrow> None
                | d # t' \<Rightarrow>
                    if d = CHR '':'' then
                      if el \<noteq> None then None
                      else if t' = [] then Some (gs @ [acc], Some (Suc (length gs)))
                      else v6_loop n (gs @ [acc]) (Some (Suc (length gs))) t'
                    else v6_loop n (gs @ [acc]) el t)))"

fun expand_ellipsis :: "nat list \<times> nat option \<Rightarrow> nat list option" where
  "expand_ellipsis (gs, el) =
     (if length gs < 8 then
        (case el of None \<Rightarrow> None
         | Some k \<Rightarrow> Some (take k gs @ replicate (8 - length gs) 0 @ drop k gs))
      else if el \<noteq> None then None else Some gs)"

definition word_of_groups :: "nat list \<Rightarrow> 128 word" where
  "word_of_groups gs = of_nat (foldl (\<lambda>acc g. acc * 65536 + g) 0 gs)"

definition v6_groups :: "string \<Rightarrow> nat list option" where
  "v6_groups s =
     (if HasPrefix s ''::'' then
        (if drop 2 s = [] then Some (replicate 8 0)
         else Option.bind (v6_loop 8 [] (Some 0) (drop 2 s)) expand_ellipsis)
      else Option.bind (v6_loop 8 [] None s) expand_ellipsis)"

definition parseIPv6 :: "string \<Rightarrow> addr option" where
  "parseIPv6 s =
     (case cut_byte CHR ''%'' s of
        None \<Rightarrow> map_option (\<lambda>gs. Addr6 (word_of_groups gs) []) (v6_groups s)
      | Some (a, zone) \<Rightarrow>
          if zone = [] then None
          else map_option (\<lambda>gs. Addr6 (word_of_groups gs) zone) (v6_groups a))"

fun ParseAddr_from :: "string \<Rightarrow> string \<Rightarrow> addr option" where
  "ParseAddr_from s [] = None"
| "ParseAddr_from s (c # cs) =
     (if c = CHR ''.'' then parseIPv4 s
      else if c = CHR '':'' then parseIPv6 s
      else if c = CHR ''%'' then None
      else ParseAddr_from s cs)"

definition ParseAddr :: "string \<Rightarrow> addr option" where
  "ParseAddr s = ParseAddr_from s s"

definition hex :: "nat \<Rightarrow> string" where
  "hex n =
     (if n < 16 then [hex_char n]
      else if n < 256 then [hex_char (n div 16), hex_char (n mod 16)]
      else if n < 4096 then [hex_char (n div 256), hex_char (n div 16 mod 16), hex_char (n mod 16)]
      else [hex_char (n div 4096), hex_char (n div 256 mod 16), hex_char (n div 16 mod 16),
            hex_char (n mod 16)])"

definition groups :: "128 word \<Rightarrow> nat list" where
  "groups w = map (\<lambda>i. unat (v6u16 w i)) [0, 1, 2, 3, 4, 5, 6, 7]"

text \<open>The leftmost longest run of at least two zero groups, as start and length.\<close>

fun best_run :: "nat list \<Rightarrow> nat list \<Rightarrow> nat \<times> nat \<Rightarrow> nat \<times> nat" where
  "best_run gs [] best = best"
| "best_run gs (i # is) (s, l) =
     (let m = length (takeWhile (\<lambda>g. g = 0) (drop i gs))
      in best_run gs is (if 2 \<le> m \<and> l < m then (i, m) else (s, l)))"

definition string6 :: "128 word \<Rightarrow> string" where
  "string6 w =
     (let gs = groups w; (s, l) = best_run gs [0, 1, 2, 3, 4, 5, 6, 7] (0, 0)
      in if l = 0 then join '':'' (map hex gs)
         else join '':'' (map hex (take s gs)) @ ''::'' @ join '':'' (map hex (drop (s + l) gs)))"

fun with_zone :: "string \<Rightarrow> string \<Rightarrow> string" where
  "with_zone s [] = s"
| "with_zone s z = s @ CHR ''%'' # z"

fun addr_String :: "addr \<Rightarrow> string" where
  "addr_String NoAddr = ''invalid IP''"
| "addr_String (Addr4 w) = string4 w"
| "addr_String (Addr6 w z) =
     with_zone (if Is4In6 (Addr6 w z) then ''::ffff:'' @ string4 (ucast w) else string6 w) z"

section \<open>Prefixes\<close>

definition ParsePrefix :: "string \<Rightarrow> prefix option" where
  "ParsePrefix s =
     (case cut_last CHR ''/'' s of
        None \<Rightarrow> None
      | Some (a, b) \<Rightarrow>
          (case ParseAddr a of
             None \<Rightarrow> None
           | Some ip \<Rightarrow>
               if has_zone ip then None
               else if length b > 1 \<and> \<not> (49 \<le> code (hd b) \<and> code (hd b) \<le> 57) then None
               else (case Atoi b of
                  None \<Rightarrow> None
                | Some n \<Rightarrow>
                    if n < 0 \<or> n > (if Is6 ip then 128 else 32) then None
                    else Some (PrefixFrom ip n))))"

definition prefix_String :: "prefix \<Rightarrow> string" where
  "prefix_String p =
     (case pfx_bits p of
        None \<Rightarrow> ''invalid Prefix''
      | Some b \<Rightarrow> addr_String (pfx_addr p) @ ''/'' @ dec b)"

section \<open>Round trips\<close>

lemma code_hex_char: "n < 16 \<Longrightarrow> code (hex_char n) = (if n < 10 then 48 + n else 87 + n)"
  by (auto simp: hex_char_def)

lemma hex_val_hex_char [simp]: "n < 16 \<Longrightarrow> hex_val (hex_char n) = Some n"
  by (auto simp: hex_val_def is_digit_def code_hex_char)

definition ends_group :: "string \<Rightarrow> bool" where
  "ends_group r = (r = [] \<or> hex_val (hd r) = None)"

lemma ends_group_simps [simp]:
  "ends_group []" "ends_group (CHR '':'' # r)" "ends_group (CHR ''.'' # r)"
  by (simp_all add: ends_group_def hex_val_def is_digit_def)

lemma hex_group_end [simp]: "ends_group r \<Longrightarrow> hex_group r off acc = Some (off, acc, r)"
  by (cases r) (auto simp: ends_group_def)

lemma hex_group_4:
  assumes "a < 16" "b < 16" "c < 16" "d < 16" "ends_group r"
  shows "hex_group ([hex_char a, hex_char b, hex_char c, hex_char d] @ r) 0 0 =
     Some (4, ((a * 16 + b) * 16 + c) * 16 + d, r)"
  using assms by simp

lemma hex_group_hex:
  assumes "n < 65536" and "ends_group r"
  shows "\<exists>off. hex_group (hex n @ r) 0 0 = Some (off, n, r) \<and> off \<noteq> 0"
proof -
  consider "n < 16" | "16 \<le> n" "n < 256" | "256 \<le> n" "n < 4096" | "4096 \<le> n" "n < 65536"
    using assms(1) by linarith
  then show ?thesis
  proof cases
    case 1
    then show ?thesis using assms by (simp add: hex_def)
  next
    case 2
    then have "n div 16 < 16" "n div 16 * 16 + n mod 16 = n" by auto
    with 2 assms show ?thesis by (simp add: hex_def)
  next
    case 3
    have "n div 256 * 16 + n div 16 mod 16 = n div 16"
      using div_mult_mod_eq [of "n div 16" 16] by (simp add: div_mult2_eq [symmetric])
    moreover from 3 have "n div 256 < 16" "n div 16 * 16 + n mod 16 = n" "n div 16 < 65536" by auto
    ultimately show ?thesis using 3 assms by (simp add: hex_def)
  next
    case 4
    have "n div 256 * 16 + n div 16 mod 16 = n div 16"
      "n div 4096 * 16 + n div 256 mod 16 = n div 256"
      using div_mult_mod_eq [of "n div 16" 16] div_mult_mod_eq [of "n div 256" 16]
      by (simp_all add: div_mult2_eq [symmetric])
    then have "((n div 4096 * 16 + n div 256 mod 16) * 16 + n div 16 mod 16) * 16 + n mod 16 = n"
      by simp
    moreover have "n div 4096 < 16" using 4 by auto
    ultimately have "hex_group ([hex_char (n div 4096), hex_char (n div 256 mod 16),
        hex_char (n div 16 mod 16), hex_char (n mod 16)] @ r) 0 0 = Some (4, n, r)"
      using assms(2) hex_group_4 [of "n div 4096" "n div 256 mod 16" "n div 16 mod 16" "n mod 16" r]
      by simp
    then show ?thesis using 4 by (simp only: hex_def) auto
  qed
qed

lemma hex_nonempty [simp]: "hex n \<noteq> []"
  by (simp add: hex_def)

lemma hex_chars: "n < 65536 \<Longrightarrow> c \<in> set (hex n) \<Longrightarrow> \<exists>k<16. c = hex_char k"
  by (auto simp: hex_def split: if_splits
      intro: exI [of _ "n mod 16"] exI [of _ "n div 16 mod 16"] exI [of _ "n div 16"]
        exI [of _ "n div 256 mod 16"] exI [of _ "n div 256"] exI [of _ "n div 4096"])

lemma hex_val_separators [simp]:
  "hex_val CHR '':'' = None" "hex_val CHR ''.'' = None" "hex_val CHR ''%'' = None"
  "hex_val CHR ''/'' = None"
  by (simp_all add: hex_val_def is_digit_def)

lemma hex_char_not: "k < 16 \<Longrightarrow> hex_val c = None \<Longrightarrow> c \<noteq> hex_char k"
  by auto

lemma hex_separators: "n < 65536 \<Longrightarrow> hex_val c = None \<Longrightarrow> c \<notin> set (hex n)"
  using hex_chars hex_char_not by metis

lemma join_separators:
  "(\<And>g. g \<in> set gs \<Longrightarrow> g < 65536) \<Longrightarrow> hex_val c = None \<Longrightarrow> c \<noteq> CHR '':'' \<Longrightarrow>
     c \<notin> set (join '':'' (map hex gs))"
  by (induction gs rule: induct_list012) (auto simp: hex_separators)

lemma hex_not_colon: "n < 65536 \<Longrightarrow> \<exists>c cs. hex n = c # cs \<and> c \<noteq> CHR '':''"
  using hex_separators [of n "CHR '':''"] by (cases "hex n") auto

lemma join_hex_Cons:
  "gs \<noteq> [] \<Longrightarrow> hd gs < 65536 \<Longrightarrow> \<exists>c cs. join '':'' (map hex gs) = c # cs \<and> c \<noteq> CHR '':''"
  using hex_not_colon [of "hd gs"] by (cases gs rule: remdups_adj.cases) auto

lemma v6_loop_join:
  assumes "gs \<noteq> []" "\<And>g. g \<in> set gs \<Longrightarrow> g < 65536" "length gs \<le> n"
  shows "v6_loop n acc el (join '':'' (map hex gs)) = Some (acc @ gs, el)"
  using assms
proof (induction gs arbitrary: n acc rule: induct_list012)
  case (2 g)
  obtain m where n: "n = Suc m" using "2.prems"(3) by (cases n) auto
  obtain off where "hex_group (hex g @ []) 0 0 = Some (off, g, []) \<and> off \<noteq> 0"
    using hex_group_hex [of g "[]"] "2.prems"(2) by auto
  with n show ?case by simp
next
  case (3 g h gs)
  obtain m where n: "n = Suc m" using "3.prems"(3) by (cases n) auto
  let ?r = "join '':'' (map hex (h # gs))"
  obtain off where off: "hex_group (hex g @ CHR '':'' # ?r) 0 0 = Some (off, g, CHR '':'' # ?r)"
    "off \<noteq> 0"
    using hex_group_hex [of g "CHR '':'' # ?r"] "3.prems"(2) by auto
  obtain c cs where r: "?r = c # cs" "c \<noteq> CHR '':''"
    using join_hex_Cons [of "h # gs"] "3.prems"(2) by auto
  have "v6_loop m (acc @ [g]) el ?r = Some ((acc @ [g]) @ h # gs, el)"
    using "3.prems" n by (intro "3.IH"(2)) auto
  with n off r show ?case by simp
qed simp

lemma v6_loop_ellipsis:
  assumes "pre \<noteq> []" "\<And>g. g \<in> set (pre @ post) \<Longrightarrow> g < 65536" "length pre + length post \<le> n"
  shows "v6_loop n acc None (join '':'' (map hex pre) @ ''::'' @ join '':'' (map hex post)) =
     Some (acc @ pre @ post, Some (length acc + length pre))"
  using assms
proof (induction pre arbitrary: n acc rule: induct_list012)
  case (2 g)
  obtain m where n: "n = Suc m" using "2.prems"(3) by (cases n) auto
  let ?r = "join '':'' (map hex post)"
  obtain off where off: "hex_group (hex g @ CHR '':'' # CHR '':'' # ?r) 0 0 =
      Some (off, g, CHR '':'' # CHR '':'' # ?r)" "off \<noteq> 0"
    using hex_group_hex [of g "CHR '':'' # CHR '':'' # ?r"] "2.prems"(2) by auto
  show ?case
  proof (cases post)
    case Nil
    with n off show ?thesis by simp
  next
    case (Cons h hs)
    then have "?r \<noteq> []" using join_hex_Cons [of post] "2.prems"(2) by force
    moreover have "v6_loop m (acc @ [g]) (Some (Suc (length acc))) ?r =
        Some ((acc @ [g]) @ post, Some (Suc (length acc)))"
      using "2.prems" n Cons by (intro v6_loop_join) auto
    ultimately show ?thesis using n off by simp
  qed
next
  case (3 g h gs)
  obtain m where n: "n = Suc m" using "3.prems"(3) by (cases n) auto
  let ?r = "join '':'' (map hex (h # gs)) @ ''::'' @ join '':'' (map hex post)"
  obtain off where off: "hex_group (hex g @ CHR '':'' # ?r) 0 0 = Some (off, g, CHR '':'' # ?r)"
    "off \<noteq> 0"
    using hex_group_hex [of g "CHR '':'' # ?r"] "3.prems"(2) by auto
  obtain c cs where r: "?r = c # cs" "c \<noteq> CHR '':''"
    using join_hex_Cons [of "h # gs"] "3.prems"(2) by auto
  have "v6_loop m (acc @ [g]) None ?r =
      Some ((acc @ [g]) @ (h # gs) @ post, Some (length (acc @ [g]) + length (h # gs)))"
    using "3.prems" n by (intro "3.IH"(2)) auto
  with n off r show ?case by simp
qed simp

lemma length_groups [simp]: "length (groups w) = 8"
  by (simp add: groups_def)

lemma unat_v6u16: "unat (v6u16 w i) = unat w div 2 ^ (112 - 16 * i) mod 65536"
proof -
  have "v6u16 w i = take_bit 16 (drop_bit (112 - 16 * i) w)"
    by (simp add: v6u16_def take_bit_eq_mask mask_eq_exp_minus_1)
  then have "unat (v6u16 w i) = take_bit 16 (drop_bit (112 - 16 * i) (unat w))"
    by (simp only: unsigned_take_bit_eq unat_drop_bit_eq)
  then show ?thesis by (simp add: drop_bit_eq_div take_bit_eq_mod)
qed

lemma groups_bound: "g \<in> set (groups w) \<Longrightarrow> g < 65536"
  by (auto simp: groups_def unat_v6u16)

lemma div_16_step:
  fixes n :: nat
  shows "n div 2 ^ (k + 16) * 65536 + n div 2 ^ k mod 65536 = n div 2 ^ k"
  using div_mult_mod_eq [of "n div 2 ^ k" 65536] by (simp add: div_mult2_eq power_add)

lemma word_of_groups_groups [simp]: "word_of_groups (groups w) = w"
proof -
  define n where "n = unat w"
  have "n < 2 ^ 128" using unsigned_less [of w] by (simp add: n_def)
  then have top: "n div 2 ^ 112 mod 65536 = n div 2 ^ 112" by simp
  have g: "groups w = [n div 2 ^ 112 mod 65536, n div 2 ^ 96 mod 65536, n div 2 ^ 80 mod 65536,
     n div 2 ^ 64 mod 65536, n div 2 ^ 48 mod 65536, n div 2 ^ 32 mod 65536,
     n div 2 ^ 16 mod 65536, n div 2 ^ 0 mod 65536]"
    by (simp add: groups_def unat_v6u16 n_def)
  have "foldl (\<lambda>acc g. acc * 65536 + g) 0 (groups w) = n"
    using div_16_step [of n 96] div_16_step [of n 80] div_16_step [of n 64] div_16_step [of n 48]
      div_16_step [of n 32] div_16_step [of n 16] div_16_step [of n 0] top
    unfolding g by (simp only: foldl.simps) simp
  then show ?thesis by (simp add: word_of_groups_def n_def)
qed

lemma best_run_zero:
  assumes "snd best = 0 \<or> take (snd best) (drop (fst best) gs) = replicate (snd best) 0 \<and>
      fst best + snd best \<le> length gs"
    and "\<And>i. i \<in> set is \<Longrightarrow> i \<le> length gs"
  shows "snd (best_run gs is best) = 0 \<or>
     take (snd (best_run gs is best)) (drop (fst (best_run gs is best)) gs) =
       replicate (snd (best_run gs is best)) 0 \<and>
     fst (best_run gs is best) + snd (best_run gs is best) \<le> length gs"
  using assms
proof (induction gs "is" best rule: best_run.induct)
  case (2 gs i "is" s l)
  define m where "m = length (takeWhile (\<lambda>g. g = 0) (drop i gs))"
  have "take m (drop i gs) = takeWhile (\<lambda>g. g = 0) (drop i gs)"
    by (simp add: m_def takeWhile_eq_take [symmetric])
  also have "\<dots> = replicate m 0"
    by (metis (mono_tags, lifting) m_def replicate_eqI set_takeWhileD)
  finally have zero: "take m (drop i gs) = replicate m 0" .
  have "m \<le> length (drop i gs)" unfolding m_def by (rule length_takeWhile_le)
  then have "i + m \<le> length gs" using "2.prems"(2) [of i] by simp
  with zero "2.prems" show ?case
    by (simp only: best_run.simps Let_def m_def [symmetric])
      (rule "2.IH" [OF m_def], auto)
qed simp

lemma string6_cases [case_names plain run]:
  assumes "string6 w = join '':'' (map hex (groups w)) \<Longrightarrow> thesis"
    and "\<And>s l. l \<noteq> 0 \<Longrightarrow> take l (drop s (groups w)) = replicate l 0 \<Longrightarrow> s + l \<le> 8 \<Longrightarrow>
       string6 w = join '':'' (map hex (take s (groups w))) @ ''::'' @
         join '':'' (map hex (drop (s + l) (groups w))) \<Longrightarrow> thesis"
  shows thesis
proof -
  obtain s l where sl: "best_run (groups w) [0, 1, 2, 3, 4, 5, 6, 7] (0, 0) = (s, l)" by force
  show ?thesis
  proof (cases "l = 0")
    case True
    then show ?thesis using assms(1) sl by (simp add: string6_def del: best_run.simps)
  next
    case False
    have "\<And>i. i \<in> set [0, 1, 2, 3, 4, 5, 6, 7] \<Longrightarrow> i \<le> length (groups w)" by auto
    then have "take l (drop s (groups w)) = replicate l 0 \<and> s + l \<le> 8"
      using best_run_zero [of "(0, 0)" "groups w" "[0, 1, 2, 3, 4, 5, 6, 7]"] sl False
      by (simp del: best_run.simps)
    then show ?thesis using assms(2) False sl
      unfolding string6_def by (simp only: Let_def sl prod.case if_False) blast
  qed
qed

lemma run_split:
  assumes "take l (drop s gs) = replicate l (0::nat)"
  shows "gs = take s gs @ replicate l 0 @ drop (s + l) gs"
  using assms by (metis append_take_drop_id drop_drop add.commute)

lemma expand_ellipsis_run:
  assumes "length pre + l + length post = 8" "l \<noteq> 0"
  shows "expand_ellipsis (pre @ post, Some (length pre)) = Some (pre @ replicate l 0 @ post)"
  using assms by simp

lemma not_colon_prefix: "c \<noteq> CHR '':'' \<Longrightarrow> \<not> HasPrefix (c # cs) ''::''"
  by (simp add: HasPrefix_def)

lemma v6_groups_string6: "v6_groups (string6 w) = Some (groups w)"
proof (cases w rule: string6_cases)
  case plain
  obtain c cs where c: "string6 w = c # cs" "c \<noteq> CHR '':''"
    using join_hex_Cons [of "groups w"] groups_bound unfolding plain
    by (metis hd_in_set length_0_conv length_groups zero_neq_numeral)
  have "v6_loop 8 [] None (string6 w) = Some ([] @ groups w, None)"
    unfolding plain using groups_bound by (intro v6_loop_join) (auto dest: arg_cong [of _ _ length])
  then show ?thesis using c not_colon_prefix by (simp add: v6_groups_def)
next
  case (run s l)
  define pre where "pre = take s (groups w)"
  define post where "post = drop (s + l) (groups w)"
  have split: "groups w = pre @ replicate l 0 @ post"
    using run_split [OF run(2)] by (simp add: pre_def post_def)
  have len: "length pre + l + length post = 8"
    using run(3) by (simp add: pre_def post_def)
  have bounds: "\<And>g. g \<in> set (pre @ post) \<Longrightarrow> g < 65536"
    using groups_bound by (auto simp: pre_def post_def dest: in_set_takeD in_set_dropD)
  have str: "string6 w = join '':'' (map hex pre) @ ''::'' @ join '':'' (map hex post)"
    using run(4) by (simp only: pre_def post_def)
  have result: "expand_ellipsis (pre @ post, Some (length pre)) = Some (groups w)"
    using expand_ellipsis_run [OF len run(1)] split by simp
  show ?thesis
  proof (cases pre)
    case pre: Nil
    show ?thesis
    proof (cases post)
      case Nil
      then show ?thesis using str split len pre by (simp add: v6_groups_def HasPrefix_def)
    next
      case (Cons h hs)
      then have "join '':'' (map hex post) \<noteq> []" using join_hex_Cons [of post] bounds by force
      moreover have "v6_loop 8 [] (Some 0) (join '':'' (map hex post)) = Some ([] @ post, Some 0)"
        using Cons bounds len by (intro v6_loop_join) auto
      ultimately show ?thesis using result str pre by (simp add: v6_groups_def HasPrefix_def)
    qed
  next
    case (Cons h hs)
    obtain c cs where c: "string6 w = c # cs" "c \<noteq> CHR '':''"
      using join_hex_Cons [of pre] Cons bounds unfolding str by force
    have "v6_loop 8 [] None (string6 w) = Some ([] @ pre @ post, Some (length ([] :: nat list) + length pre))"
      unfolding str using Cons bounds len by (intro v6_loop_ellipsis) auto
    then show ?thesis using c not_colon_prefix result by (simp add: v6_groups_def)
  qed
qed

lemma string4_chars: "c \<in> set (string4 w) \<Longrightarrow> is_digit c \<or> c = CHR ''.''"
proof -
  have "c \<in> set (join ''.'' (map dec ns)) \<Longrightarrow> is_digit c \<or> c = CHR ''.''" for ns
    by (induction ns rule: induct_list012) (auto dest: dec_digits)
  then show "c \<in> set (string4 w) \<Longrightarrow> is_digit c \<or> c = CHR ''.''"
    by (simp add: string4_def)
qed

lemma string4_shape: "\<exists>d r. string4 w = dec d @ CHR ''.'' # r \<and> d < 256"
proof -
  obtain a b c d where o: "octets w = [a, b, c, d]" by (simp add: octets_def)
  then have "a < 256" using octets_bound [of a w] by simp
  with o show ?thesis by (auto simp: string4_def)
qed

lemma string6_chars:
  assumes "hex_val c = None" "c \<noteq> CHR '':''"
  shows "c \<notin> set (string6 w)"
proof -
  have j: "c \<notin> set (join '':'' (map hex gs))" if "set gs \<subseteq> set (groups w)" for gs
    using that groups_bound assms by (intro join_separators) auto
  show ?thesis
    using j [OF subset_refl] j [OF set_take_subset] j [OF set_drop_subset] assms(2)
    by (cases w rule: string6_cases) simp_all
qed

lemma join_long_colon: "2 \<le> length gs \<Longrightarrow> CHR '':'' \<in> set (join '':'' (map hex gs))"
  by (cases gs rule: remdups_adj.cases) auto

lemma string6_has_colon: "CHR '':'' \<in> set (string6 w)"
  by (cases w rule: string6_cases) (auto simp: join_long_colon)

lemma ParseAddr_from_colon:
  "CHR '':'' \<in> set t \<Longrightarrow> CHR ''.'' \<notin> set t \<Longrightarrow> CHR ''%'' \<notin> set t \<Longrightarrow> ParseAddr_from s (t @ u) = parseIPv6 s"
  by (induction t) auto

lemma ParseAddr_from_dot:
  "CHR '':'' \<notin> set t \<Longrightarrow> CHR ''.'' \<in> set t \<Longrightarrow> CHR ''%'' \<notin> set t \<Longrightarrow> ParseAddr_from s (t @ u) = parseIPv4 s"
  by (induction t) auto

lemma ParseAddr_string4: "ParseAddr (string4 w) = Some (Addr4 w)"
proof -
  have "CHR ''.'' \<in> set (string4 w)" using string4_shape [of w] by auto
  moreover have "CHR '':'' \<notin> set (string4 w)" "CHR ''%'' \<notin> set (string4 w)"
    using string4_chars [of "CHR '':''" w] string4_chars [of "CHR ''%''" w]
    by (auto simp: is_digit_def)
  ultimately show ?thesis
    using ParseAddr_from_dot [of "string4 w" "string4 w" "[]"] by (simp add: ParseAddr_def)
qed

lemma hex_group_dec:
  assumes "d < 256"
  shows "\<exists>off acc. hex_group (dec d @ CHR ''.'' # r) 0 0 = Some (off, acc, CHR ''.'' # r) \<and> off \<noteq> 0"
proof -
  have h: "hex_val (digit_char n) = Some n" if "n < 10" for n
    using that by (simp add: hex_val_def)
  consider "d < 10" | "10 \<le> d" "d < 100" | "100 \<le> d" "d < 1000" using assms by linarith
  then show ?thesis
  proof cases
    case 1
    then show ?thesis by (simp add: dec_1 h)
  next
    case 2
    then have "d div 10 < 10" "d mod 10 < 10" by auto
    with 2 show ?thesis by (simp add: dec_2 h)
  next
    case 3
    then have "d div 100 < 10" "d div 10 mod 10 < 10" "d mod 10 < 10" by auto
    with 3 show ?thesis by (simp add: dec_3 h)
  qed
qed

lemma byte_pair:
  fixes q :: nat
  shows "q div 256 mod 256 * 256 + q mod 256 = q mod 65536"
  using mod_mult2_eq [of q 256 256] by simp

lemma half_word:
  fixes n :: nat
  shows "n mod 4294967296 div 65536 = n div 65536 mod 65536"
proof -
  have "n mod 4294967296 = 65536 * (n div 65536 mod 65536) + n mod 65536"
    using mod_mult2_eq [of n 65536 65536] by simp
  then show ?thesis by simp
qed

lemma pair_mod:
  fixes n :: nat
  shows "n mod 2 ^ 32 div 2 ^ 24 mod 256 * 256 + n mod 2 ^ 32 div 2 ^ 16 mod 256 =
      n div 2 ^ 16 mod 65536"
    and "n mod 2 ^ 32 div 2 ^ 8 mod 256 * 256 + n mod 2 ^ 32 mod 256 = n mod 65536"
proof -
  have "n mod 2 ^ 32 div 2 ^ 24 = n mod 2 ^ 32 div 2 ^ 16 div 256"
    by (simp only: div_mult2_eq [symmetric]) simp
  then show "n mod 2 ^ 32 div 2 ^ 24 mod 256 * 256 + n mod 2 ^ 32 div 2 ^ 16 mod 256 =
      n div 2 ^ 16 mod 65536"
    using byte_pair [of "n mod 2 ^ 32 div 2 ^ 16"] half_word [of n] by simp
  have "n mod 4294967296 mod 65536 = n mod 65536" by (rule mod_mod_cancel) simp
  then show "n mod 2 ^ 32 div 2 ^ 8 mod 256 * 256 + n mod 2 ^ 32 mod 256 = n mod 65536"
    using byte_pair [of "n mod 2 ^ 32"] by simp
qed

lemma groups_4in6:
  assumes "drop_bit 32 w = (0xffff :: 128 word)"
  shows "[0, 0, 0, 0, 0, 0xffff] @
     (case octets (ucast w) of [a, b, c, d] \<Rightarrow> [a * 256 + b, c * 256 + d] | _ \<Rightarrow> []) = groups w"
proof -
  define n where "n = unat w"
  have "drop_bit 32 (unat w) = unat (0xffff :: 128 word)"
    by (simp only: unat_drop_bit_eq [symmetric] assms)
  then have hi: "n div 2 ^ 32 = 65535" by (simp add: n_def drop_bit_eq_div)
  have d: "n div 2 ^ (32 + k) = 65535 div 2 ^ k" for k
    by (simp only: power_add div_mult2_eq hi)
  have lo: "unat (ucast w :: 32 word) = n mod 2 ^ 32"
    by (simp add: n_def unsigned_ucast_eq take_bit_eq_mod)
  have o: "octets (ucast w) = [n mod 2 ^ 32 div 2 ^ 24 mod 256, n mod 2 ^ 32 div 2 ^ 16 mod 256,
     n mod 2 ^ 32 div 2 ^ 8 mod 256, n mod 2 ^ 32 mod 256]"
  proof -
    have "unat (v4 (ucast w) i) = n mod 2 ^ 32 div 2 ^ (24 - 8 * i) mod 256" for i
    proof -
      have "v4 (ucast w) i = take_bit 8 (drop_bit (24 - 8 * i) (ucast w :: 32 word))"
        by (simp add: v4_def take_bit_eq_mask mask_eq_exp_minus_1)
      then have "unat (v4 (ucast w) i) = take_bit 8 (drop_bit (24 - 8 * i) (unat (ucast w :: 32 word)))"
        by (simp only: unsigned_take_bit_eq unat_drop_bit_eq)
      then show ?thesis by (simp only: lo) (simp add: drop_bit_eq_div take_bit_eq_mod)
    qed
    then show ?thesis by (simp add: octets_def)
  qed
  have pair: "n mod 2 ^ 32 div 2 ^ 24 mod 256 * 256 + n mod 2 ^ 32 div 2 ^ 16 mod 256 = n div 2 ^ 16 mod 65536"
    "n mod 2 ^ 32 div 2 ^ 8 mod 256 * 256 + n mod 2 ^ 32 mod 256 = n mod 65536"
    by (rule pair_mod)+
  have g: "groups w = [n div 2 ^ (32 + 80) mod 65536, n div 2 ^ (32 + 64) mod 65536,
     n div 2 ^ (32 + 48) mod 65536, n div 2 ^ (32 + 32) mod 65536, n div 2 ^ (32 + 16) mod 65536,
     n div 2 ^ (32 + 0) mod 65536, n div 2 ^ 16 mod 65536, n mod 65536]"
    by (simp add: groups_def unat_v6u16 n_def)
  show ?thesis
    unfolding g d o by (simp only: list.case pair append.simps) simp
qed

lemma replicate_5: "replicate 5 (0::nat) = [0, 0, 0, 0, 0]"
  by (simp add: eval_nat_numeral)

lemma v6_loop_tail:
  assumes "ipv4_fields s 0 0 [] = Some [a, b, x, y]" "length gs \<le> 6"
    and "hex_group s 0 0 = Some (off, acc, CHR ''.'' # r)" "off \<noteq> 0"
  shows "v6_loop (Suc n) gs (Some k) s = Some (gs @ [a * 256 + b, x * 256 + y], Some k)"
  using assms by (simp only: v6_loop.simps option.case prod.case list.case) auto

lemma v6_loop_colon:
  assumes "hex_group s 0 0 = Some (off, acc, CHR '':'' # d # t)" "off \<noteq> 0" "d \<noteq> CHR '':''"
  shows "v6_loop (Suc n) gs el s = v6_loop n (gs @ [acc]) el (d # t)"
  using assms by (simp only: v6_loop.simps option.case prod.case list.case) auto

lemma v6_groups_4in6:
  assumes "drop_bit 32 w = (0xffff :: 128 word)"
  shows "v6_groups (''::ffff:'' @ string4 (ucast w)) = Some (groups w)"
proof -
  obtain a b c d where o: "octets (ucast w :: 32 word) = [a, b, c, d]" by (simp add: octets_def)
  then have f: "ipv4_fields (string4 (ucast w)) 0 0 [] = Some [a, b, c, d]"
    using ipv4_fields_join [of a b c d] octets_bound [of _ "ucast w"] by (simp add: string4_def)
  obtain x r where x: "string4 (ucast w) = dec x @ CHR ''.'' # r" "x < 256"
    using string4_shape by blast
  obtain off acc where h: "hex_group (string4 (ucast w)) 0 0 = Some (off, acc, CHR ''.'' # r)"
    "off \<noteq> 0" using hex_group_dec [OF x(2)] unfolding x(1) by blast
  obtain y ys where y: "string4 (ucast w) = y # ys" "is_digit y"
    by (metis dec_no_sign dec_nonempty neq_Nil_conv append_Cons x(1))
  then have "y \<noteq> CHR '':''" by (auto simp: is_digit_def)
  have "hex_group (''ffff'' @ CHR '':'' # string4 (ucast w)) 0 0 =
      Some (4, 65535, CHR '':'' # string4 (ucast w))"
    by (simp add: hex_val_def is_digit_def)
  then have "v6_loop (Suc 7) [] (Some 0) (''ffff'' @ CHR '':'' # string4 (ucast w)) =
      v6_loop 7 ([] @ [65535]) (Some 0) (string4 (ucast w))"
    using v6_loop_colon [of "''ffff'' @ CHR '':'' # string4 (ucast w)" 4 65535 y ys 7 "[]" "Some 0"]
      y \<open>y \<noteq> CHR '':''\<close> by simp
  also have "\<dots> = Some ([65535, a * 256 + b, c * 256 + d], Some 0)"
    using v6_loop_tail [OF f _ h, of "[65535]" 6 0] by simp
  finally have "v6_loop 8 [] (Some 0) (''ffff'' @ CHR '':'' # string4 (ucast w)) =
      Some ([65535, a * 256 + b, c * 256 + d], Some 0)"
    by (simp only: eval_nat_numeral) simp
  then have "v6_groups (''::ffff:'' @ string4 (ucast w)) =
      Some ([0, 0, 0, 0, 0, 65535, a * 256 + b, c * 256 + d])"
    by (simp add: v6_groups_def HasPrefix_def replicate_5)
  then show ?thesis using groups_4in6 [OF assms] o by simp
qed

text \<open>The text of an IPv6 address without its zone: its characters, and what it parses to.\<close>

definition body6 :: "128 word \<Rightarrow> string" where
  "body6 w = (if drop_bit 32 w = 0xffff then ''::ffff:'' @ string4 (ucast w) else string6 w)"

lemma body6_groups: "v6_groups (body6 w) = Some (groups w)"
  using v6_groups_4in6 v6_groups_string6 by (metis body6_def)

lemma body6_chars: "hex_val c = None \<Longrightarrow> c \<noteq> CHR '':'' \<Longrightarrow> c \<noteq> CHR ''.'' \<Longrightarrow> c \<notin> set (body6 w)"
  using string4_chars [of c "ucast w"] string6_chars [of c w]
  by (auto simp: body6_def hex_val_def is_digit_def)

lemma ParseAddr_from_body6: "ParseAddr_from s (body6 w @ u) = parseIPv6 s"
proof (cases "drop_bit 32 w = (0xffff :: 128 word)")
  case True
  then show ?thesis by (simp add: body6_def)
next
  case False
  then show ?thesis
    using ParseAddr_from_colon [of "string6 w" s u] string6_has_colon string6_chars [of _ w]
    by (simp add: body6_def)
qed

lemma with_zone_append: "with_zone s z = (if z = [] then s else s @ CHR ''%'' # z)"
  by (cases z) auto

lemma addr_String_6: "addr_String (Addr6 w z) = with_zone (body6 w) z"
  by (simp add: body6_def)

lemma parseIPv6_body6: "parseIPv6 (with_zone (body6 w) z) = Some (Addr6 w z)"
proof -
  have "CHR ''%'' \<notin> set (body6 w)" by (rule body6_chars) auto
  then show ?thesis
    by (auto simp: parseIPv6_def with_zone_append body6_groups cut_byte_append
        cut_byte_None [THEN iffD2])
qed

lemma ParseAddr_String: "addr_IsValid a \<Longrightarrow> ParseAddr (addr_String a) = Some a"
proof (cases a)
  case (Addr6 w z)
  have "ParseAddr_from (with_zone (body6 w) z) (with_zone (body6 w) z) = parseIPv6 (with_zone (body6 w) z)"
    using ParseAddr_from_body6 [of _ w "[]"] ParseAddr_from_body6 [of _ w "CHR ''%'' # z"]
    by (simp add: with_zone_append)
  then show ?thesis
    using Addr6 parseIPv6_body6 by (simp only: addr_String_6 ParseAddr_def)
qed (auto simp: ParseAddr_string4 addr_IsValid_def)

lemma dec_no_slash: "CHR ''/'' \<notin> set (dec b)"
  using dec_digits [of "CHR ''/''" b] by (auto simp: is_digit_def)

lemma dec_leading: "length (dec b) > 1 \<Longrightarrow> 49 \<le> code (hd (dec b)) \<and> code (hd (dec b)) \<le> 57"
proof (induction b rule: dec.induct)
  case (1 b)
  show ?case
  proof (cases "b < 10")
    case True
    then show ?thesis using "1.prems" by (simp add: dec_1)
  next
    case ge: False
    then have eq: "dec b = dec (b div 10) @ [digit_char (b mod 10)]" by (subst dec.simps) simp
    show ?thesis
    proof (cases "b div 10 < 10")
      case True
      then have "dec b = [digit_char (b div 10), digit_char (b mod 10)]" using eq by (simp add: dec_1)
      moreover have "b div 10 \<noteq> 0" using ge by auto
      ultimately show ?thesis using True by simp
    next
      case False
      then have "length (dec (b div 10)) > 1"
        by (subst dec.simps) (simp add: Suc_le_eq)
      then show ?thesis using "1.IH" ge eq by (simp add: hd_append)
    qed
  qed
qed

lemma ParsePrefix_String:
  assumes "wf_prefix p" and "prefix_IsValid p"
  shows "ParsePrefix (prefix_String p) = Some p"
proof -
  from assms obtain b where p: "p = Prefix (pfx_addr p) (Some b)" "\<not> has_zone (pfx_addr p)"
    "pfx_addr p \<noteq> NoAddr" "b \<le> bit_len (pfx_addr p)"
    by (cases rule: wf_prefix_cases) (auto simp: prefix_IsValid_def)
  define a where "a = pfx_addr p"
  have b: "b \<le> (if Is6 a then 128 else 32)" "without_zone a = a"
    using p by (cases a; simp add: a_def [symmetric])+
  have "pfx_bits p = Some b" using p(1) by (metis prefix.sel(2))
  then have "prefix_String p = addr_String a @ CHR ''/'' # dec b"
    by (simp add: prefix_String_def a_def)
  then have "cut_last CHR ''/'' (prefix_String p) = Some (addr_String a, dec b)"
    by (simp only: cut_last_append [OF dec_no_slash])
  moreover have "ParseAddr (addr_String a) = Some a"
    using p(3) by (intro ParseAddr_String) (simp add: a_def addr_IsValid_def)
  moreover have "Atoi (dec b) = Some (int b)"
    using b(1) by (intro Atoi_dec) (auto split: if_splits)
  moreover have "PrefixFrom a (int b) = p"
    using p b by (auto simp: PrefixFrom_def a_def [symmetric])
  ultimately show ?thesis
    using p(2) b(1) dec_leading [of b] unfolding ParsePrefix_def a_def [symmetric]
    by (auto split: if_splits)
qed

lemma ParseAddr_valid: "ParseAddr s = Some a \<Longrightarrow> Is4 a \<or> Is6 a"
proof -
  have "ParseAddr_from s t = Some a \<Longrightarrow> Is4 a \<or> Is6 a" for t
    by (induction t) (auto simp: parseIPv4_def parseIPv6_def split: if_splits option.splits)
  then show "ParseAddr s = Some a \<Longrightarrow> Is4 a \<or> Is6 a" by (simp add: ParseAddr_def)
qed

lemma PrefixFrom_valid:
  "Is4 a \<or> Is6 a \<Longrightarrow> 0 \<le> n \<Longrightarrow> n \<le> (if Is6 a then 128 else 32) \<Longrightarrow> prefix_IsValid (PrefixFrom a n)"
  by (cases a) (auto simp: prefix_IsValid_def PrefixFrom_def)

lemma ParsePrefix_PrefixFrom:
  assumes "ParsePrefix s = Some p"
  shows "\<exists>a n. p = PrefixFrom a n \<and> (Is4 a \<or> Is6 a) \<and> 0 \<le> n \<and> n \<le> (if Is6 a then 128 else 32)"
proof -
  from assms obtain x b where c: "cut_last CHR ''/'' s = Some (x, b)"
    by (cases "cut_last CHR ''/'' s") (auto simp: ParsePrefix_def)
  with assms obtain a where a: "ParseAddr x = Some a"
    by (cases "ParseAddr x") (auto simp: ParsePrefix_def)
  with assms c obtain n where n: "Atoi b = Some n"
    by (cases "Atoi b") (auto simp: ParsePrefix_def split: if_splits)
  with assms a c have "p = PrefixFrom a n \<and> 0 \<le> n \<and> n \<le> (if Is6 a then 128 else 32)"
    by (simp add: ParsePrefix_def split: if_splits)
  then show ?thesis using ParseAddr_valid [OF a] by blast
qed

lemma ParsePrefix_wf: "ParsePrefix s = Some p \<Longrightarrow> wf_prefix p \<and> prefix_IsValid p"
  by (metis ParsePrefix_PrefixFrom PrefixFrom_valid wf_PrefixFrom)

interpretation addr_text: text_codec addr_String ParseAddr addr_IsValid
  by unfold_locales (rule ParseAddr_String)

interpretation prefix_text: text_codec prefix_String ParsePrefix "\<lambda>p. wf_prefix p \<and> prefix_IsValid p"
  by unfold_locales (simp add: ParsePrefix_String)

end
