(* ===== verification/Policystore.thy ===== *)
theory Policystore
  imports Netip_Text "HOL-Library.Multiset"
begin

text \<open>
  \<open>internal/policystore/store.go\<close>: the file-backed store of the CIDR blocklist and whitelist.
  Every operation is the critical section the store's mutex delimits. The file system is a map
  from paths to what the JSON decoder reads there; the text of the JSON is not modelled. The
  operating system's failures are an argument (the step of \<open>persist\<close> that fails, if any), and
  so are the clock and the name \<open>os.CreateTemp\<close> picks.
\<close>

section \<open>Data\<close>

text \<open>The string types \<open>List\<close> and \<open>Operation\<close> and their constants.\<close>

abbreviation Blocklist :: string where "Blocklist \<equiv> ''blocklist''"
abbreviation Whitelist :: string where "Whitelist \<equiv> ''whitelist''"
abbreviation OpAdd :: string where "OpAdd \<equiv> ''add''"
abbreviation OpRemove :: string where "OpRemove \<equiv> ''remove''"

record audit_event =
  ev_time :: time
  ev_operation :: string
  ev_list :: string
  ev_prefix :: prefix

record store =
  path :: string
  blocklist :: "prefix list"
  whitelist :: "prefix list"
  expirations :: "(prefix, time) gomap"
  audit :: "audit_event list"

record disk_state =
  ds_blocklist :: "prefix list"
  ds_whitelist :: "prefix list"
  ds_audit :: "audit_event list"
  ds_expirations :: "(string, time) gomap"

text \<open>What a file holds, as its reader sees it: no decodable value, one value followed by more
  input, or exactly one value.\<close>

datatype 'd file_image = Undecodable | Trailing 'd | Document 'd

type_synonym disk = "string \<Rightarrow> disk_state file_image option"

text \<open>The fallible steps of \<open>persist\<close>, in order.\<close>

datatype persist_step =
  Encode | CreateTemp | Chmod | Write | Sync | Close | Rename | OpenDir | SyncDir

datatype store_error =
    EmptyPath | ReadFailed | DecodeFailed | TrailingData
  | InvalidList string | InvalidPrefix | InvalidOperation string
  | ExpiryRequiresBlocklist string | ZeroExpiry
  | InvalidListPrefix string nat | DuplicatePrefix string prefix
  | InvalidExpirationKey string | ZeroExpiryFor string
  | DuplicateExpirationKey prefix | OrphanExpiration prefix
  | InvalidAuditEvent nat | PersistFailed persist_step

record io =
  fault :: "persist_step option"
  tmp_name :: string

definition New :: store where
  "New = \<lparr>path = [], blocklist = [], whitelist = [], expirations = [], audit = []\<rparr>"

definition validList :: "string \<Rightarrow> bool" where
  "validList list = (list = Blocklist \<or> list = Whitelist)"

section \<open>Writing the file\<close>

fun step_effect :: "string \<Rightarrow> string \<Rightarrow> disk_state \<Rightarrow> persist_step \<Rightarrow> disk \<Rightarrow> disk" where
  "step_effect tmp p st CreateTemp d = d(tmp \<mapsto> Undecodable)"
| "step_effect tmp p st Write d = d(tmp \<mapsto> Document st)"
| "step_effect tmp p st Rename d = (d(p := d tmp))(tmp := None)"
| "step_effect tmp p st _ d = d"

definition persist_steps :: "persist_step list" where
  "persist_steps = [Encode, CreateTemp, Chmod, Write, Sync, Close, Rename, OpenDir, SyncDir]"

fun run_steps :: "persist_step option \<Rightarrow> string \<Rightarrow> string \<Rightarrow> disk_state \<Rightarrow> persist_step list \<Rightarrow> disk
    \<Rightarrow> store_error option \<times> disk" where
  "run_steps flt tmp p st [] d = (None, d)"
| "run_steps flt tmp p st (s # ss) d =
     (if flt = Some s then (Some (PersistFailed s), d)
      else run_steps flt tmp p st ss (step_effect tmp p st s d))"

text \<open>The deferred \<open>os.Remove\<close> of the temporary file is registered once the file exists.\<close>

definition persist :: "io \<Rightarrow> string \<Rightarrow> disk_state \<Rightarrow> disk \<Rightarrow> store_error option \<times> disk" where
  "persist io p st d =
     (let (e, d') = run_steps (fault io) (tmp_name io) p st persist_steps d
      in (e, if fault io = Some Encode \<or> fault io = Some CreateTemp then d'
             else d'(tmp_name io := None)))"

text \<open>The disk after the process dies having completed the first \<open>k\<close> steps.\<close>

definition crash_disk :: "nat \<Rightarrow> io \<Rightarrow> string \<Rightarrow> disk_state \<Rightarrow> disk \<Rightarrow> disk" where
  "crash_disk k io p st d =
     snd (run_steps None (tmp_name io) p st (take k persist_steps) d)"

definition prefixToTimeMap :: "(prefix, time) gomap \<Rightarrow> (string, time) gomap" where
  "prefixToTimeMap es = map (\<lambda>(p, t). (prefix_String p, t)) es"

definition to_disk :: "prefix list \<Rightarrow> prefix list \<Rightarrow> audit_event list \<Rightarrow> (prefix, time) gomap \<Rightarrow> disk_state" where
  "to_disk bl wl au es =
     \<lparr>ds_blocklist = bl, ds_whitelist = wl, ds_audit = au, ds_expirations = prefixToTimeMap es\<rparr>"

section \<open>Mutations\<close>

text \<open>The common tail of \<open>mutate\<close> and \<open>AddUntil\<close>: append the audit event, write the file when
  there is one, and only then replace the lists in memory.\<close>

definition commit_store :: "io \<Rightarrow> time \<Rightarrow> string \<Rightarrow> string \<Rightarrow> prefix \<Rightarrow> prefix list \<Rightarrow> prefix list
    \<Rightarrow> (prefix, time) gomap \<Rightarrow> store \<Rightarrow> disk \<Rightarrow> (store_error + bool) \<times> store \<times> disk" where
  "commit_store io now operation list prefix bl wl es s d =
     (let au = audit s @ [\<lparr>ev_time = now, ev_operation = operation, ev_list = list,
                           ev_prefix = prefix\<rparr>];
          s' = s\<lparr>blocklist := bl, whitelist := wl, expirations := es, audit := au\<rparr>
      in if path s \<noteq> [] then
           (case persist io (path s) (to_disk bl wl au es) d of
              (Some e, d') \<Rightarrow> (Inl e, s, d')
            | (None, d') \<Rightarrow> (Inr True, s', d'))
         else (Inr True, s', d))"

definition mutate :: "io \<Rightarrow> time \<Rightarrow> string \<Rightarrow> string \<Rightarrow> prefix \<Rightarrow> store \<Rightarrow> disk
    \<Rightarrow> (store_error + bool) \<times> store \<times> disk" where
  "mutate io now operation list prefix0 s d =
     (if \<not> validList list then (Inl (InvalidList list), s, d)
      else if \<not> prefix_IsValid prefix0 then (Inl InvalidPrefix, s, d)
      else
        let prefix = Masked prefix0;
            target = (if list = Blocklist then blocklist s else whitelist s);
            index = slices_Index target prefix;
            commit_target = (\<lambda>t es.
              commit_store io now operation list prefix
                (if list = Blocklist then t else blocklist s)
                (if list = Blocklist then whitelist s else t) es s d)
        in if operation = OpAdd then
             (if 0 \<le> index then (Inr False, s, d)
              else commit_target (target @ [prefix]) (expirations s))
           else if operation = OpRemove then
             (if index < 0 then (Inr False, s, d)
              else commit_target (slices_Delete target index (index + 1))
                     (if list = Blocklist then AList.delete prefix (expirations s)
                      else expirations s))
           else (Inl (InvalidOperation operation), s, d))"

definition store_Add :: "io \<Rightarrow> time \<Rightarrow> string \<Rightarrow> prefix \<Rightarrow> store \<Rightarrow> disk
    \<Rightarrow> (store_error + bool) \<times> store \<times> disk" where
  "store_Add io now list prefix s d = mutate io now OpAdd list prefix s d"

definition store_Remove :: "io \<Rightarrow> time \<Rightarrow> string \<Rightarrow> prefix \<Rightarrow> store \<Rightarrow> disk
    \<Rightarrow> (store_error + bool) \<times> store \<times> disk" where
  "store_Remove io now list prefix s d = mutate io now OpRemove list prefix s d"

definition AddUntil :: "io \<Rightarrow> time \<Rightarrow> string \<Rightarrow> prefix \<Rightarrow> time \<Rightarrow> store \<Rightarrow> disk
    \<Rightarrow> (store_error + bool) \<times> store \<times> disk" where
  "AddUntil io now list prefix0 expiry s d =
     (if list \<noteq> Blocklist then (Inl (ExpiryRequiresBlocklist list), s, d)
      else if \<not> prefix_IsValid prefix0 then (Inl InvalidPrefix, s, d)
      else if expiry = 0 then (Inl ZeroExpiry, s, d)
      else
        let prefix = Masked prefix0;
            index = slices_Index (blocklist s) prefix
        in if index < 0 then
             commit_store io now OpAdd list prefix (blocklist s @ [prefix]) (whitelist s)
               (AList.update prefix expiry (expirations s)) s d
           else if lookup (expirations s) prefix = Some expiry then (Inr False, s, d)
           else
             commit_store io now OpAdd list prefix (blocklist s) (whitelist s)
               (AList.update prefix expiry (expirations s)) s d)"

section \<open>Queries\<close>

fun contains :: "prefix list \<Rightarrow> addr \<Rightarrow> bool" where
  "contains [] a = False"
| "contains (p # ps) a = (if Contains p a then True else contains ps a)"

definition Blocked :: "store \<Rightarrow> addr \<Rightarrow> bool" where
  "Blocked s a =
     (if \<not> addr_IsValid a then False
      else if contains (whitelist s) a then False
      else contains (blocklist s) a)"

definition Prefixes :: "store \<Rightarrow> string \<Rightarrow> store_error + prefix list" where
  "Prefixes s list =
     (if \<not> validList list then Inl (InvalidList list)
      else if list = Blocklist then Inr (blocklist s)
      else Inr (whitelist s))"

definition Expiry :: "store \<Rightarrow> prefix \<Rightarrow> time option" where
  "Expiry s p = lookup (expirations s) (Masked p)"

definition Expirations :: "store \<Rightarrow> (prefix, time) gomap" where
  "Expirations s = expirations s"

definition Audit :: "store \<Rightarrow> audit_event list" where
  "Audit s = audit s"

section \<open>Loading the file\<close>

fun validatePrefixes_from :: "string \<Rightarrow> nat \<Rightarrow> prefix list \<Rightarrow> prefix list \<Rightarrow> store_error + prefix list" where
  "validatePrefixes_from list i [] validated = Inr validated"
| "validatePrefixes_from list i (p # ps) validated =
     (if \<not> prefix_IsValid p then Inl (InvalidListPrefix list i)
      else if Masked p \<in> set validated then Inl (DuplicatePrefix list (Masked p))
      else validatePrefixes_from list (Suc i) ps (validated @ [Masked p]))"

definition validatePrefixes :: "string \<Rightarrow> prefix list \<Rightarrow> store_error + prefix list" where
  "validatePrefixes list ps = validatePrefixes_from list 0 ps []"

fun validateExpirations_from :: "prefix list \<Rightarrow> (string, time) gomap \<Rightarrow> (prefix, time) gomap
    \<Rightarrow> store_error + (prefix, time) gomap" where
  "validateExpirations_from bl [] validated = Inr validated"
| "validateExpirations_from bl ((key, expiry) # es) validated =
     (case ParsePrefix key of
        None \<Rightarrow> Inl (InvalidExpirationKey key)
      | Some p \<Rightarrow>
          let prefix = Masked p in
          if expiry = 0 then Inl (ZeroExpiryFor key)
          else if lookup validated prefix \<noteq> None then Inl (DuplicateExpirationKey prefix)
          else if prefix \<notin> set bl then Inl (OrphanExpiration prefix)
          else validateExpirations_from bl es (AList.update prefix expiry validated))"

definition validateExpirations :: "prefix list \<Rightarrow> (string, time) gomap
    \<Rightarrow> store_error + (prefix, time) gomap" where
  "validateExpirations bl es =
     (if length es = 0 then Inr [] else validateExpirations_from bl es [])"

definition valid_event :: "audit_event \<Rightarrow> bool" where
  "valid_event ev = (ev_time ev \<noteq> 0 \<and> validList (ev_list ev) \<and>
     (ev_operation ev = OpAdd \<or> ev_operation ev = OpRemove) \<and> prefix_IsValid (ev_prefix ev))"

fun validateAudit_from :: "nat \<Rightarrow> audit_event list \<Rightarrow> store_error + audit_event list" where
  "validateAudit_from i [] = Inr []"
| "validateAudit_from i (ev # evs) =
     (if \<not> valid_event ev then Inl (InvalidAuditEvent i)
      else case validateAudit_from (Suc i) evs of
             Inl e \<Rightarrow> Inl e
           | Inr evs' \<Rightarrow> Inr (ev\<lparr>ev_prefix := Masked (ev_prefix ev)\<rparr> # evs'))"

definition validateState :: "disk_state
    \<Rightarrow> store_error + (prefix list \<times> prefix list \<times> (prefix, time) gomap \<times> audit_event list)" where
  "validateState st =
     (case validatePrefixes Blocklist (ds_blocklist st) of
        Inl e \<Rightarrow> Inl e
      | Inr bl \<Rightarrow>
          (case validatePrefixes Whitelist (ds_whitelist st) of
             Inl e \<Rightarrow> Inl e
           | Inr wl \<Rightarrow>
               (case validateExpirations bl (ds_expirations st) of
                  Inl e \<Rightarrow> Inl e
                | Inr es \<Rightarrow>
                    (case validateAudit_from 0 (ds_audit st) of
                       Inl e \<Rightarrow> Inl e
                     | Inr au \<Rightarrow> Inr (bl, wl, es, au)))))"

text \<open>\<open>filepath.Clean\<close> on a path with forward slashes.\<close>

fun clean_components :: "bool \<Rightarrow> string list \<Rightarrow> string list \<Rightarrow> string list" where
  "clean_components rooted [] stack = rev stack"
| "clean_components rooted (c # cs) stack =
     (if c = [] \<or> c = ''.'' then clean_components rooted cs stack
      else if c = ''..'' then
        (case stack of
           [] \<Rightarrow> clean_components rooted cs (if rooted then [] else [''..''])
         | t # ts \<Rightarrow> clean_components rooted cs (if t = ''..'' then ''..'' # stack else ts))
      else clean_components rooted cs (c # stack))"

definition filepath_Clean :: "string \<Rightarrow> string" where
  "filepath_Clean p =
     (let rooted = HasPrefix p ''/'';
          body = join ''/'' (clean_components rooted (split_byte CHR ''/'' p) [])
      in if rooted then ''/'' @ body else if body = [] then ''.'' else body)"

definition Open :: "bool \<Rightarrow> string \<Rightarrow> disk \<Rightarrow> store_error + store" where
  "Open unreadable p d =
     (if p = [] then Inl EmptyPath
      else
        let s = New\<lparr>path := filepath_Clean p\<rparr>
        in if unreadable then Inl ReadFailed
           else case d (path s) of
             None \<Rightarrow> Inr s
           | Some Undecodable \<Rightarrow> Inl DecodeFailed
           | Some (Trailing st) \<Rightarrow> Inl TrailingData
           | Some (Document st) \<Rightarrow>
               (case validateState st of
                  Inl e \<Rightarrow> Inl e
                | Inr (bl, wl, es, au) \<Rightarrow>
                    Inr (s\<lparr>blocklist := bl, whitelist := wl, expirations := es, audit := au\<rparr>)))"

section \<open>The file is replaced atomically\<close>

definition tmp_fresh :: "io \<Rightarrow> string \<Rightarrow> disk \<Rightarrow> bool" where
  "tmp_fresh io p d = (tmp_name io \<noteq> p \<and> d (tmp_name io) = None)"

text \<open>The steps after the rename: a failure there leaves the new document in place.\<close>

definition late :: "persist_step \<Rightarrow> bool" where
  "late f = (f = OpenDir \<or> f = SyncDir)"

lemma persist_eq:
  assumes "tmp_fresh io p d"
  shows "persist io p st d =
     (case fault io of
        None \<Rightarrow> (None, d(p \<mapsto> Document st))
      | Some f \<Rightarrow> (Some (PersistFailed f), if late f then d(p \<mapsto> Document st) else d))"
proof (cases "fault io")
  case None
  then show ?thesis
    using assms by (auto simp: persist_def persist_steps_def tmp_fresh_def fun_eq_iff)
next
  case (Some f)
  then show ?thesis
    using assms
    by (cases f) (auto simp: persist_def persist_steps_def tmp_fresh_def late_def fun_eq_iff)
qed

lemma run_steps_frame:
  "q \<noteq> p \<Longrightarrow> q \<noteq> tmp \<Longrightarrow> snd (run_steps flt tmp p st ss d) q = d q"
proof (induction flt tmp p st ss d rule: run_steps.induct)
  case (2 flt tmp p st s ss d)
  have "step_effect tmp p st s d q = d q"
    using "2.prems" by (cases s) auto
  with 2 show ?case by simp
qed simp

text \<open>Whatever step the process dies at, the path holds the old or the new document.\<close>

lemma crash_disk_cases:
  assumes "tmp_fresh io p d"
  shows "crash_disk k io p st d p = (if k < 7 then d p else Some (Document st))"
proof (cases "k < 9")
  case True
  then consider "k = 0" | "k = 1" | "k = 2" | "k = 3" | "k = 4" | "k = 5" | "k = 6" | "k = 7" | "k = 8"
    by linarith
  then show ?thesis
    using assms by cases (auto simp: crash_disk_def persist_steps_def tmp_fresh_def)
next
  case False
  then have "take k persist_steps = persist_steps" by (simp add: persist_steps_def)
  then show ?thesis
    using False assms by (auto simp: crash_disk_def persist_steps_def tmp_fresh_def)
qed

section \<open>Outcome of every operation\<close>

definition policy_list :: "store \<Rightarrow> string \<Rightarrow> prefix list" where
  "policy_list s list = (if list = Blocklist then blocklist s else whitelist s)"

definition store_inv :: "store \<Rightarrow> bool" where
  "store_inv s =
     (distinct (blocklist s) \<and> distinct (whitelist s) \<and>
      (\<forall>p \<in> set (blocklist s) \<union> set (whitelist s). canonical p) \<and>
      wf_map (expirations s) \<and> set (keys (expirations s)) \<subseteq> set (blocklist s) \<and>
      (\<forall>(p, t) \<in> set (expirations s). t \<noteq> 0) \<and>
      (\<forall>ev \<in> set (audit s). valid_event ev \<and> canonical (ev_prefix ev)))"

lemma store_inv_New [inv_intros]: "store_inv New"
  by (simp add: store_inv_def New_def)

lemma Prefixes_policy_list: "validList list \<Longrightarrow> Prefixes s list = Inr (policy_list s list)"
  by (simp add: Prefixes_def policy_list_def)

lemma validList_cases: "validList list \<Longrightarrow> list = Blocklist \<or> list = Whitelist"
  by (simp add: validList_def)

text \<open>What \<open>commit_store\<close> leaves behind: on an error the memory is untouched and the file is
  the old one, or the new one when only the directory could not be synced.\<close>

lemma commit_store_error:
  assumes "commit_store io now op list p bl wl es s d = (Inl e, s', d')"
    and "tmp_fresh io (path s) d"
  shows "s' = s \<and> (\<exists>f. fault io = Some f \<and> e = PersistFailed f \<and>
     (if late f then (\<exists>st. d' = d(path s \<mapsto> Document st)) else d' = d))"
proof (cases "path s = []")
  case True
  with assms show ?thesis by (simp add: commit_store_def Let_def)
next
  case False
  with assms show ?thesis
    by (cases "fault io") (auto simp: commit_store_def Let_def persist_eq)
qed

lemma commit_store_ok:
  assumes "commit_store io now op list p bl wl es s d = (Inr b, s', d')"
  shows "b \<and> s' = s\<lparr>blocklist := bl, whitelist := wl, expirations := es,
     audit := audit s @ [\<lparr>ev_time = now, ev_operation = op, ev_list = list, ev_prefix = p\<rparr>]\<rparr>"
  using assms by (auto simp: commit_store_def Let_def split: if_splits option.splits prod.splits)

lemma commit_store_disk:
  assumes "commit_store io now op list p bl wl es s d = (Inr b, s', d')"
    and "tmp_fresh io (path s) d"
  shows "d' = (if path s = [] then d
     else d(path s \<mapsto> Document (to_disk bl wl (audit s') es)))"
proof (cases "path s = []")
  case True
  with assms show ?thesis by (simp add: commit_store_def Let_def)
next
  case False
  with assms show ?thesis
    by (cases "fault io") (auto simp: commit_store_def Let_def persist_eq)
qed

text \<open>The event an effective mutation appends.\<close>

abbreviation event :: "time \<Rightarrow> string \<Rightarrow> string \<Rightarrow> prefix \<Rightarrow> audit_event" where
  "event now op list p \<equiv>
     \<lparr>ev_time = now, ev_operation = op, ev_list = list, ev_prefix = p\<rparr>"

lemma store_Add_cases [consumes 1, case_names list prefix present commit]:
  assumes "store_Add io now list p0 s d = r"
    and "\<not> validList list \<Longrightarrow> r = (Inl (InvalidList list), s, d) \<Longrightarrow> thesis"
    and "validList list \<Longrightarrow> \<not> prefix_IsValid p0 \<Longrightarrow> r = (Inl InvalidPrefix, s, d) \<Longrightarrow> thesis"
    and "validList list \<Longrightarrow> prefix_IsValid p0 \<Longrightarrow> Masked p0 \<in> set (policy_list s list) \<Longrightarrow>
       r = (Inr False, s, d) \<Longrightarrow> thesis"
    and "validList list \<Longrightarrow> prefix_IsValid p0 \<Longrightarrow> Masked p0 \<notin> set (policy_list s list) \<Longrightarrow>
       r = commit_store io now OpAdd list (Masked p0)
         (if list = Blocklist then blocklist s @ [Masked p0] else blocklist s)
         (if list = Blocklist then whitelist s else whitelist s @ [Masked p0])
         (expirations s) s d \<Longrightarrow> thesis"
  shows thesis
  using assms by (auto simp: store_Add_def mutate_def Let_def policy_list_def split: if_splits)

lemma store_Remove_cases [consumes 1, case_names list prefix absent commit]:
  assumes "store_Remove io now list p0 s d = r"
    and "\<not> validList list \<Longrightarrow> r = (Inl (InvalidList list), s, d) \<Longrightarrow> thesis"
    and "validList list \<Longrightarrow> \<not> prefix_IsValid p0 \<Longrightarrow> r = (Inl InvalidPrefix, s, d) \<Longrightarrow> thesis"
    and "validList list \<Longrightarrow> prefix_IsValid p0 \<Longrightarrow> Masked p0 \<notin> set (policy_list s list) \<Longrightarrow>
       r = (Inr False, s, d) \<Longrightarrow> thesis"
    and "validList list \<Longrightarrow> prefix_IsValid p0 \<Longrightarrow> Masked p0 \<in> set (policy_list s list) \<Longrightarrow>
       r = commit_store io now OpRemove list (Masked p0)
         (if list = Blocklist then remove1 (Masked p0) (blocklist s) else blocklist s)
         (if list = Blocklist then whitelist s else remove1 (Masked p0) (whitelist s))
         (if list = Blocklist then AList.delete (Masked p0) (expirations s) else expirations s)
         s d \<Longrightarrow> thesis"
  shows thesis
  using assms
  by (auto simp: store_Remove_def mutate_def Let_def policy_list_def slices_Delete_Index
      split: if_splits)

lemma AddUntil_cases [consumes 1, case_names list prefix zero same insert change]:
  assumes "AddUntil io now list p0 t s d = r"
    and "list \<noteq> Blocklist \<Longrightarrow> r = (Inl (ExpiryRequiresBlocklist list), s, d) \<Longrightarrow> thesis"
    and "list = Blocklist \<Longrightarrow> \<not> prefix_IsValid p0 \<Longrightarrow> r = (Inl InvalidPrefix, s, d) \<Longrightarrow> thesis"
    and "list = Blocklist \<Longrightarrow> prefix_IsValid p0 \<Longrightarrow> t = 0 \<Longrightarrow> r = (Inl ZeroExpiry, s, d) \<Longrightarrow> thesis"
    and "list = Blocklist \<Longrightarrow> prefix_IsValid p0 \<Longrightarrow> t \<noteq> 0 \<Longrightarrow> Masked p0 \<in> set (blocklist s) \<Longrightarrow>
       lookup (expirations s) (Masked p0) = Some t \<Longrightarrow> r = (Inr False, s, d) \<Longrightarrow> thesis"
    and "list = Blocklist \<Longrightarrow> prefix_IsValid p0 \<Longrightarrow> t \<noteq> 0 \<Longrightarrow> Masked p0 \<notin> set (blocklist s) \<Longrightarrow>
       r = commit_store io now OpAdd list (Masked p0) (blocklist s @ [Masked p0]) (whitelist s)
         (AList.update (Masked p0) t (expirations s)) s d \<Longrightarrow> thesis"
    and "list = Blocklist \<Longrightarrow> prefix_IsValid p0 \<Longrightarrow> t \<noteq> 0 \<Longrightarrow> Masked p0 \<in> set (blocklist s) \<Longrightarrow>
       lookup (expirations s) (Masked p0) \<noteq> Some t \<Longrightarrow>
       r = commit_store io now OpAdd list (Masked p0) (blocklist s) (whitelist s)
         (AList.update (Masked p0) t (expirations s)) s d \<Longrightarrow> thesis"
  shows thesis
  using assms by (auto simp: AddUntil_def Let_def split: if_splits)

section \<open>Refinement of the abstract policy\<close>

text \<open>
  What the store promises: two sets of canonical CIDR blocks and a partial map of expiries.
  Commands act on it as set insertion, removal and map update.
\<close>

record policy =
  p_block :: "prefix set"
  p_allow :: "prefix set"
  p_until :: "prefix \<Rightarrow> time option"

definition abs_store :: "store \<Rightarrow> policy" where
  "abs_store s = \<lparr>p_block = set (blocklist s), p_allow = set (whitelist s),
     p_until = lookup (expirations s)\<rparr>"

datatype command = CmdAdd string prefix | CmdRemove string prefix | CmdUntil prefix time

fun wf_command :: "command \<Rightarrow> bool" where
  "wf_command (CmdAdd list p) = wf_prefix p"
| "wf_command (CmdRemove list p) = wf_prefix p"
| "wf_command (CmdUntil p t) = wf_prefix p"

fun exec_command :: "io \<Rightarrow> time \<Rightarrow> command \<Rightarrow> store \<Rightarrow> disk \<Rightarrow> (store_error + bool) \<times> store \<times> disk" where
  "exec_command io now (CmdAdd list p) s d = store_Add io now list p s d"
| "exec_command io now (CmdRemove list p) s d = store_Remove io now list p s d"
| "exec_command io now (CmdUntil p t) s d = AddUntil io now Blocklist p t s d"

fun apply_command :: "command \<Rightarrow> policy \<Rightarrow> policy" where
  "apply_command (CmdAdd list p) P =
     (if list = Blocklist then P\<lparr>p_block := insert (Masked p) (p_block P)\<rparr>
      else P\<lparr>p_allow := insert (Masked p) (p_allow P)\<rparr>)"
| "apply_command (CmdRemove list p) P =
     (if list = Blocklist
      then P\<lparr>p_block := p_block P - {Masked p}, p_until := (p_until P)(Masked p := None)\<rparr>
      else P\<lparr>p_allow := p_allow P - {Masked p}\<rparr>)"
| "apply_command (CmdUntil p t) P =
     P\<lparr>p_block := insert (Masked p) (p_block P), p_until := (p_until P)(Masked p \<mapsto> t)\<rparr>"

fun command_event :: "time \<Rightarrow> command \<Rightarrow> audit_event" where
  "command_event now (CmdAdd list p) = event now OpAdd list (Masked p)"
| "command_event now (CmdRemove list p) = event now OpRemove list (Masked p)"
| "command_event now (CmdUntil p t) = event now OpAdd Blocklist (Masked p)"

lemma apply_command_idem: "apply_command c (apply_command c P) = apply_command c P"
  by (cases c) auto

lemma store_inv_until_block:
  "store_inv s \<Longrightarrow> lookup (expirations s) p = Some t \<Longrightarrow> p \<in> set (blocklist s)"
  by (auto simp: store_inv_def dest!: map_of_SomeD)

lemma store_inv_commit:
  assumes "store_inv s"
    and "distinct bl" "distinct wl" "\<And>p. p \<in> set bl \<union> set wl \<Longrightarrow> canonical p"
    and "wf_map es" "fst ` set es \<subseteq> set bl" "\<And>p t. (p, t) \<in> set es \<Longrightarrow> t \<noteq> 0"
    and "now \<noteq> 0" "validList list" "op = OpAdd \<or> op = OpRemove" "canonical q"
  shows "store_inv (s\<lparr>blocklist := bl, whitelist := wl, expirations := es,
     audit := audit s @ [event now op list q]\<rparr>)"
  using assms by (auto simp: store_inv_def valid_event_def canonical_valid)

lemma store_inv_parts:
  assumes "store_inv s"
  shows "distinct (blocklist s)" "distinct (whitelist s)"
    "p \<in> set (blocklist s) \<Longrightarrow> canonical p" "p \<in> set (whitelist s) \<Longrightarrow> canonical p"
    "wf_map (expirations s)" "fst ` set (expirations s) \<subseteq> set (blocklist s)"
    "(p, t) \<in> set (expirations s) \<Longrightarrow> t \<noteq> 0"
  using assms by (auto simp: store_inv_def)

lemma store_inv_add:
  assumes "store_inv s" "canonical q" "now \<noteq> 0" "validList list" "q \<notin> set (policy_list s list)"
  shows "store_inv (s\<lparr>blocklist := (if list = Blocklist then blocklist s @ [q] else blocklist s),
     whitelist := (if list = Blocklist then whitelist s else whitelist s @ [q]),
     expirations := expirations s, audit := audit s @ [event now OpAdd list q]\<rparr>)"
  using assms(2-5) store_inv_parts [OF assms(1)]
  by (intro store_inv_commit [OF assms(1)]) (auto simp: policy_list_def split: if_splits)

lemma store_inv_remove:
  assumes "store_inv s" "canonical q" "now \<noteq> 0" "validList list"
  shows "store_inv (s\<lparr>blocklist := (if list = Blocklist then remove1 q (blocklist s) else blocklist s),
     whitelist := (if list = Blocklist then whitelist s else remove1 q (whitelist s)),
     expirations := (if list = Blocklist then AList.delete q (expirations s) else expirations s),
     audit := audit s @ [event now OpRemove list q]\<rparr>)"
proof (rule store_inv_commit [OF assms(1)])
  show "fst ` set (if list = Blocklist then AList.delete q (expirations s) else expirations s)
      \<subseteq> set (if list = Blocklist then remove1 q (blocklist s) else blocklist s)"
    using store_inv_parts [OF assms(1)] by auto
  show "(p, t) \<in> set (if list = Blocklist then AList.delete q (expirations s) else expirations s)
      \<Longrightarrow> t \<noteq> 0" for p t
    using store_inv_parts(7) [OF assms(1)] set_delete_subset [of q "expirations s"]
    by (auto split: if_splits)
qed (use assms store_inv_parts [OF assms(1)] in
    \<open>auto split: if_splits dest: notin_set_remove1\<close>)

lemma store_inv_until:
  assumes "store_inv s" "canonical q" "now \<noteq> 0" "t \<noteq> 0"
    and "bl = (if q \<in> set (blocklist s) then blocklist s else blocklist s @ [q])"
  shows "store_inv (s\<lparr>blocklist := bl, whitelist := whitelist s,
     expirations := AList.update q t (expirations s),
     audit := audit s @ [event now OpAdd Blocklist q]\<rparr>)"
proof (rule store_inv_commit [OF assms(1)])
  show "(p, u) \<in> set (AList.update q t (expirations s)) \<Longrightarrow> u \<noteq> 0" for p u
    using assms(4) store_inv_parts(7) [OF assms(1)] set_update_subset [of q t "expirations s"] by auto
qed (use assms store_inv_parts [OF assms(1)] in \<open>auto simp: validList_def split: if_splits\<close>)

lemma exec_command_inv:
  assumes inv: "store_inv s" and wf: "wf_command c" and now: "now \<noteq> 0"
    and ex: "exec_command io now c s d = (Inr b, s', d')"
  shows "store_inv s'"
proof (cases c)
  case (CmdAdd list p)
  with ex have "store_Add io now list p s d = (Inr b, s', d')" by simp
  then show ?thesis
  proof (cases rule: store_Add_cases)
    case commit
    then show ?thesis
      using commit_store_ok [OF commit(4) [symmetric]] store_inv_add [OF inv _ now commit(1,3)]
        wf CmdAdd by (simp add: canonical_Masked)
  qed (use inv in auto)
next
  case (CmdRemove list p)
  with ex have "store_Remove io now list p s d = (Inr b, s', d')" by simp
  then show ?thesis
  proof (cases rule: store_Remove_cases)
    case commit
    then show ?thesis
      using commit_store_ok [OF commit(4) [symmetric]] store_inv_remove [OF inv _ now commit(1)]
        wf CmdRemove by (simp add: canonical_Masked)
  qed (use inv in auto)
next
  case (CmdUntil p t)
  with ex have "AddUntil io now Blocklist p t s d = (Inr b, s', d')" by simp
  then show ?thesis
  proof (cases rule: AddUntil_cases)
    case insert
    then have can: "canonical (Masked p)" using wf CmdUntil by (simp add: canonical_Masked)
    from insert show ?thesis
      using commit_store_ok [OF insert(5) [symmetric]] store_inv_until [OF inv can now insert(3) refl]
      by simp
  next
    case change
    then have can: "canonical (Masked p)" using wf CmdUntil by (simp add: canonical_Masked)
    from change show ?thesis
      using commit_store_ok [OF change(6) [symmetric]] store_inv_until [OF inv can now change(3) refl]
      by simp
  qed (use inv in auto)
qed

lemma exec_command_abs:
  assumes inv: "store_inv s" and ex: "exec_command io now c s d = (Inr b, s', d')"
  shows "abs_store s' = apply_command c (abs_store s) \<and> (b \<longleftrightarrow> abs_store s' \<noteq> abs_store s) \<and>
     audit s' = audit s @ (if b then [command_event now c] else [])"
proof (cases c)
  case (CmdAdd list p)
  with ex have "store_Add io now list p s d = (Inr b, s', d')" by simp
  then show ?thesis
  proof (cases rule: store_Add_cases)
    case present
    then show ?thesis using CmdAdd
      by (auto simp: abs_store_def policy_list_def split: if_splits)
  next
    case commit
    then show ?thesis using CmdAdd
      using commit_store_ok [OF commit(4) [symmetric]]
      by (auto simp: abs_store_def policy_list_def split: if_splits)
  qed auto
next
  case (CmdRemove list p)
  with ex have "store_Remove io now list p s d = (Inr b, s', d')" by simp
  then show ?thesis
  proof (cases rule: store_Remove_cases)
    case absent
    have "lookup (expirations s) (Masked p) = None" if "Masked p \<notin> set (blocklist s)"
      using store_inv_until_block [OF inv] that by (cases "lookup (expirations s) (Masked p)") auto
    with absent show ?thesis using CmdRemove
      by (auto simp: abs_store_def policy_list_def fun_eq_iff split: if_splits)
  next
    case commit
    then show ?thesis using CmdRemove store_inv_parts(1,2) [OF inv]
      using commit_store_ok [OF commit(4) [symmetric]]
      by (auto simp: abs_store_def policy_list_def split: if_splits)
  qed auto
next
  case (CmdUntil p t)
  with ex have "AddUntil io now Blocklist p t s d = (Inr b, s', d')" by simp
  then show ?thesis
  proof (cases rule: AddUntil_cases)
    case same
    then show ?thesis using CmdUntil by (auto simp: abs_store_def fun_eq_iff)
  next
    case insert
    then show ?thesis using CmdUntil commit_store_ok [OF insert(5) [symmetric]]
      by (auto simp: abs_store_def)
  next
    case change
    then show ?thesis using CmdUntil commit_store_ok [OF change(6) [symmetric]]
      by (auto simp: abs_store_def fun_eq_iff)
  qed auto
qed

text \<open>On an error the memory, hence the abstract policy, is unchanged.\<close>

lemma commit_store_frame:
  "commit_store io now op list p bl wl es s d = (Inl e, s', d') \<Longrightarrow> s' = s"
  by (auto simp: commit_store_def Let_def split: if_splits option.splits prod.splits)

lemma exec_command_error:
  assumes "exec_command io now c s d = (Inl e, s', d')"
  shows "s' = s"
proof (cases c)
  case (CmdAdd list p)
  with assms have "store_Add io now list p s d = (Inl e, s', d')" by simp
  then show ?thesis by (cases rule: store_Add_cases) (auto dest: commit_store_frame [OF sym])
next
  case (CmdRemove list p)
  with assms have "store_Remove io now list p s d = (Inl e, s', d')" by simp
  then show ?thesis by (cases rule: store_Remove_cases) (auto dest: commit_store_frame [OF sym])
next
  case (CmdUntil p t)
  with assms have "AddUntil io now Blocklist p t s d = (Inl e, s', d')" by simp
  then show ?thesis by (cases rule: AddUntil_cases) (auto dest: commit_store_frame [OF sym])
qed

text \<open>
  Every command either does nothing or runs the common tail once, with lists that keep the
  invariant; the facts about the file follow from that one call.
\<close>

lemma exec_command_commit:
  assumes "exec_command io now c s d = r"
  obtains (idle) x where "r = (x, s, d)" "\<And>e. x \<noteq> Inl (PersistFailed e)" "x \<noteq> Inr True"
  | (commit) op list p bl wl es where "r = commit_store io now op list p bl wl es s d"
proof (cases c)
  case (CmdAdd list p)
  with assms have "store_Add io now list p s d = r" by simp
  then show ?thesis by (cases rule: store_Add_cases) (use that in auto)
next
  case (CmdRemove list p)
  with assms have "store_Remove io now list p s d = r" by simp
  then show ?thesis by (cases rule: store_Remove_cases) (use that in auto)
next
  case (CmdUntil p t)
  with assms have "AddUntil io now Blocklist p t s d = r" by simp
  then show ?thesis by (cases rule: AddUntil_cases) (use that in auto)
qed

lemma exec_command_path: "exec_command io now c s d = (x, s', d') \<Longrightarrow> path s' = path s"
  by (erule exec_command_commit)
    (auto simp: commit_store_def Let_def split: if_splits option.splits prod.splits dest: sym)

section \<open>The store's interface and its clients\<close>

text \<open>
  The laws a client of the store relies on. The state includes the file, which the abstract
  policy does not look at.
\<close>

locale policy_store =
  fixes exec :: "'env \<Rightarrow> command \<Rightarrow> 's \<Rightarrow> ('e + bool) \<times> 's"
    and view :: "'s \<Rightarrow> policy"
    and inv :: "'s \<Rightarrow> bool"
    and env_ok :: "'env \<Rightarrow> bool"
  assumes exec_ok: "inv s \<Longrightarrow> env_ok env \<Longrightarrow> wf_command c \<Longrightarrow> exec env c s = (Inr b, s') \<Longrightarrow>
      inv s' \<and> view s' = apply_command c (view s) \<and> (b \<longleftrightarrow> view s' \<noteq> view s)"
    and exec_err: "inv s \<Longrightarrow> exec env c s = (Inl e, s') \<Longrightarrow> inv s' \<and> view s' = view s"
begin

text \<open>Replaying a command that succeeded changes nothing, whatever happened to the file.\<close>

lemma replay_idempotent:
  assumes "inv s" "env_ok env" "env_ok env'" "wf_command c"
    and "exec env c s = (Inr b, s1)" "exec env' c s1 = (x, s2)"
  shows "view s2 = view s1 \<and> x \<noteq> Inr True"
proof -
  have s1: "inv s1" "view s1 = apply_command c (view s)"
    using exec_ok [OF assms(1,2,4,5)] by auto
  show ?thesis
  proof (cases x)
    case (Inl e)
    then show ?thesis using exec_err s1(1) assms(6) by auto
  next
    case (Inr b')
    with exec_ok [OF s1(1) assms(3,4)] assms(6) s1(2) show ?thesis
      by (auto simp: apply_command_idem)
  qed
qed

lemma exec_inv: "inv s \<Longrightarrow> env_ok env \<Longrightarrow> wf_command c \<Longrightarrow> inv (snd (exec env c s))"
  by (cases "exec env c s"; cases "fst (exec env c s)") (auto dest: exec_ok exec_err)

lemma fold_inv:
  "inv s \<Longrightarrow> \<forall>ec \<in> set cs. env_ok (fst ec) \<and> wf_command (snd ec) \<Longrightarrow>
     inv (fold (\<lambda>(env, c) s. snd (exec env c s)) cs s)"
proof (induction cs arbitrary: s)
  case (Cons ec cs)
  then have "inv (snd (exec (fst ec) (snd ec) s))" by (simp add: exec_inv)
  with Cons show ?case by (simp add: case_prod_beta)
qed simp

text \<open>When every command of a run succeeds, the policy is the fold of the abstract commands.\<close>

lemma fold_view:
  assumes "inv s" "\<forall>ec \<in> set cs. env_ok (fst ec) \<and> wf_command (snd ec)"
    and "\<forall>ec \<in> set cs. \<forall>t. \<exists>b. fst (exec (fst ec) (snd ec) t) = Inr b"
  shows "view (fold (\<lambda>(env, c) s. snd (exec env c s)) cs s) =
     fold apply_command (map snd cs) (view s)"
  using assms
proof (induction cs arbitrary: s)
  case (Cons ec cs)
  then obtain b where b: "fst (exec (fst ec) (snd ec) s) = Inr b" by fastforce
  then have x: "exec (fst ec) (snd ec) s = (Inr b, snd (exec (fst ec) (snd ec) s))"
    by (metis prod.collapse)
  have "inv (snd (exec (fst ec) (snd ec) s))" using Cons.prems by (simp add: exec_inv)
  moreover have "view (snd (exec (fst ec) (snd ec) s)) = apply_command (snd ec) (view s)"
    using exec_ok [OF _ _ _ x] Cons.prems by simp
  ultimately show ?case using Cons.IH Cons.prems by (simp add: case_prod_beta)
qed simp

end

interpretation file_store: policy_store
  "\<lambda>(io, now) c (s, d). exec_command io now c s d" "\<lambda>(s, d). abs_store s" "\<lambda>(s, d). store_inv s"
  "\<lambda>(io, now). now \<noteq> 0"
  by unfold_locales
    (auto dest: exec_command_inv exec_command_abs exec_command_error split: prod.splits)

section \<open>Reloading\<close>

lemma validatePrefixes_from_canonical:
  "distinct (acc @ ps) \<Longrightarrow> (\<And>p. p \<in> set ps \<Longrightarrow> canonical p) \<Longrightarrow>
     validatePrefixes_from list i ps acc = Inr (acc @ ps)"
  by (induction list i ps acc rule: validatePrefixes_from.induct)
    (auto simp: canonical_valid canonical_fix)

lemma validatePrefixes_canonical:
  "distinct ps \<Longrightarrow> (\<And>p. p \<in> set ps \<Longrightarrow> canonical p) \<Longrightarrow> validatePrefixes list ps = Inr ps"
  by (simp add: validatePrefixes_def validatePrefixes_from_canonical)

lemma validatePrefixes_from_ok:
  assumes "validatePrefixes_from list i ps acc = Inr r"
    and "distinct acc" "\<forall>p \<in> set acc. canonical p" "\<forall>p \<in> set ps. wf_prefix p"
  shows "distinct r \<and> (\<forall>p \<in> set r. canonical p)"
  using assms
proof (induction list i ps acc rule: validatePrefixes_from.induct)
  case (2 list i p ps acc)
  then have p: "prefix_IsValid p" "Masked p \<notin> set acc"
    "validatePrefixes_from list (Suc i) ps (acc @ [Masked p]) = Inr r"
    by (auto split: if_splits)
  show ?case using "2.prems" p by (intro "2.IH") (auto simp: canonical_Masked)
qed simp

lemma validatePrefixes_ok:
  assumes "validatePrefixes list ps = Inr r" "\<forall>p \<in> set ps. wf_prefix p"
  shows "distinct r \<and> (\<forall>p \<in> set r. canonical p)"
proof -
  have "validatePrefixes_from list 0 ps [] = Inr r" using assms(1) by (simp add: validatePrefixes_def)
  from validatePrefixes_from_ok [OF this] assms(2) show ?thesis by simp
qed

lemma update_append: "k \<notin> fst ` set m \<Longrightarrow> AList.update k v m = m @ [(k, v)]"
  by (induction m) auto

lemma validateExpirations_from_printed:
  assumes "wf_map (acc @ es)" "\<And>p t. (p, t) \<in> set es \<Longrightarrow> canonical p \<and> t \<noteq> 0 \<and> p \<in> set bl"
  shows "validateExpirations_from bl (prefixToTimeMap es) acc = Inr (acc @ es)"
  using assms
proof (induction es arbitrary: acc)
  case (Cons e es)
  obtain p t where e: "e = (p, t)" by force
  with Cons.prems have p: "canonical p" "t \<noteq> 0" "p \<in> set bl" by auto
  then have "ParsePrefix (prefix_String p) = Some p"
    by (simp add: canonical_valid canonical_wf prefix_text.parse_print)
  moreover have "lookup acc p = None"
    using Cons.prems(1) e by (auto simp: map_of_eq_None_iff)
  moreover have "AList.update p t acc = acc @ [(p, t)]"
    using Cons.prems(1) e by (intro update_append) auto
  moreover have "validateExpirations_from bl (prefixToTimeMap es) (acc @ [(p, t)]) =
      Inr ((acc @ [(p, t)]) @ es)"
    using Cons.prems e by (intro Cons.IH) auto
  ultimately show ?case
    using p e by (simp add: prefixToTimeMap_def canonical_fix)
qed (simp add: prefixToTimeMap_def)

lemma validateExpirations_from_ok:
  assumes "validateExpirations_from bl es acc = Inr r"
    and "wf_map acc" "fst ` set acc \<subseteq> set bl" "\<forall>(p, t) \<in> set acc. t \<noteq> 0"
  shows "wf_map r \<and> fst ` set r \<subseteq> set bl \<and> (\<forall>(p, t) \<in> set r. t \<noteq> 0)"
  using assms
proof (induction bl es acc rule: validateExpirations_from.induct)
  case (2 bl key expiry es acc)
  then obtain p where p: "ParsePrefix key = Some p" "expiry \<noteq> 0" "lookup acc (Masked p) = None"
    "Masked p \<in> set bl"
    "validateExpirations_from bl es (AList.update (Masked p) expiry acc) = Inr r"
    by (cases "ParsePrefix key") (auto simp only: validateExpirations_from.simps option.case Let_def
        split: if_splits)
  have "\<forall>(q, t) \<in> set (AList.update (Masked p) expiry acc). t \<noteq> 0"
    using set_update_subset [of "Masked p" expiry acc] "2.prems"(4) p(2) by fastforce
  then show ?case
    using "2.IH" [OF p(1) refl p(2) _ _ p(5)] p "2.prems" by auto
qed simp

lemma validateAudit_from_canonical:
  "\<forall>ev \<in> set evs. valid_event ev \<and> canonical (ev_prefix ev) \<Longrightarrow> validateAudit_from i evs = Inr evs"
proof (induction evs arbitrary: i)
  case (Cons ev evs)
  have "ev\<lparr>ev_prefix := Masked (ev_prefix ev)\<rparr> = ev"
    using Cons.prems by (simp add: canonical_fix)
  with Cons show ?case by simp
qed simp

lemma validateAudit_from_ok:
  assumes "validateAudit_from i evs = Inr r" "\<forall>ev \<in> set evs. wf_prefix (ev_prefix ev)"
  shows "\<forall>ev \<in> set r. valid_event ev \<and> canonical (ev_prefix ev)"
  using assms
proof (induction evs arbitrary: i r)
  case (Cons ev evs)
  then obtain r' where r': "valid_event ev" "validateAudit_from (Suc i) evs = Inr r'"
    "r = ev\<lparr>ev_prefix := Masked (ev_prefix ev)\<rparr> # r'"
    by (auto split: if_splits sum.splits)
  moreover have "valid_event (ev\<lparr>ev_prefix := Masked (ev_prefix ev)\<rparr>) \<and> canonical (Masked (ev_prefix ev))"
    using r'(1) Cons.prems by (simp add: valid_event_def canonical_Masked valid_Masked)
  ultimately show ?case using Cons.IH [OF r'(2)] Cons.prems by simp
qed simp

text \<open>The prefixes a document can hold: those the text unmarshaller of \<open>netip\<close> produces.\<close>

definition wf_document :: "disk_state \<Rightarrow> bool" where
  "wf_document st =
     (\<forall>p \<in> set (ds_blocklist st) \<union> set (ds_whitelist st) \<union> ev_prefix ` set (ds_audit st).
        wf_prefix p)"

lemma validateState_ok:
  assumes "validateState st = Inr (bl, wl, es, au)"
  shows "validatePrefixes Blocklist (ds_blocklist st) = Inr bl \<and>
     validatePrefixes Whitelist (ds_whitelist st) = Inr wl \<and>
     validateExpirations bl (ds_expirations st) = Inr es \<and> validateAudit_from 0 (ds_audit st) = Inr au"
proof (cases "validatePrefixes Blocklist (ds_blocklist st)")
  case b: (Inr bl')
  show ?thesis
  proof (cases "validatePrefixes Whitelist (ds_whitelist st)")
    case w: (Inr wl')
    show ?thesis
    proof (cases "validateExpirations bl' (ds_expirations st)")
      case e: (Inr es')
      then show ?thesis
        using assms b w by (cases "validateAudit_from 0 (ds_audit st)") (simp_all add: validateState_def)
    qed (use assms b w in \<open>simp add: validateState_def\<close>)
  qed (use assms b in \<open>simp add: validateState_def\<close>)
qed (use assms in \<open>simp add: validateState_def\<close>)

lemma validateState_inv:
  assumes "validateState st = Inr (bl, wl, es, au)" "wf_document st"
  shows "store_inv (s\<lparr>blocklist := bl, whitelist := wl, expirations := es, audit := au\<rparr>)"
proof -
  from validateState_ok [OF assms(1)]
  have v: "validatePrefixes Blocklist (ds_blocklist st) = Inr bl"
    "validatePrefixes Whitelist (ds_whitelist st) = Inr wl"
    "validateExpirations bl (ds_expirations st) = Inr es" "validateAudit_from 0 (ds_audit st) = Inr au"
    by simp_all
  have "wf_map es \<and> fst ` set es \<subseteq> set bl \<and> (\<forall>(p, t) \<in> set es. t \<noteq> 0)"
    using v(3) validateExpirations_from_ok [of bl "ds_expirations st" "[]" es]
    by (auto simp: validateExpirations_def split: if_splits)
  moreover have "distinct bl \<and> (\<forall>p \<in> set bl. canonical p)"
    using assms(2) by (intro validatePrefixes_ok [OF v(1)]) (simp add: wf_document_def)
  moreover have "distinct wl \<and> (\<forall>p \<in> set wl. canonical p)"
    using assms(2) by (intro validatePrefixes_ok [OF v(2)]) (simp add: wf_document_def)
  moreover have "\<forall>ev \<in> set au. valid_event ev \<and> canonical (ev_prefix ev)"
    using assms(2) by (intro validateAudit_from_ok [OF v(4)]) (simp add: wf_document_def)
  ultimately show ?thesis
    unfolding store_inv_def by (simp add: ball_Un)
qed

lemma validateState_to_disk:
  assumes "store_inv s" and "mset es = mset (expirations s)"
  shows "validateState (to_disk (blocklist s) (whitelist s) (audit s) es) =
     Inr (blocklist s, whitelist s, es, audit s)"
proof -
  have set: "set es = set (expirations s)" using assms(2) by (rule mset_eq_setD)
  have "mset (keys es) = mset (keys (expirations s))"
    unfolding mset_map by (simp only: assms(2))
  then have "wf_map es"
    using store_inv_parts(5) [OF assms(1)] mset_eq_imp_distinct_iff by blast
  moreover have "canonical p \<and> t \<noteq> 0 \<and> p \<in> set (blocklist s)" if "(p, t) \<in> set es" for p t
  proof -
    from that set have e: "(p, t) \<in> set (expirations s)" by simp
    then have "p \<in> set (blocklist s)"
      using store_inv_parts(6) [OF assms(1)] by force
    with e show ?thesis using store_inv_parts(3,7) [OF assms(1)] by blast
  qed
  ultimately have "validateExpirations_from (blocklist s) (prefixToTimeMap es) [] = Inr ([] @ es)"
    by (intro validateExpirations_from_printed) simp_all
  then have "validateExpirations (blocklist s) (prefixToTimeMap es) = Inr es"
    by (auto simp: validateExpirations_def prefixToTimeMap_def)
  then show ?thesis
    using assms(1) by (simp add: validateState_def to_disk_def validatePrefixes_canonical
        validateAudit_from_canonical store_inv_def)
qed

lemma filepath_Clean_nonempty [simp]: "filepath_Clean p \<noteq> []"
  by (simp add: filepath_Clean_def Let_def)

lemma Open_path: "Open u p d = Inr s \<Longrightarrow> path s = filepath_Clean p"
  by (auto simp: Open_def Let_def split: if_splits option.splits file_image.splits sum.splits)

lemma Open_nonempty: "Open u p d = Inr s \<Longrightarrow> p \<noteq> [] \<and> \<not> u"
  by (auto simp: Open_def Let_def split: if_splits)

lemma Open_missing:
  "p \<noteq> [] \<Longrightarrow> d (filepath_Clean p) = None \<Longrightarrow> Open False p d = Inr (New\<lparr>path := filepath_Clean p\<rparr>)"
  by (simp add: Open_def)

lemma Open_to_disk:
  assumes "store_inv s" "p \<noteq> []" "path s = filepath_Clean p" "mset es = mset (expirations s)"
    and "d (path s) = Some (Document (to_disk (blocklist s) (whitelist s) (audit s) es))"
  shows "Open False p d = Inr (s\<lparr>expirations := es\<rparr>)"
  using assms validateState_to_disk [OF assms(1,4)] by (simp add: Open_def)

text \<open>What a mutation that returned without an error leaves in memory and in the file.\<close>

lemma exec_command_file:
  assumes "exec_command io now c s d = (Inr b, s', d')" "path s \<noteq> []" "tmp_fresh io (path s) d"
  shows "(\<not> b \<and> s' = s \<and> d' = d) \<or>
     (b \<and> d' = d(path s \<mapsto> Document (to_disk (blocklist s') (whitelist s') (audit s') (expirations s'))))"
  using assms(1)
proof (cases rule: exec_command_commit)
  case (commit op list p bl wl es)
  from commit_store_ok [OF commit [symmetric]] commit_store_disk [OF commit [symmetric] assms(3)] assms(2)
  show ?thesis by auto
qed auto

lemma exec_command_error_file:
  assumes "exec_command io now c s d = (Inl e, s', d')" "tmp_fresh io (path s) d"
    and "\<And>f. fault io = Some f \<Longrightarrow> \<not> late f"
  shows "s' = s \<and> d' = d"
  using assms(1)
proof (cases rule: exec_command_commit)
  case (commit op list p bl wl es)
  from commit_store_error [OF commit [symmetric] assms(2)] assms(3) show ?thesis by auto
qed auto

lemma exec_command_late:
  assumes "path s \<noteq> []" "tmp_fresh io (path s) d" "fault io = Some f" "late f"
    and "exec_command (io\<lparr>fault := None\<rparr>) now c s d = (Inr True, s1, d1)"
  shows "exec_command io now c s d = (Inl (PersistFailed f), s, d1)"
proof -
  have commit: "commit_store io now op list p bl wl es s d = (Inl (PersistFailed f), s, d1)"
    if "commit_store (io\<lparr>fault := None\<rparr>) now op list p bl wl es s d = (Inr True, s1, d1)"
    for op list p bl wl es
  proof -
    have "tmp_fresh (io\<lparr>fault := None\<rparr>) (path s) d" using assms(2) by (simp add: tmp_fresh_def)
    with that assms(1-4) show ?thesis by (simp add: commit_store_def Let_def persist_eq)
  qed
  show ?thesis
  proof (cases c)
    case (CmdAdd list p)
    with assms(5) commit show ?thesis
      by (auto simp: store_Add_def mutate_def Let_def split: if_splits)
  next
    case (CmdRemove list p)
    with assms(5) commit show ?thesis
      by (auto simp: store_Remove_def mutate_def Let_def split: if_splits)
  next
    case (CmdUntil p t)
    with assms(5) commit show ?thesis
      by (auto simp: AddUntil_def Let_def split: if_splits)
  qed
qed

text \<open>
  A run of commands, each with its own clock reading, temporary name and fault. A name is usable
  when no file has it, as \<open>O_EXCL\<close> ensures.
\<close>

type_synonym run = "(io \<times> time \<times> command) list"

fun run_store :: "run \<Rightarrow> store \<times> disk \<Rightarrow> store \<times> disk" where
  "run_store [] sd = sd"
| "run_store ((io, now, c) # r) (s, d) = run_store r (snd (exec_command io now c s d))"

definition run_ok :: "string \<Rightarrow> disk \<Rightarrow> run \<Rightarrow> bool" where
  "run_ok p d r = (\<forall>(io, now, c) \<in> set r. now \<noteq> 0 \<and> wf_command c \<and> tmp_fresh io p d)"

definition no_late_fault :: "run \<Rightarrow> bool" where
  "no_late_fault r = (\<forall>(io, now, c) \<in> set r. fault io \<noteq> Some OpenDir \<and> fault io \<noteq> Some SyncDir)"

lemma run_ok_upd: "run_ok p d r \<Longrightarrow> run_ok p (d(p \<mapsto> x)) r"
  by (auto simp: run_ok_def tmp_fresh_def)

lemma run_store_reload:
  assumes "store_inv s" "Open False p d = Inr s" "run_ok (path s) d r" "no_late_fault r"
    and "run_store r (s, d) = (s', d')"
  shows "store_inv s' \<and> Open False p d' = Inr s'"
  using assms
proof (induction r arbitrary: s d)
  case (Cons step r)
  obtain io now c where step: "step = (io, now, c)" by (cases step)
  obtain x s1 d1 where ex: "exec_command io now c s d = (x, s1, d1)" by (cases "exec_command io now c s d")
  have ok: "now \<noteq> 0" "wf_command c" "tmp_fresh io (path s) d" "run_ok (path s) d r"
    using Cons.prems(3) step by (auto simp: run_ok_def)
  have nl: "fault io = Some f \<Longrightarrow> \<not> late f" "no_late_fault r" for f
    using Cons.prems(4) step by (auto simp: no_late_fault_def late_def)
  have p: "path s = filepath_Clean p" "p \<noteq> []"
    using Open_path Open_nonempty Cons.prems(2) by blast+
  have s1: "path s1 = path s" using ex by (rule exec_command_path)
  have "store_inv s1 \<and> Open False p d1 = Inr s1 \<and> run_ok (path s1) d1 r"
  proof (cases x)
    case (Inl e)
    then show ?thesis
      using exec_command_error_file [OF _ ok(3) nl(1)] ex Cons.prems(1,2) ok(4) by blast
  next
    case (Inr b)
    have inv: "store_inv s1" using exec_command_inv [OF Cons.prems(1) ok(2,1)] ex Inr by blast
    from exec_command_file [OF ex [unfolded Inr] _ ok(3)] p(1)
    consider "s1 = s" "d1 = d"
      | "d1 = d(path s \<mapsto> Document (to_disk (blocklist s1) (whitelist s1) (audit s1) (expirations s1)))"
      by auto
    then show ?thesis
    proof cases
      case 2
      then have "Open False p d1 = Inr (s1\<lparr>expirations := expirations s1\<rparr>)"
        using s1 p by (intro Open_to_disk [OF inv p(2)]) auto
      with 2 inv s1 run_ok_upd [OF ok(4)] show ?thesis by simp
    qed (use inv Cons.prems(2) ok(4) in auto)
  qed
  with Cons.IH [of s1 d1] Cons.prems(5) nl(2) step ex show ?case by simp
qed simp

text \<open>Opening a file establishes the invariant.\<close>

lemma Open_inv:
  assumes "Open u p d = Inr s" "\<And>st. d (filepath_Clean p) = Some (Document st) \<Longrightarrow> wf_document st"
  shows "store_inv s"
proof (cases "d (filepath_Clean p)")
  case None
  with assms(1) have "s = New\<lparr>path := filepath_Clean p\<rparr>"
    by (auto simp: Open_def Let_def split: if_splits)
  then show ?thesis by (simp add: store_inv_def New_def)
next
  case (Some img)
  with assms(1) obtain st where st: "img = Document st"
    by (cases img) (auto simp: Open_def Let_def split: if_splits)
  with Some assms(1) obtain bl wl es au where v: "validateState st = Inr (bl, wl, es, au)"
    "s = New\<lparr>path := filepath_Clean p, blocklist := bl, whitelist := wl, expirations := es, audit := au\<rparr>"
    by (cases "validateState st") (auto simp: Open_def Let_def split: if_splits)
  then show ?thesis using validateState_inv [OF v(1)] assms(2) Some st by simp
qed

section \<open>Replaying the audit log\<close>

text \<open>The lists an audit log describes.\<close>

fun replay_event :: "audit_event \<Rightarrow> prefix list \<times> prefix list \<Rightarrow> prefix list \<times> prefix list" where
  "replay_event ev (bl, wl) =
     (let put = (\<lambda>ps. if ev_operation ev = OpAdd
                      then (if ev_prefix ev \<in> set ps then ps else ps @ [ev_prefix ev])
                      else remove1 (ev_prefix ev) ps)
      in if ev_list ev = Blocklist then (put bl, wl) else (bl, put wl))"

definition replay :: "audit_event list \<Rightarrow> prefix list \<times> prefix list" where
  "replay evs = fold replay_event evs ([], [])"

lemma replay_snoc: "replay (evs @ [ev]) = replay_event ev (replay evs)"
  by (simp add: replay_def)

lemma exec_command_replay:
  assumes "replay (audit s) = (blocklist s, whitelist s)"
    and "exec_command io now c s d = (x, s', d')"
  shows "replay (audit s') = (blocklist s', whitelist s')"
proof (cases x)
  case (Inl e)
  with assms exec_command_error show ?thesis by blast
next
  case (Inr b)
  show ?thesis
  proof (cases c)
    case (CmdAdd list p)
    with assms(2) Inr have "store_Add io now list p s d = (Inr b, s', d')" by simp
    then show ?thesis
      by (cases rule: store_Add_cases)
        (use assms(1) in \<open>auto simp: replay_snoc policy_list_def dest!: commit_store_ok [OF sym]
          split: if_splits\<close>)
  next
    case (CmdRemove list p)
    with assms(2) Inr have "store_Remove io now list p s d = (Inr b, s', d')" by simp
    then show ?thesis
      by (cases rule: store_Remove_cases)
        (use assms(1) in \<open>auto simp: replay_snoc policy_list_def dest!: commit_store_ok [OF sym]\<close>)
  next
    case (CmdUntil p t)
    with assms(2) Inr have "AddUntil io now Blocklist p t s d = (Inr b, s', d')" by simp
    then show ?thesis
      by (cases rule: AddUntil_cases)
        (use assms(1) in \<open>auto simp: replay_snoc dest!: commit_store_ok [OF sym]\<close>)
  qed
qed

lemma run_store_replay:
  assumes "replay (audit s) = (blocklist s, whitelist s)" "run_store r (s, d) = (s', d')"
  shows "replay (audit s') = (blocklist s', whitelist s')"
  using assms
proof (induction r arbitrary: s d)
  case (Cons step r)
  obtain io now c where step: "step = (io, now, c)" by (cases step)
  obtain x s1 d1 where ex: "exec_command io now c s d = (x, s1, d1)" by (cases "exec_command io now c s d")
  with Cons.IH [of s1 d1] Cons.prems step exec_command_replay [OF Cons.prems(1) ex] show ?case by simp
qed simp

section \<open>Queries\<close>

lemma contains_iff: "contains ps a \<longleftrightarrow> (\<exists>p \<in> set ps. Contains p a)"
  by (induction ps) auto

lemma Blocked_iff:
  "Blocked s a \<longleftrightarrow> (\<exists>p \<in> set (blocklist s). Contains p a) \<and> \<not> (\<exists>w \<in> set (whitelist s). Contains w a)"
proof (cases a)
  case NoAddr
  have "\<not> Contains p NoAddr" for p by (cases p rule: Masked.cases) auto
  with NoAddr show ?thesis by (simp add: Blocked_def addr_IsValid_def)
qed (auto simp: Blocked_def addr_IsValid_def contains_iff)

section \<open>Properties\<close>

text \<open>A concrete store, disk and run, on which the properties are instantiated.\<close>

definition doc_net :: prefix where
  "doc_net = Prefix (Addr4 0xC0000200) (Some 24)"

definition sample_io :: io where
  "sample_io = \<lparr>fault = None, tmp_name = ''t''\<rparr>"

definition sample_store :: store where
  "sample_store = \<lparr>path = ''p'', blocklist = [], whitelist = [], expirations = [], audit = []\<rparr>"

definition sample_stored :: store where
  "sample_stored = sample_store\<lparr>blocklist := [doc_net], audit := [event 1 OpAdd Blocklist doc_net]\<rparr>"

definition sample_disk :: disk where
  "sample_disk = Map.empty(''p'' \<mapsto> Document (to_disk [doc_net] [] (audit sample_stored) []))"

lemma doc_net_facts [simp]:
  "wf_prefix doc_net" "prefix_IsValid doc_net" "Masked doc_net = doc_net"
  by code_simp+

lemma sample_Clean [simp]: "filepath_Clean ''p'' = ''p''"
  by code_simp

lemma sample_fresh [simp]: "tmp_fresh sample_io ''p'' Map.empty" "path sample_store = ''p''"
  by (simp_all add: tmp_fresh_def sample_io_def sample_store_def)

lemma sample_Open [simp]: "Open False ''p'' Map.empty = Inr sample_store"
  by (simp add: Open_def New_def sample_store_def)

lemma sample_inv [simp]: "store_inv sample_store"
  by (simp add: store_inv_def sample_store_def)

lemma sample_exec:
  "exec_command sample_io 1 (CmdAdd Blocklist doc_net) sample_store Map.empty =
     (Inr True, sample_stored, sample_disk)"
  using persist_eq [OF sample_fresh(1)]
  by (simp add: store_Add_def mutate_def commit_store_def validList_def Let_def
      sample_store_def sample_stored_def sample_disk_def sample_io_def)

lemma sample_run:
  "run_store [(sample_io, 1, CmdAdd Blocklist doc_net)] (sample_store, Map.empty) =
     (sample_stored, sample_disk)"
  by (simp only: run_store.simps sample_exec snd_conv)

text \<open>C15: replacing the policy file is atomic. If the process dies after any number of the
  steps of \<open>persist\<close>, the path holds the document it held before, or, from the rename on, the
  complete new one; every other file but the temporary one is as it was.\<close>

theorem persist_crash_atomic:
  assumes "tmp_fresh io p d"
  shows "crash_disk k io p st d p = (if k < 7 then d p else Some (Document st)) \<and>
     (\<forall>q. q \<noteq> p \<and> q \<noteq> tmp_name io \<longrightarrow> crash_disk k io p st d q = d q)"
  using assms by (simp add: crash_disk_cases) (simp add: crash_disk_def run_steps_frame)

theorem persist_crash_atomic_witness:
  "crash_disk 6 sample_io ''p'' (to_disk [] [] [] []) Map.empty ''p'' = None \<and>
   crash_disk 7 sample_io ''p'' (to_disk [] [] [] []) Map.empty ''p'' = Some (Document (to_disk [] [] [] []))"
  using persist_crash_atomic [OF sample_fresh(1), of 6 "to_disk [] [] [] []"]
    persist_crash_atomic [OF sample_fresh(1), of 7 "to_disk [] [] [] []"] by simp

text \<open>C14: a mutation that succeeds acts on the two lists and the expiries as set insertion,
  removal and map update on canonical prefixes, keeps the store's invariant, reports a change
  exactly when there is one, and appends one audit event exactly then.\<close>

theorem store_mutation_refines:
  assumes "store_inv s" "wf_command c" "now \<noteq> 0" "exec_command io now c s d = (Inr b, s', d')"
  shows "store_inv s' \<and> abs_store s' = apply_command c (abs_store s) \<and>
     (b \<longleftrightarrow> abs_store s' \<noteq> abs_store s) \<and>
     audit s' = audit s @ (if b then [command_event now c] else [])"
  using exec_command_inv [OF assms] exec_command_abs [OF assms(1,4)] by blast

theorem store_mutation_refines_witness:
  "p_block (abs_store sample_stored) = {doc_net} \<and> length (audit sample_stored) = 1"
  using store_mutation_refines [OF sample_inv _ _ sample_exec]
  by (simp add: abs_store_def sample_store_def)

text \<open>C12: whatever the arguments and faults of a run of mutations, unless the directory could not
  be synced after a rename, opening the file again gives exactly the store in memory: lists in
  order, expiries and audit log.\<close>

theorem store_reload:
  assumes "Open False p d = Inr s" "\<And>st. d (filepath_Clean p) = Some (Document st) \<Longrightarrow> wf_document st"
    and "run_ok (path s) d r" "no_late_fault r" "run_store r (s, d) = (s', d')"
  shows "store_inv s' \<and> Open False p d' = Inr s'"
  using run_store_reload [OF Open_inv [OF assms(1,2)] assms(1,3-5)] by blast

theorem store_reload_witness:
  "Open False ''p'' sample_disk = Inr sample_stored"
  using store_reload [OF sample_Open _ _ _ sample_run]
  by (simp add: run_ok_def no_late_fault_def) (simp add: sample_io_def)

text \<open>When only the parent directory cannot be opened or synced, the mutation returns an
  error and the memory keeps the old policy, but the file already holds the new one: a restart
  loads a policy that differs from the one in force.\<close>

theorem late_fault_divergence:
  assumes "store_inv s" "Open False p d = Inr s" "wf_command c" "now \<noteq> 0" "tmp_fresh io (path s) d"
    and "fault io = Some f" "late f"
    and "exec_command (io\<lparr>fault := None\<rparr>) now c s d = (Inr True, s1, d1)"
  shows "exec_command io now c s d = (Inl (PersistFailed f), s, d1) \<and> Open False p d1 = Inr s1 \<and>
     abs_store s1 \<noteq> abs_store s"
proof -
  let ?io = "io\<lparr>fault := None\<rparr>"
  have fresh: "tmp_fresh ?io (path s) d" using assms(5) by (simp add: tmp_fresh_def)
  have "run_store [(?io, now, c)] (s, d) = (s1, d1)" using assms(8) by simp
  moreover have "run_ok (path s) d [(?io, now, c)]" "no_late_fault [(?io, now, c)]"
    using assms(3,4) fresh by (simp_all add: run_ok_def no_late_fault_def)
  ultimately have "Open False p d1 = Inr s1"
    using run_store_reload [OF assms(1,2)] by blast
  moreover have "abs_store s1 \<noteq> abs_store s"
    using exec_command_abs [OF assms(1,8)] by blast
  moreover have "exec_command io now c s d = (Inl (PersistFailed f), s, d1)"
    using exec_command_late [OF _ assms(5,6,7,8)] Open_path [OF assms(2)] by simp
  ultimately show ?thesis by simp
qed

theorem late_fault_divergence_witness:
  "exec_command (sample_io\<lparr>fault := Some SyncDir\<rparr>) 1 (CmdAdd Blocklist doc_net) sample_store Map.empty =
     (Inl (PersistFailed SyncDir), sample_store, sample_disk) \<and>
   Open False ''p'' sample_disk = Inr sample_stored"
proof -
  have "sample_io\<lparr>fault := Some SyncDir, fault := None\<rparr> = sample_io" by (simp add: sample_io_def)
  then have "exec_command (sample_io\<lparr>fault := Some SyncDir, fault := None\<rparr>) 1
      (CmdAdd Blocklist doc_net) sample_store Map.empty = (Inr True, sample_stored, sample_disk)"
    by (simp only: sample_exec)
  from late_fault_divergence [OF sample_inv sample_Open _ _ _ _ _ this, of SyncDir]
  show ?thesis by (simp add: late_def tmp_fresh_def sample_io_def)
qed

text \<open>The audit log of a store that started empty is complete: replaying it, event by event,
  rebuilds both lists in their order, after any run of mutations with any faults.\<close>

theorem audit_log_complete:
  assumes "p \<noteq> []" "d (filepath_Clean p) = None" "Open False p d = Inr s"
    and "run_store r (s, d) = (s', d')"
  shows "replay (audit s') = (blocklist s', whitelist s')"
proof (rule run_store_replay [OF _ assms(4)])
  have "s = New\<lparr>path := filepath_Clean p\<rparr>"
    using Open_missing [of p d] assms(1-3) by simp
  then show "replay (audit s) = (blocklist s, whitelist s)"
    by (simp add: New_def replay_def)
qed

theorem audit_log_complete_witness:
  "replay (audit sample_stored) = ([doc_net], [])"
  using audit_log_complete [OF _ _ sample_Open sample_run]
  by (simp add: sample_stored_def sample_store_def)

text \<open>\<open>Blocked\<close> gives the whitelist precedence: an address is blocked exactly when a
  blocklist prefix contains it and no whitelist prefix does.\<close>

theorem Blocked_precedence:
  "Blocked s a \<longleftrightarrow> (\<exists>p \<in> p_block (abs_store s). Contains p a) \<and>
     \<not> (\<exists>w \<in> p_allow (abs_store s). Contains w a)"
  by (simp add: Blocked_iff abs_store_def)

end
