(* ===== verification/Api_Types.thy ===== *)
theory Api_Types
  imports Netip_Text
begin

text \<open>
  The messages that components exchange: a policy change as the sync protocol carries it
  (\<open>internal/agentrpc/session.go\<close>) and a policy mutation as the dashboard and the feeds make it
  (\<open>internal/dashboard/http.go\<close>). An absent \<open>*time.Time\<close> is \<open>None\<close>.
\<close>

record policy_change =
  pc_ID :: string
  pc_IdempotencyKey :: string
  pc_Operation :: string
  pc_List :: string
  pc_Prefix :: string
  pc_ExpiresAt :: "time option"

record policy_mutation =
  pm_Action :: string
  pm_List :: string
  pm_Prefix :: string
  pm_ExpiresAt :: "time option"

text \<open>The guard \<open>err != nil || prefix != prefix.Masked()\<close> that several operations share.\<close>

definition parse_canonical :: "string \<Rightarrow> prefix option" where
  "parse_canonical s =
     (case ParsePrefix s of
        None \<Rightarrow> None
      | Some p \<Rightarrow> if p \<noteq> Masked p then None else Some p)"

lemma parse_canonical_Some: "parse_canonical s = Some p \<Longrightarrow> canonical p"
  unfolding parse_canonical_def
  by (auto simp: canonical_def split: option.splits if_splits dest: ParsePrefix_wf)

lemma parse_canonical_print: "canonical p \<Longrightarrow> parse_canonical (prefix_String p) = Some p"
  by (simp add: parse_canonical_def canonical_fix canonical_valid canonical_wf prefix_text.parse_print)

end
