(* ===== verification/Adapter.thy ===== *)
theory Adapter
  imports Policystore Api_Types
begin

text \<open>
  \<open>internal/runtime/backend.go\<close> (\<open>policyStoreAdapter\<close>, \<open>mutateStore\<close>, \<open>NewConfiguredAdapter\<close>) and
  \<open>internal/runtime/adapter.go\<close>: how a policy change received by the agent reaches the policy
  store, or is only counted in dry-run mode.
\<close>

datatype adapter_error =
    CanonicalPrefixRequired
  | UnsupportedList string
  | UnsupportedAction string
  | MutateStoreFailed store_error
  | AddUntilFailed store_error
  | StoreRequired
  | OpenStoreFailed store_error

definition result_error :: "('e \<Rightarrow> 'f) \<Rightarrow> ('e + bool) \<times> store \<times> disk \<Rightarrow> 'f option \<times> store \<times> disk" where
  "result_error wrap r = (case r of (Inl e, s, d) \<Rightarrow> (Some (wrap e), s, d) | (Inr _, s, d) \<Rightarrow> (None, s, d))"

definition mutateStore :: "io \<Rightarrow> time \<Rightarrow> string \<Rightarrow> string \<Rightarrow> string \<Rightarrow> store \<Rightarrow> disk
    \<Rightarrow> adapter_error option \<times> store \<times> disk" where
  "mutateStore io now operation listName prefixRaw s d =
     (case parse_canonical prefixRaw of
        None \<Rightarrow> (Some CanonicalPrefixRequired, s, d)
      | Some prefix \<Rightarrow>
          if listName \<noteq> ''blocklist'' \<and> listName \<noteq> ''whitelist'' then (Some (UnsupportedList listName), s, d)
          else
            let list = (if listName = ''blocklist'' then Blocklist else Whitelist) in
            if operation = ''add'' \<or> operation = ''replace'' then
              result_error MutateStoreFailed (store_Add io now list prefix s d)
            else if operation = ''remove'' \<or> operation = ''delete'' then
              result_error MutateStoreFailed (store_Remove io now list prefix s d)
            else (Some (UnsupportedAction operation), s, d))"

record store_adapter =
  ad_store :: "store option"
  ad_dryRun :: bool

definition store_adapter_Apply :: "io \<Rightarrow> time \<Rightarrow> policy_change \<Rightarrow> store_adapter \<Rightarrow> disk
    \<Rightarrow> adapter_error option \<times> store_adapter \<times> disk" where
  "store_adapter_Apply io now change a d =
     (case ad_store a of
        None \<Rightarrow> (Some StoreRequired, a, d)
      | Some s \<Rightarrow>
          if ad_dryRun a then (None, a, d)
          else
            let (e, s', d') =
              (case pc_ExpiresAt change of
                 Some t \<Rightarrow>
                   (case parse_canonical (pc_Prefix change) of
                      None \<Rightarrow> (Some CanonicalPrefixRequired, s, d)
                    | Some prefix \<Rightarrow> result_error AddUntilFailed (AddUntil io now Blocklist prefix t s d))
               | None \<Rightarrow> mutateStore io now (pc_Operation change) (pc_List change) (pc_Prefix change) s d)
            in (e, a\<lparr>ad_store := Some s'\<rparr>, d'))"

text \<open>\<open>DryRunAdapter\<close>: a counter of observed changes.\<close>

definition dry_run_Apply :: "64 word \<Rightarrow> 64 word" where
  "dry_run_Apply observed = observed + 1"

definition dry_run_Applied :: "64 word \<Rightarrow> 64 word" where
  "dry_run_Applied observed = 0"

datatype policy_adapter = DryRunAdapter "64 word" | StoreAdapter store_adapter

text \<open>The four configuration fields \<open>NewConfiguredAdapter\<close> reads are its arguments.\<close>

definition NewConfiguredAdapter :: "bool \<Rightarrow> string \<Rightarrow> string \<Rightarrow> string \<Rightarrow> bool \<Rightarrow> disk
    \<Rightarrow> adapter_error + policy_adapter" where
  "NewConfiguredAdapter dryRun policyFile dbDSN dbDriver unreadable d =
     (if dryRun then Inr (DryRunAdapter 0)
      else
        let targetFile = (if policyFile = [] then dbDSN else policyFile) in
        if HasSuffix targetFile ''.db'' \<or> HasSuffix targetFile ''.sqlite'' \<or> dbDriver \<noteq> []
        then Inr (StoreAdapter \<lparr>ad_store = Some New, ad_dryRun = False\<rparr>)
        else case Open unreadable targetFile d of
          Inl e \<Rightarrow> Inl (OpenStoreFailed e)
        | Inr s \<Rightarrow> Inr (StoreAdapter \<lparr>ad_store = Some s, ad_dryRun = False\<rparr>))"

definition adapter_Apply :: "io \<Rightarrow> time \<Rightarrow> policy_change \<Rightarrow> policy_adapter \<Rightarrow> disk
    \<Rightarrow> adapter_error option \<times> policy_adapter \<times> disk" where
  "adapter_Apply io now change a d =
     (case a of
        DryRunAdapter n \<Rightarrow> (None, DryRunAdapter (dry_run_Apply n), d)
      | StoreAdapter sa \<Rightarrow>
          (case store_adapter_Apply io now change sa d of (e, sa', d') \<Rightarrow> (e, StoreAdapter sa', d')))"

section \<open>A change as a command of the store\<close>

text \<open>The command a change stands for, when it is one the store accepts.\<close>

definition change_command :: "policy_change \<Rightarrow> command option" where
  "change_command c =
     (case parse_canonical (pc_Prefix c) of
        None \<Rightarrow> None
      | Some p \<Rightarrow>
          (case pc_ExpiresAt c of
             Some t \<Rightarrow> Some (CmdUntil p t)
           | None \<Rightarrow>
               if pc_List c \<noteq> Blocklist \<and> pc_List c \<noteq> Whitelist then None
               else if pc_Operation c = ''add'' \<or> pc_Operation c = ''replace''
               then Some (CmdAdd (pc_List c) p)
               else if pc_Operation c = ''remove'' \<or> pc_Operation c = ''delete''
               then Some (CmdRemove (pc_List c) p)
               else None))"

lemma result_error_simps [simp]:
  "fst (result_error w r) = None \<longleftrightarrow> (\<exists>b. fst r = Inr b)"
  "snd (result_error w r) = snd r"
  by (auto simp: result_error_def split: prod.splits sum.splits)

lemma change_command_wf: "change_command c = Some k \<Longrightarrow> wf_command k"
  by (auto simp: change_command_def split: option.splits if_splits
      dest!: parse_canonical_Some canonical_wf)

text \<open>Applying a change is executing its command, or an error that touches nothing.\<close>

lemma result_error_exec:
  "result_error w (x, s', d') = (case x of Inl e \<Rightarrow> Some (w e) | Inr _ \<Rightarrow> None, s', d')"
  by (simp add: result_error_def split: sum.split)

lemma mutateStore_command:
  assumes "change_command c = Some k" "pc_ExpiresAt c = None"
  shows "mutateStore io now (pc_Operation c) (pc_List c) (pc_Prefix c) s d =
     result_error MutateStoreFailed (exec_command io now k s d)"
proof -
  obtain p where "parse_canonical (pc_Prefix c) = Some p"
    using assms by (auto simp: change_command_def split: option.splits)
  with assms show ?thesis
    by (simp add: mutateStore_def change_command_def split: if_splits) auto
qed

lemma store_adapter_Apply_command:
  assumes "ad_store a = Some s" "\<not> ad_dryRun a" "change_command c = Some k"
    and "exec_command io now k s d = (x, s', d')"
  shows "\<exists>e. store_adapter_Apply io now c a d = (e, a\<lparr>ad_store := Some s'\<rparr>, d') \<and>
     (e = None \<longleftrightarrow> (\<exists>b. x = Inr b))"
proof (cases "pc_ExpiresAt c")
  case None
  then show ?thesis
    using assms mutateStore_command [OF assms(3) None]
    by (cases x) (simp_all add: store_adapter_Apply_def result_error_exec)
next
  case (Some t)
  then obtain p where "parse_canonical (pc_Prefix c) = Some p" "k = CmdUntil p t"
    using assms(3) by (auto simp: change_command_def split: option.splits)
  with Some assms show ?thesis
    by (cases x) (simp_all add: store_adapter_Apply_def result_error_exec)
qed

lemma store_adapter_Apply_reject:
  assumes "ad_store a = Some s" "\<not> ad_dryRun a" "change_command c = None"
  shows "\<exists>e. store_adapter_Apply io now c a d = (Some e, a, d)"
proof (cases "pc_ExpiresAt c")
  case None
  then have "\<exists>e. mutateStore io now (pc_Operation c) (pc_List c) (pc_Prefix c) s d = (Some e, s, d)"
    using assms(3) unfolding change_command_def mutateStore_def
    by (cases "parse_canonical (pc_Prefix c)") (simp_all split: if_splits)
  with None assms show ?thesis by (auto simp: store_adapter_Apply_def)
next
  case (Some t)
  then have "parse_canonical (pc_Prefix c) = None"
    using assms(3) by (auto simp: change_command_def split: option.splits)
  with Some assms show ?thesis by (simp add: store_adapter_Apply_def)
qed

section \<open>Properties\<close>

lemma store_adapter_Apply_ok:
  assumes "ad_store a = Some s" "\<not> ad_dryRun a" "store_adapter_Apply io now c a d = (None, a', d')"
  obtains k b s' where "change_command c = Some k" "exec_command io now k s d = (Inr b, s', d')"
    "a' = a\<lparr>ad_store := Some s'\<rparr>"
proof (cases "change_command c")
  case None
  then show thesis using store_adapter_Apply_reject [OF assms(1,2) None, of io now d] assms(3) by auto
next
  case (Some k)
  obtain x s' d1 where ex: "exec_command io now k s d = (x, s', d1)"
    by (cases "exec_command io now k s d")
  from store_adapter_Apply_command [OF assms(1,2) Some ex] assms(3) ex Some that show thesis by auto
qed

definition sample_change :: policy_change where
  "sample_change = \<lparr>pc_ID = ''dashboard-1'', pc_IdempotencyKey = ''dashboard-1'', pc_Operation = ''add'',
     pc_List = ''blocklist'', pc_Prefix = ''192.0.2.0/24'', pc_ExpiresAt = None\<rparr>"

lemma sample_change_text: "prefix_String doc_net = ''192.0.2.0/24''"
  by code_simp

lemma doc_net_canonical [simp]: "canonical doc_net"
  by (simp add: canonical_def)

lemma sample_change_command: "change_command sample_change = Some (CmdAdd Blocklist doc_net)"
  using parse_canonical_print [OF doc_net_canonical]
  by (simp add: change_command_def sample_change_def sample_change_text)

definition sample_adapter :: store_adapter where
  "sample_adapter = \<lparr>ad_store = Some sample_store, ad_dryRun = False\<rparr>"

lemma sample_adapter_Apply:
  "store_adapter_Apply sample_io 1 sample_change sample_adapter Map.empty =
     (None, sample_adapter\<lparr>ad_store := Some sample_stored\<rparr>, sample_disk)"
  using store_adapter_Apply_command [OF _ _ sample_change_command sample_exec, of sample_adapter]
  by (auto simp: sample_adapter_def)

text \<open>C30: a change the agent applies without an error acts on the agent's policy as the command it
  stands for, and keeps the store's invariant; a change that stands for no command is rejected
  before anything is touched.\<close>

theorem adapter_apply_refines:
  assumes "ad_store a = Some s" "\<not> ad_dryRun a" "store_inv s" "now \<noteq> 0"
    and "store_adapter_Apply io now c a d = (e, a', d')"
  shows "(e = None \<longrightarrow> (\<exists>k s'. change_command c = Some k \<and> ad_store a' = Some s' \<and> store_inv s' \<and>
            abs_store s' = apply_command k (abs_store s))) \<and>
     (change_command c = None \<longrightarrow> e \<noteq> None \<and> a' = a \<and> d' = d)"
proof (intro conjI impI)
  assume "e = None"
  with assms(5) have ok: "store_adapter_Apply io now c a d = (None, a', d')" by simp
  obtain k b s' where k: "change_command c = Some k" "exec_command io now k s d = (Inr b, s', d')"
    "a' = a\<lparr>ad_store := Some s'\<rparr>"
    using store_adapter_Apply_ok [OF assms(1,2) ok] by blast
  then show "\<exists>k s'. change_command c = Some k \<and> ad_store a' = Some s' \<and> store_inv s' \<and>
      abs_store s' = apply_command k (abs_store s)"
    using exec_command_inv [OF assms(3) change_command_wf [OF k(1)] assms(4) k(2)]
      exec_command_abs [OF assms(3) k(2)] by simp
qed (use store_adapter_Apply_reject [OF assms(1,2), of c io now d] assms(5) in auto)

theorem adapter_apply_refines_witness:
  "\<exists>k s'. change_command sample_change = Some k \<and> store_inv s' \<and>
     abs_store s' = apply_command k (abs_store sample_store)"
proof -
  have "ad_store sample_adapter = Some sample_store" "\<not> ad_dryRun sample_adapter" "(1::time) \<noteq> 0"
    by (simp_all add: sample_adapter_def)
  from adapter_apply_refines [OF this(1,2) sample_inv this(3) sample_adapter_Apply] show ?thesis by blast
qed

text \<open>C31: delivering a change twice is harmless. When a change has been applied, applying it again,
  at any later time and with any faults, leaves the policy as it is.\<close>

theorem adapter_replay_idempotent:
  assumes "ad_store a = Some s" "\<not> ad_dryRun a" "store_inv s" "now \<noteq> 0" "now' \<noteq> 0"
    and "store_adapter_Apply io now c a d = (None, a1, d1)"
    and "store_adapter_Apply io' now' c a1 d1 = (e, a2, d2)"
  shows "map_option abs_store (ad_store a2) = map_option abs_store (ad_store a1) \<and> ad_store a2 \<noteq> None"
proof -
  obtain k b s1 where k: "change_command c = Some k" "exec_command io now k s d = (Inr b, s1, d1)"
    "a1 = a\<lparr>ad_store := Some s1\<rparr>"
    using store_adapter_Apply_ok [OF assms(1,2,6)] by blast
  obtain x s2 d3 where x: "exec_command io' now' k s1 d1 = (x, s2, d3)"
    by (cases "exec_command io' now' k s1 d1")
  have a1: "ad_store a1 = Some s1" "\<not> ad_dryRun a1" using k(3) assms(2) by simp_all
  have a2: "ad_store a2 = Some s2"
    using store_adapter_Apply_command [OF a1 k(1) x] assms(7) by auto
  have "abs_store s2 = abs_store s1"
    using file_store.replay_idempotent [of "(s, d)" "(io, now)" "(io', now')" k b "(s1, d1)" x "(s2, d3)"]
      assms(3-5) change_command_wf [OF k(1)] k(2) x by simp
  with a1 a2 show ?thesis by simp
qed

theorem adapter_replay_idempotent_witness:
  "map_option abs_store (ad_store (fst (snd (store_adapter_Apply sample_io 2 sample_change
     (sample_adapter\<lparr>ad_store := Some sample_stored\<rparr>) sample_disk)))) = Some (abs_store sample_stored)"
proof -
  obtain e a2 d2 where again: "store_adapter_Apply sample_io 2 sample_change
      (sample_adapter\<lparr>ad_store := Some sample_stored\<rparr>) sample_disk = (e, a2, d2)"
    by (cases "store_adapter_Apply sample_io 2 sample_change
      (sample_adapter\<lparr>ad_store := Some sample_stored\<rparr>) sample_disk")
  from adapter_replay_idempotent [OF _ _ sample_inv _ _ sample_adapter_Apply again] again
  show ?thesis by (simp add: sample_adapter_def)
qed

end
