(* ===== verification/Bgp_Engine.thy ===== *)
theory Bgp_Engine
  imports Netip_Text
begin

text \<open>
  \<open>internal/bgpengine/engine.go\<close>: the embedded BGP speaker. The session policy and the engine are
  Isabelle records; GoBGP, a third-party package, is an object state \<open>'g\<close> with a record of the
  functions the engine calls. What the engine relies on of GoBGP's local table is the predicate
  \<open>gobgp_contract\<close>. The locale \<open>route_engine\<close> is the interface \<open>Announce\<close>/\<open>Withdraw\<close> that the
  policy controller drives, interpreted on this engine.
\<close>

section \<open>Data\<close>

record config =
  LocalASN :: "32 word"
  RouterID :: addr
  ListenAddresses :: "string list"
  ListenPort :: "32 word"
  ListenRanges :: "prefix list"
  AllowedASNs :: "32 word list"
  MaxSessions :: int

definition BlackholeCommunity :: "32 word" where
  "BlackholeCommunity = 0xffff029a"

definition rtbhCommunitySetName :: string where
  "rtbhCommunitySetName = ''rtbh-blackhole-community''"

definition rtbhExportPolicyName :: string where
  "rtbhExportPolicyName = ''rtbh-export-only-blackhole''"

record peer =
  p_Address :: addr
  p_ASN :: "32 word"
  p_State :: string

record status =
  st_Running :: bool
  st_LocalASN :: "32 word"
  st_RouterID :: addr
  st_ListenPort :: "32 word"
  st_ListenRanges :: "prefix list"
  st_Sessions :: int
  st_Peers :: "peer list"

record route =
  rt_Prefix :: prefix
  rt_NextHop :: addr
  rt_Communities :: "32 word list"

datatype engine_error =
    ZeroLocalASN | BadRouterID | ListenPortRange | NoListenRange | BadListenRange
  | NonPositiveSessions | ZeroAllowedASN
  | RouteIncomplete | RouteFamiliesDiffer
  | AlreadyRunning | EngineNotRunning
  | GobgpFailed string

section \<open>Session policy\<close>

record session_policy =
  sp_allowed :: "(32 word, unit) gomap"
  sp_max :: int
  sp_peers :: "(string, 32 word) gomap"

definition newSessionPolicy :: "config \<Rightarrow> session_policy" where
  "newSessionPolicy c =
     \<lparr>sp_allowed = fold (\<lambda>asn m. AList.update asn () m) (AllowedASNs c) [],
      sp_max = MaxSessions c, sp_peers = []\<rparr>"

definition admitPeer :: "string \<Rightarrow> 32 word \<Rightarrow> session_policy \<Rightarrow> bool \<times> session_policy" where
  "admitPeer address asn p =
     (case lookup (sp_peers p) address of
        Some current \<Rightarrow> (current = asn, p)
      | None \<Rightarrow>
          if length (sp_allowed p) > 0 \<and> lookup (sp_allowed p) asn = None then (False, p)
          else if int (length (sp_peers p)) \<ge> sp_max p then (False, p)
          else (True, p\<lparr>sp_peers := AList.update address asn (sp_peers p)\<rparr>))"

definition releasePeer :: "string \<Rightarrow> session_policy \<Rightarrow> session_policy" where
  "releasePeer address p = p\<lparr>sp_peers := AList.delete address (sp_peers p)\<rparr>"

definition session_count :: "session_policy \<Rightarrow> int" where
  "session_count p = int (length (sp_peers p))"

section \<open>Configuration\<close>

fun ranges_valid :: "prefix list \<Rightarrow> engine_error option" where
  "ranges_valid [] = None"
| "ranges_valid (p # ps) = (if \<not> prefix_IsValid p then Some BadListenRange else ranges_valid ps)"

fun asns_valid :: "32 word list \<Rightarrow> engine_error option" where
  "asns_valid [] = None"
| "asns_valid (a # as) = (if a = 0 then Some ZeroAllowedASN else asns_valid as)"

definition validate_config :: "config \<Rightarrow> engine_error option" where
  "validate_config c =
     (if LocalASN c = 0 then Some ZeroLocalASN
      else if \<not> addr_IsValid (RouterID c) \<or> \<not> Is4 (RouterID c) then Some BadRouterID
      else if sint (ListenPort c) < -1 \<or> ListenPort c = 0 \<or> sint (ListenPort c) > 65535
        then Some ListenPortRange
      else if length (ListenRanges c) = 0 then Some NoListenRange
      else case ranges_valid (ListenRanges c) of
        Some e \<Rightarrow> Some e
      | None \<Rightarrow>
          if MaxSessions c < 1 then Some NonPositiveSessions
          else asns_valid (AllowedASNs c))"

section \<open>Export policy\<close>

text \<open>The part of GoBGP's API messages the engine fills in.\<close>

datatype defined_type = DEFINED_TYPE_COMMUNITY
datatype match_type = MATCH_ANY
datatype route_action = ROUTE_ACTION_ACCEPT | ROUTE_ACTION_REJECT
datatype policy_direction = POLICY_DIRECTION_UNKNOWN | POLICY_DIRECTION_EXPORT

record defined_set =
  ds_type :: defined_type
  ds_name :: string
  ds_list :: "string list"

record statement =
  sm_name :: string
  sm_community_type :: match_type
  sm_community_set :: string
  sm_action :: route_action

record bgp_policy =
  bp_name :: string
  bp_statements :: "statement list"

record policy_assignment =
  pa_direction :: policy_direction
  pa_policies :: "bgp_policy list"
  pa_default :: route_action

record peer_group =
  pg_name :: string
  pg_peer_asn :: "32 word"
  pg_passive :: bool
  pg_import :: policy_assignment
  pg_export :: policy_assignment

definition buildRTBHExportPolicy :: "defined_set \<times> bgp_policy \<times> policy_assignment" where
  "buildRTBHExportPolicy =
     (let set = \<lparr>ds_type = DEFINED_TYPE_COMMUNITY, ds_name = rtbhCommunitySetName,
                 ds_list = [''65535:666'']\<rparr>;
          policy = \<lparr>bp_name = rtbhExportPolicyName,
                    bp_statements = [\<lparr>sm_name = ''accept-rfc7999-blackhole'',
                      sm_community_type = MATCH_ANY, sm_community_set = rtbhCommunitySetName,
                      sm_action = ROUTE_ACTION_ACCEPT\<rparr>]\<rparr>;
          assignment = \<lparr>pa_direction = POLICY_DIRECTION_EXPORT, pa_policies = [policy],
                        pa_default = ROUTE_ACTION_REJECT\<rparr>
      in (set, policy, assignment))"

definition buildPeerGroup :: "config \<Rightarrow> peer_group" where
  "buildPeerGroup c =
     (let (_, policy, assignment) = buildRTBHExportPolicy;
          assignment = assignment\<lparr>pa_policies := [policy]\<rparr>
      in \<lparr>pg_name = ''rtbh-dynamic'', pg_peer_asn = 0, pg_passive = True,
          pg_import = \<lparr>pa_direction = POLICY_DIRECTION_UNKNOWN, pa_policies = [],
                       pa_default = ROUTE_ACTION_REJECT\<rparr>,
          pg_export = assignment\<rparr>)"

section \<open>GoBGP\<close>

datatype family = RF_IPv4_UC | RF_IPv6_UC

datatype peer_session = SESSION_STATE_ESTABLISHED | SESSION_OTHER string

record ('n, 'a) path =
  path_Family :: family
  path_Nlri :: 'n
  path_Attrs :: "'a list"
  path_Withdrawal :: bool

record start_request =
  sr_Asn :: "32 word"
  sr_RouterId :: string
  sr_ListenAddresses :: "string list"
  sr_ListenPort :: "32 word"

record peer_info =
  pi_address :: string
  pi_asn :: "32 word"
  pi_state :: peer_session

text \<open>The constructors of \<open>pkg/packet/bgp\<close> and the methods of \<open>server.BgpServer\<close>.\<close>

record ('g, 'n, 'a) gobgp =
  gb_NewIPAddrPrefix :: "prefix \<Rightarrow> string + 'n"
  gb_NewPathAttributeOrigin :: "nat \<Rightarrow> 'a"
  gb_NewPathAttributeNextHop :: "addr \<Rightarrow> string + 'a"
  gb_NewPathAttributeMpReachNLRI :: "family \<Rightarrow> 'n list \<Rightarrow> addr \<Rightarrow> string + 'a"
  gb_NewPathAttributeCommunities :: "32 word list \<Rightarrow> 'a"
  gb_Serve :: "'g \<Rightarrow> 'g"
  gb_StartBgp :: "start_request \<Rightarrow> 'g \<Rightarrow> string option \<times> 'g"
  gb_StopBgp :: "'g \<Rightarrow> string option \<times> 'g"
  gb_AddDefinedSet :: "defined_set \<Rightarrow> 'g \<Rightarrow> string option \<times> 'g"
  gb_AddPolicy :: "bgp_policy \<Rightarrow> 'g \<Rightarrow> string option \<times> 'g"
  gb_AddPeerGroup :: "peer_group \<Rightarrow> 'g \<Rightarrow> string option \<times> 'g"
  gb_AddDynamicNeighbor :: "string \<Rightarrow> string \<Rightarrow> 'g \<Rightarrow> string option \<times> 'g"
  gb_WatchPeers :: "'g \<Rightarrow> string option \<times> 'g"
  gb_CancelWatch :: "'g \<Rightarrow> 'g"
  gb_ListPeer :: "'g \<Rightarrow> peer_info list \<times> string option"
  gb_ResetPeer :: "string \<Rightarrow> string \<Rightarrow> 'g \<Rightarrow> string option \<times> 'g"
  gb_AddPath :: "('n, 'a) path \<Rightarrow> 'g \<Rightarrow> string option \<times> 'g"
  gb_DeletePath :: "('n, 'a) path \<Rightarrow> 'g \<Rightarrow> string option \<times> 'g"

definition BGP_ORIGIN_ATTR_TYPE_INCOMPLETE :: nat where
  "BGP_ORIGIN_ATTR_TYPE_INCOMPLETE = 2"

definition routePath :: "('g, 'n, 'a) gobgp \<Rightarrow> route \<Rightarrow> engine_error + ('n, 'a) path" where
  "routePath G r =
     (let prefix = rt_Prefix r; hop = rt_NextHop r in
      if \<not> prefix_IsValid prefix \<or> \<not> addr_IsValid hop then Inl RouteIncomplete
      else if Is4 (pfx_addr prefix) \<noteq> Is4 hop then Inl RouteFamiliesDiffer
      else case gb_NewIPAddrPrefix G prefix of
        Inl e \<Rightarrow> Inl (GobgpFailed e)
      | Inr nlri \<Rightarrow>
          let attrs = [gb_NewPathAttributeOrigin G BGP_ORIGIN_ATTR_TYPE_INCOMPLETE];
              next_hop = (if Is4 (pfx_addr prefix) then gb_NewPathAttributeNextHop G hop
                          else gb_NewPathAttributeMpReachNLRI G RF_IPv6_UC [nlri] hop)
          in case next_hop of
               Inl e \<Rightarrow> Inl (GobgpFailed e)
             | Inr attr \<Rightarrow>
                 let attrs = attrs @ [attr];
                     attrs = (if length (rt_Communities r) > 0
                              then attrs @ [gb_NewPathAttributeCommunities G (rt_Communities r)]
                              else attrs);
                     family = (if Is6 (pfx_addr prefix) then RF_IPv6_UC else RF_IPv4_UC)
                 in Inr \<lparr>path_Family = family, path_Nlri = nlri, path_Attrs = attrs,
                         path_Withdrawal = False\<rparr>)"

section \<open>Engine\<close>

record ('g, 'n, 'a) engine =
  ops :: "('g, 'n, 'a) gobgp"
  eng_config :: config
  bgp :: 'g
  eng_policy :: session_policy
  running :: bool
  watchCancel :: bool

definition engine_New :: "('g, 'n, 'a) gobgp \<Rightarrow> 'g \<Rightarrow> config \<Rightarrow> engine_error + ('g, 'n, 'a) engine" where
  "engine_New G g0 c =
     (case validate_config c of
        Some e \<Rightarrow> Inl e
      | None \<Rightarrow> Inr \<lparr>ops = G, eng_config = c, bgp = g0, eng_policy = newSessionPolicy c,
                     running = False, watchCancel = False\<rparr>)"

text \<open>Fallible calls on GoBGP run in order until one fails.\<close>

fun run_calls :: "('g \<Rightarrow> string option \<times> 'g) list \<Rightarrow> 'g \<Rightarrow> string option \<times> 'g" where
  "run_calls [] g = (None, g)"
| "run_calls (f # fs) g =
     (case f g of (Some e, g') \<Rightarrow> (Some e, g') | (None, g') \<Rightarrow> run_calls fs g')"

definition start_request_of :: "config \<Rightarrow> start_request" where
  "start_request_of c = \<lparr>sr_Asn = LocalASN c, sr_RouterId = addr_String (RouterID c),
     sr_ListenAddresses = ListenAddresses c, sr_ListenPort = ListenPort c\<rparr>"

definition setup_calls :: "('g, 'n, 'a) gobgp \<Rightarrow> config \<Rightarrow> ('g \<Rightarrow> string option \<times> 'g) list" where
  "setup_calls G c =
     (let (set, policy, _) = buildRTBHExportPolicy in
      [gb_AddDefinedSet G set, gb_AddPolicy G policy, gb_AddPeerGroup G (buildPeerGroup c)] @
      map (\<lambda>prefix. gb_AddDynamicNeighbor G (prefix_String prefix) ''rtbh-dynamic'') (ListenRanges c))"

definition Start :: "('g, 'n, 'a) engine \<Rightarrow> engine_error option \<times> ('g, 'n, 'a) engine" where
  "Start e =
     (if running e then (Some AlreadyRunning, e)
      else
        let G = ops e; g = gb_Serve G (bgp e) in
        case gb_StartBgp G (start_request_of (eng_config e)) g of
          (Some x, g) \<Rightarrow> (Some (GobgpFailed x), e\<lparr>bgp := g\<rparr>)
        | (None, g) \<Rightarrow>
            (case run_calls (setup_calls G (eng_config e)) g of
               (Some x, g) \<Rightarrow> (Some (GobgpFailed x), e\<lparr>bgp := snd (gb_StopBgp G g)\<rparr>)
             | (None, g) \<Rightarrow>
                 (case gb_WatchPeers G g of
                    (Some x, g) \<Rightarrow> (Some (GobgpFailed x),
                       e\<lparr>bgp := snd (gb_StopBgp G (gb_CancelWatch G g)), watchCancel := True\<rparr>)
                  | (None, g) \<Rightarrow> (None, e\<lparr>bgp := g, watchCancel := True, running := True\<rparr>))))"

definition Stop :: "('g, 'n, 'a) engine \<Rightarrow> engine_error option \<times> ('g, 'n, 'a) engine" where
  "Stop e =
     (if \<not> running e then (None, e)
      else
        let G = ops e;
            g = (if watchCancel e then gb_CancelWatch G (bgp e) else bgp e);
            (x, g) = gb_StopBgp G g
        in (map_option GobgpFailed x, e\<lparr>running := False, watchCancel := False, bgp := g\<rparr>))"

fun session_string :: "peer_session \<Rightarrow> string" where
  "session_string SESSION_STATE_ESTABLISHED = ''SESSION_STATE_ESTABLISHED''"
| "session_string (SESSION_OTHER s) = s"

fun add_peer :: "peer_info \<Rightarrow> status \<Rightarrow> status" where
  "add_peer p st =
     (let address = (case ParseAddr (pi_address p) of Some a \<Rightarrow> a | None \<Rightarrow> NoAddr);
          st = st\<lparr>st_Peers := st_Peers st @ [\<lparr>p_Address = address, p_ASN = pi_asn p,
                 p_State = session_string (pi_state p)\<rparr>]\<rparr>
      in if pi_state p = SESSION_STATE_ESTABLISHED then st\<lparr>st_Sessions := st_Sessions st + 1\<rparr> else st)"

definition Status :: "('g, 'n, 'a) engine \<Rightarrow> status \<times> engine_error option" where
  "Status e =
     (let c = eng_config e;
          st = \<lparr>st_Running = running e, st_LocalASN = LocalASN c, st_RouterID = RouterID c,
                st_ListenPort = ListenPort c, st_ListenRanges = ListenRanges c,
                st_Sessions = 0, st_Peers = []\<rparr>
      in if \<not> running e then (st, None)
         else let (ps, x) = gb_ListPeer (ops e) (bgp e)
              in (fold add_peer ps st, map_option GobgpFailed x))"

text \<open>A peer event carries the neighbour address, its ASN and whether the session is established.\<close>

record peer_event =
  pe_address :: addr
  pe_asn :: "32 word"
  pe_established :: bool

definition onPeerUpdate :: "peer_event \<Rightarrow> ('g, 'n, 'a) engine \<Rightarrow> ('g, 'n, 'a) engine" where
  "onPeerUpdate ev e =
     (let address = addr_String (pe_address ev) in
      if \<not> pe_established ev then e\<lparr>eng_policy := releasePeer address (eng_policy e)\<rparr>
      else
        let (admitted, p) = admitPeer address (pe_asn ev) (eng_policy e);
            e = e\<lparr>eng_policy := p\<rparr>
        in if admitted then e
           else e\<lparr>bgp := snd (gb_ResetPeer (ops e) address ''remote ASN or session limit rejected'' (bgp e))\<rparr>)"

definition Announce :: "route \<Rightarrow> ('g, 'n, 'a) engine \<Rightarrow> engine_error option \<times> ('g, 'n, 'a) engine" where
  "Announce r e =
     (if \<not> running e then (Some EngineNotRunning, e)
      else case routePath (ops e) r of
        Inl x \<Rightarrow> (Some x, e)
      | Inr path \<Rightarrow>
          let (x, g) = gb_AddPath (ops e) path (bgp e)
          in (map_option GobgpFailed x, e\<lparr>bgp := g\<rparr>))"

definition Withdraw :: "route \<Rightarrow> ('g, 'n, 'a) engine \<Rightarrow> engine_error option \<times> ('g, 'n, 'a) engine" where
  "Withdraw r e =
     (if \<not> running e then (Some EngineNotRunning, e)
      else case routePath (ops e) r of
        Inl x \<Rightarrow> (Some x, e)
      | Inr path \<Rightarrow>
          let (x, g) = gb_DeletePath (ops e) (path\<lparr>path_Withdrawal := True\<rparr>) (bgp e)
          in (map_option GobgpFailed x, e\<lparr>bgp := g\<rparr>))"

section \<open>Session policy invariant\<close>

text \<open>Every admitted peer has an allowed ASN, and there are never more than the configured number.\<close>

definition session_inv :: "session_policy \<Rightarrow> bool" where
  "session_inv p =
     (wf_map (sp_peers p) \<and> int (length (sp_peers p)) \<le> sp_max p \<and>
      (sp_allowed p \<noteq> [] \<longrightarrow> (\<forall>(a, n) \<in> set (sp_peers p). n \<in> fst ` set (sp_allowed p))))"

lemma keys_fold_update: "fst ` set (fold (\<lambda>k m. AList.update k () m) ks m) = fst ` set m \<union> set ks"
  by (induction ks arbitrary: m) auto

lemma session_inv_new [inv_intros]: "0 \<le> MaxSessions c \<Longrightarrow> session_inv (newSessionPolicy c)"
  by (simp add: session_inv_def newSessionPolicy_def)

lemma admitPeer_frame [frame_simps]:
  "sp_allowed (snd (admitPeer a n p)) = sp_allowed p" "sp_max (snd (admitPeer a n p)) = sp_max p"
  by (auto simp: admitPeer_def split: option.splits)

lemma releasePeer_frame [frame_simps]:
  "sp_allowed (releasePeer a p) = sp_allowed p" "sp_max (releasePeer a p) = sp_max p"
  by (simp_all add: releasePeer_def)

lemma session_inv_admit [inv_intros]:
  assumes "session_inv p"
  shows "session_inv (snd (admitPeer a n p))"
proof (cases "lookup (sp_peers p) a")
  case None
  then have new: "a \<notin> fst ` set (sp_peers p)" by (simp add: lookup_None_iff)
  show ?thesis
  proof (cases "length (sp_allowed p) > 0 \<and> lookup (sp_allowed p) n = None \<or> int (length (sp_peers p)) \<ge> sp_max p")
    case False
    then have n: "sp_allowed p \<noteq> [] \<Longrightarrow> n \<in> fst ` set (sp_allowed p)"
      by (auto simp: lookup_None_iff)
    have "\<forall>(b, m) \<in> set (AList.update a n (sp_peers p)).
        sp_allowed p \<noteq> [] \<longrightarrow> m \<in> fst ` set (sp_allowed p)"
      using set_update_subset [of a n "sp_peers p"] n assms unfolding session_inv_def by fastforce
    with False None new assms show ?thesis
      by (auto simp: session_inv_def admitPeer_def length_update)
  qed (use None assms in \<open>auto simp: admitPeer_def\<close>)
qed (use assms in \<open>simp add: admitPeer_def\<close>)

lemma session_inv_release [inv_intros]:
  assumes "session_inv p"
  shows "session_inv (releasePeer a p)"
proof -
  have "int (length (AList.delete a (sp_peers p))) \<le> sp_max p"
    using length_delete_le [of a "sp_peers p"] assms by (simp add: session_inv_def)
  moreover have "sp_allowed p \<noteq> [] \<Longrightarrow>
      \<forall>(b, m) \<in> set (AList.delete a (sp_peers p)). m \<in> fst ` set (sp_allowed p)"
    using set_delete_subset [of a "sp_peers p"] assms unfolding session_inv_def by fast
  ultimately show ?thesis
    using assms by (simp add: session_inv_def releasePeer_def)
qed

lemma admitPeer_iff:
  "fst (admitPeer a n p) \<longleftrightarrow> lookup (sp_peers p) a = Some n \<or>
     (lookup (sp_peers p) a = None \<and> (sp_allowed p = [] \<or> n \<in> fst ` set (sp_allowed p)) \<and>
      int (length (sp_peers p)) < sp_max p)"
  by (cases "lookup (sp_peers p) a")
    (auto simp: admitPeer_def not_le lookup_None_iff [of "sp_allowed p"])

lemma admitPeer_admitted: "fst (admitPeer a n p) \<Longrightarrow> lookup (sp_peers (snd (admitPeer a n p))) a = Some n"
  by (auto simp: admitPeer_def split: option.splits if_splits)

lemma onPeerUpdate_frame [frame_simps]:
  "ops (onPeerUpdate ev e) = ops e" "eng_config (onPeerUpdate ev e) = eng_config e"
  "running (onPeerUpdate ev e) = running e"
  by (simp_all add: onPeerUpdate_def Let_def split: prod.splits)

lemma session_inv_onPeerUpdate [inv_intros]:
  assumes "session_inv (eng_policy e)"
  shows "session_inv (eng_policy (onPeerUpdate ev e))"
  using session_inv_admit [OF assms] session_inv_release [OF assms]
  by (auto simp: onPeerUpdate_def Let_def split: prod.splits)
    (metis snd_conv)+

lemma onPeerUpdate_session_frame [frame_simps]:
  "sp_allowed (eng_policy (onPeerUpdate ev e)) = sp_allowed (eng_policy e)"
  "sp_max (eng_policy (onPeerUpdate ev e)) = sp_max (eng_policy e)"
  using admitPeer_frame [of "addr_String (pe_address ev)" "pe_asn ev" "eng_policy e"]
  by (auto simp: onPeerUpdate_def Let_def releasePeer_frame split: prod.splits)

section \<open>The lifecycle as a step relation\<close>

text \<open>Everything that can happen to an engine, in any order.\<close>

inductive engine_step :: "('g, 'n, 'a) engine \<Rightarrow> ('g, 'n, 'a) engine \<Rightarrow> bool" where
  step_Start: "Start e = (x, e') \<Longrightarrow> engine_step e e'"
| step_Stop: "Stop e = (x, e') \<Longrightarrow> engine_step e e'"
| step_Peer: "engine_step e (onPeerUpdate ev e)"
| step_Announce: "Announce r e = (x, e') \<Longrightarrow> engine_step e e'"
| step_Withdraw: "Withdraw r e = (x, e') \<Longrightarrow> engine_step e e'"

inductive_cases engine_stepE: "engine_step e e'"

inductive engine_reachable :: "('g, 'n, 'a) engine \<Rightarrow> ('g, 'n, 'a) engine \<Rightarrow> bool" for e0 where
  reach_init: "engine_reachable e0 e0"
| reach_step: "engine_reachable e0 e \<Longrightarrow> engine_step e e' \<Longrightarrow> engine_reachable e0 e'"

lemma Start_frame [frame_simps]:
  "Start e = (x, e') \<Longrightarrow> ops e' = ops e \<and> eng_config e' = eng_config e \<and> eng_policy e' = eng_policy e"
  by (auto simp: Start_def Let_def split: if_splits prod.splits option.splits)

lemma Stop_frame [frame_simps]:
  "Stop e = (x, e') \<Longrightarrow> ops e' = ops e \<and> eng_config e' = eng_config e \<and> eng_policy e' = eng_policy e"
  by (auto simp: Stop_def Let_def split: if_splits prod.splits)

lemma Announce_frame [frame_simps]:
  "Announce r e = (x, e') \<Longrightarrow> ops e' = ops e \<and> eng_config e' = eng_config e \<and>
     eng_policy e' = eng_policy e \<and> running e' = running e"
  by (auto simp: Announce_def Let_def split: if_splits prod.splits sum.splits)

lemma Withdraw_frame [frame_simps]:
  "Withdraw r e = (x, e') \<Longrightarrow> ops e' = ops e \<and> eng_config e' = eng_config e \<and>
     eng_policy e' = eng_policy e \<and> running e' = running e"
  by (auto simp: Withdraw_def Let_def split: if_splits prod.splits sum.splits)

definition engine_inv :: "('g, 'n, 'a) engine \<Rightarrow> bool" where
  "engine_inv e =
     (validate_config (eng_config e) = None \<and> session_inv (eng_policy e) \<and>
      sp_max (eng_policy e) = MaxSessions (eng_config e) \<and>
      fst ` set (sp_allowed (eng_policy e)) = set (AllowedASNs (eng_config e)))"

lemma engine_inv_New [inv_intros]:
  assumes "engine_New G g c = Inr e"
  shows "engine_inv e"
proof -
  have v: "validate_config c = None" using assms by (auto simp: engine_New_def split: option.splits)
  then have "1 \<le> MaxSessions c" by (auto simp: validate_config_def split: if_splits option.splits)
  then have "session_inv (newSessionPolicy c)" by (intro session_inv_new) simp
  moreover have "sp_max (newSessionPolicy c) = MaxSessions c"
    "fst ` set (sp_allowed (newSessionPolicy c)) = set (AllowedASNs c)"
    using keys_fold_update [of "AllowedASNs c" "[]"] by (simp_all add: newSessionPolicy_def)
  moreover have "eng_config e = c" "eng_policy e = newSessionPolicy c"
    using assms v by (auto simp: engine_New_def)
  ultimately show ?thesis using v by (simp add: engine_inv_def)
qed

lemma engine_inv_step [inv_intros]: "engine_step e e' \<Longrightarrow> engine_inv e \<Longrightarrow> engine_inv e'"
  by (erule engine_stepE)
    (auto simp: engine_inv_def frame_simps session_inv_onPeerUpdate dest!: Start_frame Stop_frame
      Announce_frame Withdraw_frame)

lemma engine_inv_reachable: "engine_reachable e0 e \<Longrightarrow> engine_inv e0 \<Longrightarrow> engine_inv e"
  by (induction rule: engine_reachable.induct) (auto intro: engine_inv_step)

lemma engine_config_step: "engine_step e e' \<Longrightarrow> eng_config e' = eng_config e"
  by (erule engine_stepE) (auto simp: frame_simps dest!: Start_frame Stop_frame Announce_frame Withdraw_frame)

lemma engine_config_reachable: "engine_reachable e0 e \<Longrightarrow> eng_config e = eng_config e0"
  by (induction rule: engine_reachable.induct) (auto simp: engine_config_step)

section \<open>The local table\<close>

text \<open>
  What the engine relies on of GoBGP: \<open>view\<close> is the table of local paths by NLRI. Adding a path
  without an error installs it under its NLRI, deleting one removes it, and a call that fails
  leaves the table as it was. Distinct canonical prefixes have distinct NLRIs.
\<close>

definition gobgp_contract :: "('g, 'n, 'a) gobgp \<Rightarrow> ('g \<Rightarrow> 'n \<Rightarrow> ('n, 'a) path option) \<Rightarrow> bool" where
  "gobgp_contract G view =
     ((\<forall>p g x g'. gb_AddPath G p g = (x, g') \<longrightarrow>
         view g' = (if x = None then (view g)(path_Nlri p \<mapsto> p) else view g)) \<and>
      (\<forall>p g x g'. gb_DeletePath G p g = (x, g') \<longrightarrow>
         view g' = (if x = None then (view g)(path_Nlri p := None) else view g)) \<and>
      (\<forall>p q n. canonical p \<and> canonical q \<and> gb_NewIPAddrPrefix G p = Inr n \<and>
         gb_NewIPAddrPrefix G q = Inr n \<longrightarrow> p = q))"

lemma contract_add:
  "gobgp_contract G view \<Longrightarrow> gb_AddPath G p g = (x, g') \<Longrightarrow>
     view g' = (if x = None then (view g)(path_Nlri p \<mapsto> p) else view g)"
  unfolding gobgp_contract_def by blast

lemma contract_delete:
  "gobgp_contract G view \<Longrightarrow> gb_DeletePath G p g = (x, g') \<Longrightarrow>
     view g' = (if x = None then (view g)(path_Nlri p := None) else view g)"
  unfolding gobgp_contract_def by blast

lemma contract_nlri:
  "gobgp_contract G view \<Longrightarrow> canonical p \<Longrightarrow> canonical q \<Longrightarrow> gb_NewIPAddrPrefix G p = Inr n \<Longrightarrow>
     gb_NewIPAddrPrefix G q = Inr n \<Longrightarrow> p = q"
  unfolding gobgp_contract_def by blast

text \<open>The table by prefix.\<close>

definition rib_of :: "('g, 'n, 'a) gobgp \<Rightarrow> ('g \<Rightarrow> 'n \<Rightarrow> ('n, 'a) path option) \<Rightarrow> 'g
    \<Rightarrow> prefix \<Rightarrow> ('n, 'a) path option" where
  "rib_of G view g p =
     (if canonical p then (case gb_NewIPAddrPrefix G p of Inl _ \<Rightarrow> None | Inr n \<Rightarrow> view g n) else None)"

definition route_encoding :: "('g, 'n, 'a) gobgp \<Rightarrow> route \<Rightarrow> ('n, 'a) path option" where
  "route_encoding G r = (case routePath G r of Inl _ \<Rightarrow> None | Inr p \<Rightarrow> Some p)"

lemma routePath_nlri:
  "routePath G r = Inr p \<Longrightarrow> gb_NewIPAddrPrefix G (rt_Prefix r) = Inr (path_Nlri p)"
  by (auto simp: routePath_def Let_def split: if_splits sum.splits)

lemma rib_of_upd:
  assumes "gobgp_contract G view" "canonical p" "gb_NewIPAddrPrefix G p = Inr n"
    and "view g' = (view g)(n := y)"
  shows "rib_of G view g' = (rib_of G view g)(p := y)"
proof
  fix q
  show "rib_of G view g' q = ((rib_of G view g)(p := y)) q"
  proof (cases "canonical q \<and> q \<noteq> p")
    case True
    then have "m \<noteq> n" if "gb_NewIPAddrPrefix G q = Inr m" for m
      using contract_nlri [OF assms(1,2) _ assms(3), of q] that by blast
    with True show ?thesis
      by (cases "gb_NewIPAddrPrefix G q") (simp_all add: rib_of_def assms(4))
  next
    case False
    then consider "q = p" | "q \<noteq> p" "\<not> canonical q" by blast
    then show ?thesis
    proof cases
      case 1
      then show ?thesis unfolding rib_of_def by (simp add: assms(2-4))
    next
      case 2
      then show ?thesis unfolding rib_of_def by simp
    qed
  qed
qed

lemma rib_of_cong: "view g' = view g \<Longrightarrow> rib_of G view g' = rib_of G view g"
  by (rule ext) (simp add: rib_of_def split: sum.split)

text \<open>The interface of the \<open>Engine\<close> of \<open>internal/runtime/server.go\<close> that changes routes.\<close>

locale route_engine =
  fixes announce :: "route \<Rightarrow> 'e \<Rightarrow> 'x option \<times> 'e"
    and withdraw :: "route \<Rightarrow> 'e \<Rightarrow> 'x option \<times> 'e"
    and rib :: "'e \<Rightarrow> prefix \<Rightarrow> 'y option"
    and encode :: "'e \<Rightarrow> route \<Rightarrow> 'y option"
    and einv :: "'e \<Rightarrow> bool"
  assumes announce_ok: "einv e \<Longrightarrow> canonical (rt_Prefix r) \<Longrightarrow> announce r e = (None, e') \<Longrightarrow>
      einv e' \<and> encode e' = encode e \<and> encode e r \<noteq> None \<and>
      rib e' = (rib e)(rt_Prefix r := encode e r)"
    and announce_err: "einv e \<Longrightarrow> announce r e = (Some x, e') \<Longrightarrow>
      einv e' \<and> encode e' = encode e \<and> rib e' = rib e"
    and withdraw_ok: "einv e \<Longrightarrow> canonical (rt_Prefix r) \<Longrightarrow> withdraw r e = (None, e') \<Longrightarrow>
      einv e' \<and> encode e' = encode e \<and> rib e' = (rib e)(rt_Prefix r := None)"
    and withdraw_err: "einv e \<Longrightarrow> withdraw r e = (Some x, e') \<Longrightarrow>
      einv e' \<and> encode e' = encode e \<and> rib e' = rib e"

text \<open>The engine beside the table view of its GoBGP object.\<close>

type_synonym ('g, 'n, 'a) viewed = "('g \<Rightarrow> 'n \<Rightarrow> ('n, 'a) path option) \<times> ('g, 'n, 'a) engine"

definition announce_viewed :: "route \<Rightarrow> ('g, 'n, 'a) viewed \<Rightarrow> engine_error option \<times> ('g, 'n, 'a) viewed" where
  "announce_viewed r ve = (case Announce r (snd ve) of (x, e) \<Rightarrow> (x, fst ve, e))"

definition withdraw_viewed :: "route \<Rightarrow> ('g, 'n, 'a) viewed \<Rightarrow> engine_error option \<times> ('g, 'n, 'a) viewed" where
  "withdraw_viewed r ve = (case Withdraw r (snd ve) of (x, e) \<Rightarrow> (x, fst ve, e))"

definition rib_viewed :: "('g, 'n, 'a) viewed \<Rightarrow> prefix \<Rightarrow> ('n, 'a) path option" where
  "rib_viewed ve = rib_of (ops (snd ve)) (fst ve) (bgp (snd ve))"

definition encode_viewed :: "('g, 'n, 'a) viewed \<Rightarrow> route \<Rightarrow> ('n, 'a) path option" where
  "encode_viewed ve = route_encoding (ops (snd ve))"

definition contract_viewed :: "('g, 'n, 'a) viewed \<Rightarrow> bool" where
  "contract_viewed ve = gobgp_contract (ops (snd ve)) (fst ve)"

lemma Announce_cases [consumes 1, case_names stopped path call]:
  assumes "Announce r e = (x, e')"
    and "\<not> running e \<Longrightarrow> x = Some EngineNotRunning \<Longrightarrow> e' = e \<Longrightarrow> thesis"
    and "\<And>y. running e \<Longrightarrow> routePath (ops e) r = Inl y \<Longrightarrow> x = Some y \<Longrightarrow> e' = e \<Longrightarrow> thesis"
    and "\<And>p y g. running e \<Longrightarrow> routePath (ops e) r = Inr p \<Longrightarrow> gb_AddPath (ops e) p (bgp e) = (y, g) \<Longrightarrow>
       x = map_option GobgpFailed y \<Longrightarrow> e' = e\<lparr>bgp := g\<rparr> \<Longrightarrow> thesis"
  shows thesis
  using assms by (auto simp: Announce_def Let_def split: if_splits sum.splits prod.splits)

lemma Withdraw_cases [consumes 1, case_names stopped path call]:
  assumes "Withdraw r e = (x, e')"
    and "\<not> running e \<Longrightarrow> x = Some EngineNotRunning \<Longrightarrow> e' = e \<Longrightarrow> thesis"
    and "\<And>y. running e \<Longrightarrow> routePath (ops e) r = Inl y \<Longrightarrow> x = Some y \<Longrightarrow> e' = e \<Longrightarrow> thesis"
    and "\<And>p y g. running e \<Longrightarrow> routePath (ops e) r = Inr p \<Longrightarrow>
       gb_DeletePath (ops e) (p\<lparr>path_Withdrawal := True\<rparr>) (bgp e) = (y, g) \<Longrightarrow>
       x = map_option GobgpFailed y \<Longrightarrow> e' = e\<lparr>bgp := g\<rparr> \<Longrightarrow> thesis"
  shows thesis
  using assms by (auto simp: Withdraw_def Let_def split: if_splits sum.splits prod.splits)

lemma announce_viewed_step:
  assumes "contract_viewed ve" "canonical (rt_Prefix r) \<or> x \<noteq> None" "announce_viewed r ve = (x, ve')"
  shows "contract_viewed ve' \<and> encode_viewed ve' = encode_viewed ve \<and>
     (if x = None then encode_viewed ve r \<noteq> None \<and>
        rib_viewed ve' = (rib_viewed ve)(rt_Prefix r := encode_viewed ve r)
      else rib_viewed ve' = rib_viewed ve)"
proof -
  obtain view e e' where ve: "ve = (view, e)" "ve' = (view, e')" "Announce r e = (x, e')"
    using assms(3) by (cases ve) (auto simp: announce_viewed_def split: prod.splits)
  note defs = contract_viewed_def encode_viewed_def rib_viewed_def route_encoding_def
  from ve(3) show ?thesis
  proof (cases rule: Announce_cases)
    case (call p y g)
    note view = contract_add [OF _ call(3), of view]
    show ?thesis
    proof (cases y)
      case None
      then have "rib_of (ops e) view g = (rib_of (ops e) view (bgp e))(rt_Prefix r \<mapsto> p)"
        using rib_of_upd [OF _ _ routePath_nlri [OF call(2)]] view assms(1,2) call(4) ve
        by (simp add: defs)
      with None call assms(1) ve show ?thesis by (simp add: defs)
    next
      case (Some z)
      with view assms(1) ve have "rib_of (ops e) view g = rib_of (ops e) view (bgp e)"
        by (intro rib_of_cong) (simp add: defs)
      with Some call assms(1) ve show ?thesis by (simp add: defs)
    qed
  qed (use assms(1) ve in \<open>simp_all add: defs\<close>)
qed

lemma withdraw_viewed_step:
  assumes "contract_viewed ve" "canonical (rt_Prefix r) \<or> x \<noteq> None" "withdraw_viewed r ve = (x, ve')"
  shows "contract_viewed ve' \<and> encode_viewed ve' = encode_viewed ve \<and>
     (if x = None then rib_viewed ve' = (rib_viewed ve)(rt_Prefix r := None)
      else rib_viewed ve' = rib_viewed ve)"
proof -
  obtain view e e' where ve: "ve = (view, e)" "ve' = (view, e')" "Withdraw r e = (x, e')"
    using assms(3) by (cases ve) (auto simp: withdraw_viewed_def split: prod.splits)
  note defs = contract_viewed_def encode_viewed_def rib_viewed_def route_encoding_def
  from ve(3) show ?thesis
  proof (cases rule: Withdraw_cases)
    case (call p y g)
    note view = contract_delete [OF _ call(3), of view]
    show ?thesis
    proof (cases y)
      case None
      then have "rib_of (ops e) view g = (rib_of (ops e) view (bgp e))(rt_Prefix r := None)"
        using rib_of_upd [OF _ _ routePath_nlri [OF call(2)]] view assms(1,2) call(4) ve
        by (simp add: defs)
      with None call assms(1) ve show ?thesis by (simp add: defs)
    next
      case (Some z)
      with view assms(1) ve have "rib_of (ops e) view g = rib_of (ops e) view (bgp e)"
        by (intro rib_of_cong) (simp add: defs)
      with Some call assms(1) ve show ?thesis by (simp add: defs)
    qed
  qed (use assms(1) ve in \<open>simp_all add: defs\<close>)
qed

interpretation bgp_engine: route_engine announce_viewed withdraw_viewed rib_viewed encode_viewed
  contract_viewed
proof unfold_locales
  fix ve :: "('a, 'b, 'c) viewed" and r e' x
  assume inv: "contract_viewed ve"
  show "contract_viewed e' \<and> encode_viewed e' = encode_viewed ve \<and> encode_viewed ve r \<noteq> None \<and>
      rib_viewed e' = (rib_viewed ve)(rt_Prefix r := encode_viewed ve r)"
    if "canonical (rt_Prefix r)" "announce_viewed r ve = (None, e')"
    using announce_viewed_step [OF inv _ that(2)] that(1) by simp
  show "contract_viewed e' \<and> encode_viewed e' = encode_viewed ve \<and>
      rib_viewed e' = (rib_viewed ve)(rt_Prefix r := None)"
    if "canonical (rt_Prefix r)" "withdraw_viewed r ve = (None, e')"
    using withdraw_viewed_step [OF inv _ that(2)] that(1) by simp
  show "contract_viewed e' \<and> encode_viewed e' = encode_viewed ve \<and> rib_viewed e' = rib_viewed ve"
    if "announce_viewed r ve = (Some x, e')"
    using announce_viewed_step [OF inv _ that] by simp
  show "contract_viewed e' \<and> encode_viewed e' = encode_viewed ve \<and> rib_viewed e' = rib_viewed ve"
    if "withdraw_viewed r ve = (Some x, e')"
    using withdraw_viewed_step [OF inv _ that] by simp
qed

section \<open>A table in memory\<close>

text \<open>
  A concrete GoBGP object, for the instances below: the local table, with a flag for a started
  server. It meets the contract.
\<close>

datatype mem_attr = Origin nat | NextHop addr | MpReach family "prefix list" addr | Communities "32 word list"

type_synonym mem_state = "(prefix, (prefix, mem_attr) path) gomap \<times> bool"

definition mem_gobgp :: "(mem_state, prefix, mem_attr) gobgp" where
  "mem_gobgp =
     \<lparr>gb_NewIPAddrPrefix = Inr, gb_NewPathAttributeOrigin = Origin,
      gb_NewPathAttributeNextHop = (\<lambda>a. Inr (NextHop a)),
      gb_NewPathAttributeMpReachNLRI = (\<lambda>f ns a. Inr (MpReach f ns a)),
      gb_NewPathAttributeCommunities = Communities,
      gb_Serve = id, gb_StartBgp = (\<lambda>_ (t, b). if b then (Some ''started'', t, b) else (None, t, True)),
      gb_StopBgp = (\<lambda>(t, b). (None, [], False)),
      gb_AddDefinedSet = (\<lambda>_ g. (None, g)), gb_AddPolicy = (\<lambda>_ g. (None, g)),
      gb_AddPeerGroup = (\<lambda>_ g. (None, g)), gb_AddDynamicNeighbor = (\<lambda>_ _ g. (None, g)),
      gb_WatchPeers = (\<lambda>g. (None, g)), gb_CancelWatch = id, gb_ListPeer = (\<lambda>g. ([], None)),
      gb_ResetPeer = (\<lambda>_ _ g. (None, g)),
      gb_AddPath = (\<lambda>p (t, b). (None, AList.update (path_Nlri p) p t, b)),
      gb_DeletePath = (\<lambda>p (t, b). (None, AList.delete (path_Nlri p) t, b))\<rparr>"

definition mem_view :: "mem_state \<Rightarrow> prefix \<Rightarrow> (prefix, mem_attr) path option" where
  "mem_view g = lookup (fst g)"

lemma mem_contract [simp]: "gobgp_contract mem_gobgp mem_view"
  unfolding gobgp_contract_def mem_gobgp_def mem_view_def by auto

definition sample_config :: config where
  "sample_config = \<lparr>LocalASN = 64512, RouterID = Addr4 1, ListenAddresses = [], ListenPort = 179,
     ListenRanges = [Prefix (Addr4 0) (Some 0)], AllowedASNs = [65001], MaxSessions = 1\<rparr>"

definition sample_engine :: "(mem_state, prefix, mem_attr) engine" where
  "sample_engine = \<lparr>ops = mem_gobgp, eng_config = sample_config, bgp = ([], False),
     eng_policy = \<lparr>sp_allowed = [(65001, ())], sp_max = 1, sp_peers = []\<rparr>, running = False,
     watchCancel = False\<rparr>"

lemma sample_validate: "validate_config sample_config = None"
  by code_simp

lemma sample_engine_New: "engine_New mem_gobgp ([], False) sample_config = Inr sample_engine"
  by (simp add: engine_New_def sample_validate)
    (simp add: sample_engine_def newSessionPolicy_def sample_config_def)

section \<open>Properties\<close>

lemma engine_inv_limits:
  assumes "engine_inv e"
  shows "session_count (eng_policy e) \<le> MaxSessions (eng_config e) \<and> wf_map (sp_peers (eng_policy e)) \<and>
     (AllowedASNs (eng_config e) \<noteq> [] \<longrightarrow>
        (\<forall>(a, n) \<in> set (sp_peers (eng_policy e)). n \<in> set (AllowedASNs (eng_config e))))"
proof -
  have "session_inv (eng_policy e)" "sp_max (eng_policy e) = MaxSessions (eng_config e)"
    "fst ` set (sp_allowed (eng_policy e)) = set (AllowedASNs (eng_config e))"
    using assms by (simp_all add: engine_inv_def)
  moreover from this(3) have "AllowedASNs (eng_config e) \<noteq> [] \<Longrightarrow> sp_allowed (eng_policy e) \<noteq> []" by auto
  ultimately show ?thesis by (simp add: session_inv_def session_count_def)
qed

text \<open>C16: whatever sequence of starts, stops, peer events, announcements and withdrawals an
  engine built from a configuration goes through, it never holds more admitted peers than
  \<open>MaxSessions\<close>, no address twice, and, when ASNs are listed, no peer of another ASN.\<close>

theorem session_limits:
  assumes "engine_New G g c = Inr e0" "engine_reachable e0 e"
  shows "session_count (eng_policy e) \<le> MaxSessions c \<and> wf_map (sp_peers (eng_policy e)) \<and>
     (AllowedASNs c \<noteq> [] \<longrightarrow> (\<forall>(a, n) \<in> set (sp_peers (eng_policy e)). n \<in> set (AllowedASNs c)))"
proof -
  have c: "eng_config e0 = c" using assms(1) by (auto simp: engine_New_def split: option.splits)
  have "engine_inv e" using engine_inv_New [OF assms(1)] engine_inv_reachable [OF assms(2)] by blast
  from engine_inv_limits [OF this] engine_config_reachable [OF assms(2)] c show ?thesis by simp
qed

lemma sample_admits:
  "engine_reachable sample_engine
     (onPeerUpdate \<lparr>pe_address = Addr4 2, pe_asn = 65001, pe_established = True\<rparr> sample_engine)"
  by (rule reach_step [OF reach_init step_Peer])

theorem session_limits_witness:
  "session_count (eng_policy
     (onPeerUpdate \<lparr>pe_address = Addr4 2, pe_asn = 65001, pe_established = True\<rparr> sample_engine)) \<le> 1"
  using session_limits [OF sample_engine_New sample_admits] by (simp add: sample_config_def)

text \<open>An established peer is either in the session table with the ASN it presented, or the
  engine resets it and leaves the table as it was; it is refused exactly when its address is held
  by another ASN, or it is new and its ASN is not allowed or the table is full.\<close>

theorem established_peer_decided:
  assumes "pe_established ev"
  shows "let a = addr_String (pe_address ev); n = pe_asn ev; p = eng_policy e;
             full = (session_count p \<ge> sp_max p);
             forbidden = (sp_allowed p \<noteq> [] \<and> n \<notin> fst ` set (sp_allowed p));
             refused = (case lookup (sp_peers p) a of Some m \<Rightarrow> m \<noteq> n | None \<Rightarrow> forbidden \<or> full)
         in if refused
            then onPeerUpdate ev e = e\<lparr>bgp := snd (gb_ResetPeer (ops e) a
                   ''remote ASN or session limit rejected'' (bgp e))\<rparr>
            else lookup (sp_peers (eng_policy (onPeerUpdate ev e))) a = Some n \<and>
                 bgp (onPeerUpdate ev e) = bgp e"
proof (cases "lookup (sp_peers (eng_policy e)) (addr_String (pe_address ev))")
  case None
  with assms show ?thesis
    by (auto simp: onPeerUpdate_def Let_def admitPeer_def session_count_def
        lookup_None_iff [of "sp_allowed (eng_policy e)"])
next
  case (Some m)
  with assms show ?thesis by (auto simp: onPeerUpdate_def Let_def admitPeer_def)
qed

theorem established_peer_decided_witness:
  "lookup (sp_peers (eng_policy
     (onPeerUpdate \<lparr>pe_address = Addr4 2, pe_asn = 65001, pe_established = True\<rparr> sample_engine)))
     (addr_String (Addr4 2)) = Some 65001"
  using established_peer_decided [of "\<lparr>pe_address = Addr4 2, pe_asn = 65001, pe_established = True\<rparr>" sample_engine]
  by (simp add: sample_engine_def session_count_def)

text \<open>Starting an engine is all or nothing. It succeeds exactly when the engine ends up
  running; when any call on GoBGP fails after \<open>StartBgp\<close> succeeded, the last thing done to the
  server is \<open>StopBgp\<close>; and the session table and configuration are not touched.\<close>

theorem Start_all_or_nothing:
  assumes "\<not> running e" "Start e = (x, e')"
  shows "(x = None \<longleftrightarrow> running e') \<and> eng_policy e' = eng_policy e \<and> eng_config e' = eng_config e \<and>
     (let start = gb_StartBgp (ops e) (start_request_of (eng_config e)) (gb_Serve (ops e) (bgp e)) in
      x \<noteq> None \<longrightarrow> (if fst start = None then \<exists>g. bgp e' = snd (gb_StopBgp (ops e) g)
                      else bgp e' = snd start))"
  using assms by (auto simp: Start_def Let_def split: prod.splits option.splits)

theorem Start_all_or_nothing_witness:
  "running (snd (Start sample_engine))"
proof -
  have "Start sample_engine = (None, snd (Start sample_engine))"
    by (simp add: Start_def Let_def sample_engine_def mem_gobgp_def setup_calls_def sample_config_def
        buildRTBHExportPolicy_def)
  from Start_all_or_nothing [OF _ this] show ?thesis by (simp add: sample_engine_def)
qed

end
