(* ===== verification/Sql_Store.thy ===== *)
theory Sql_Store
  imports Netip_Text "HOL-Library.Multiset"
begin

text \<open>
  \<open>internal/sqlstore/store.go\<close>: the SQL-backed policy store. A database is three tables, each a
  list of rows; a SQL statement is the function on tables that its text denotes, the same for the
  two upsert dialects the source writes. Which call on the driver fails is an argument: the
  position of the failing statement. What a query leaves open (the order among equal sort keys,
  the collation of \<open>LIKE\<close>) is an argument too. Instants written as RFC 3339 text keep whole
  seconds.
\<close>

section \<open>Data\<close>

record policy_item =
  it_Prefix :: string
  it_List :: string
  it_Source :: string
  it_FeedID :: string
  it_ExpiresAt :: "time option"
  it_CreatedAt :: time

record feed_source =
  fs_ID :: string
  fs_Name :: string
  fs_List :: string
  fs_URL :: string
  fs_Interval :: int
  fs_Enabled :: bool
  fs_LastSync :: string
  fs_PrefixCount :: int
  fs_LastError :: string
  fs_ExpandSubnets :: bool

record sql_audit_event =
  sa_Time :: time
  sa_Operation :: string
  sa_List :: string
  sa_Prefix :: prefix

text \<open>The rows of the tables; a nullable column is an option.\<close>

record policy_row =
  pr_prefix :: string
  pr_list :: string
  pr_source :: string
  pr_feed_id :: "string option"
  pr_expires_at :: "time option"
  pr_created_at :: time

record feed_row =
  fr_id :: string
  fr_name :: string
  fr_list :: string
  fr_url :: string
  fr_interval_sec :: int
  fr_enabled :: int
  fr_last_sync :: "string option"
  fr_prefix_count :: int
  fr_last_error :: "string option"
  fr_expand_subnets :: int

record audit_row =
  ar_timestamp_ms :: int
  ar_operation :: string
  ar_list :: string
  ar_prefix :: string

record db =
  t_feeds :: "feed_row list"
  t_policies :: "policy_row list"
  t_audit :: "audit_row list"

record sql_store =
  sql_driver :: string
  sql_db :: db

text \<open>What one connection of the pool sees: the stored tables, which are what everybody else reads, and
  the tables of the transaction it has open, if any.\<close>

record connection =
  cx_stored :: db
  cx_tx :: "db option"

datatype sql_error = SqlFailed nat | TxDone | OpenFailed string | PragmaFailed | SchemaFailed nat

section \<open>Statements\<close>

abbreviation pkey :: "policy_row \<Rightarrow> string \<times> string" where
  "pkey r \<equiv> (pr_prefix r, pr_list r)"

text \<open>\<open>INSERT ... ON CONFLICT DO UPDATE\<close>: the first argument merges the old row with the new.\<close>

fun upsert :: "('r \<Rightarrow> 'k) \<Rightarrow> ('r \<Rightarrow> 'r \<Rightarrow> 'r) \<Rightarrow> 'r \<Rightarrow> 'r list \<Rightarrow> 'r list" where
  "upsert key merge r [] = [r]"
| "upsert key merge r (x # xs) =
     (if key x = key r then merge x r # xs else x # upsert key merge r xs)"

definition delete_where :: "('r \<Rightarrow> bool) \<Rightarrow> 'r list \<Rightarrow> 'r list" where
  "delete_where P xs = filter (\<lambda>r. \<not> P r) xs"

definition update_where :: "('r \<Rightarrow> bool) \<Rightarrow> ('r \<Rightarrow> 'r) \<Rightarrow> 'r list \<Rightarrow> 'r list" where
  "update_where P f xs = map (\<lambda>r. if P r then f r else r) xs"

text \<open>One statement outside a transaction.\<close>

definition exec_one :: "nat option \<Rightarrow> (db \<Rightarrow> db) \<Rightarrow> db \<Rightarrow> sql_error option \<times> db" where
  "exec_one flt f d = (if flt = Some 0 then (Some (SqlFailed 0), d) else (None, f d))"

text \<open>The rows an iteration delivers: all of them, or those before it breaks off. \<open>rows.Next\<close> reports the
  break as the end; only \<open>rows.Err\<close> tells it. A text column that is never null always scans.\<close>

definition read_rows :: "nat option \<Rightarrow> 'r list \<Rightarrow> 'r list" where
  "read_rows broken xs = (case broken of None \<Rightarrow> xs | Some k \<Rightarrow> take k xs)"

section \<open>Transactions of \<open>database/sql\<close>\<close>

text \<open>The statements of a transaction are numbered from 0: the begin, the statements, the commit. They
  read and write the tables of the transaction; the commit stores them. A commit that fails has
  stored nothing and the transaction is over, which is the documented behaviour of the databases. A
  rollback after the end of the transaction does nothing.\<close>

definition BeginTx :: "nat option \<Rightarrow> connection \<Rightarrow> sql_error option \<times> connection" where
  "BeginTx flt c = (if flt = Some 0 then (Some (SqlFailed 0), c) else (None, c\<lparr>cx_tx := Some (cx_stored c)\<rparr>))"

definition tx_Query :: "nat option \<Rightarrow> nat \<Rightarrow> (db \<Rightarrow> 'a) \<Rightarrow> connection \<Rightarrow> sql_error + 'a" where
  "tx_Query flt i q c =
     (case cx_tx c of
        None \<Rightarrow> Inl TxDone
      | Some w \<Rightarrow> if flt = Some i then Inl (SqlFailed i) else Inr (q w))"

fun tx_Exec :: "nat option \<Rightarrow> nat \<Rightarrow> (db \<Rightarrow> db) list \<Rightarrow> connection \<Rightarrow> sql_error option \<times> connection" where
  "tx_Exec flt i [] c = (None, c)"
| "tx_Exec flt i (f # fs) c =
     (case cx_tx c of
        None \<Rightarrow> (Some TxDone, c)
      | Some w \<Rightarrow>
          if flt = Some i then (Some (SqlFailed i), c)
          else tx_Exec flt (Suc i) fs (c\<lparr>cx_tx := Some (f w)\<rparr>))"

definition tx_Commit :: "nat option \<Rightarrow> nat \<Rightarrow> connection \<Rightarrow> sql_error option \<times> connection" where
  "tx_Commit flt i c =
     (case cx_tx c of
        None \<Rightarrow> (Some TxDone, c)
      | Some w \<Rightarrow>
          if flt = Some i then (Some (SqlFailed i), c\<lparr>cx_tx := None\<rparr>)
          else (None, c\<lparr>cx_stored := w, cx_tx := None\<rparr>))"

definition tx_Rollback :: "connection \<Rightarrow> connection" where
  "tx_Rollback c = c\<lparr>cx_tx := None\<rparr>"

text \<open>The shape of the three methods: begin, defer the rollback, run the body.\<close>

definition in_transaction :: "nat option \<Rightarrow> (connection \<Rightarrow> (sql_error + 'a) \<times> connection) \<Rightarrow> connection
    \<Rightarrow> (sql_error + 'a) \<times> connection" where
  "in_transaction flt body c =
     (case BeginTx flt c of
        (Some e, c) \<Rightarrow> (Inl e, c)
      | (None, c) \<Rightarrow> (case body c of (r, c) \<Rightarrow> (r, tx_Rollback c)))"

text \<open>The rest of a body once its queries are done: the writing statements, the commit, the result.\<close>

definition exec_and_commit :: "nat option \<Rightarrow> nat \<Rightarrow> (db \<Rightarrow> db) list \<Rightarrow> 'a \<Rightarrow> connection
    \<Rightarrow> (sql_error + 'a) \<times> connection" where
  "exec_and_commit flt i stmts result c =
     (case tx_Exec flt i stmts c of
        (Some e, c) \<Rightarrow> (Inl e, c)
      | (None, c) \<Rightarrow>
          (case tx_Commit flt (i + length stmts) c of
             (Some e, c) \<Rightarrow> (Inl e, c)
           | (None, c) \<Rightarrow> (Inr result, c)))"

text \<open>A method of the store on the tables as everybody else sees them: its connection comes idle from the
  pool.\<close>

definition idle :: "db \<Rightarrow> connection" where
  "idle d = \<lparr>cx_stored = d, cx_tx = None\<rparr>"

definition pooled :: "(connection \<Rightarrow> 'r \<times> connection) \<Rightarrow> db \<Rightarrow> 'r \<times> db" where
  "pooled method d = (case method (idle d) of (r, c) \<Rightarrow> (r, cx_stored c))"

text \<open>The text of an instant at RFC 3339 keeps whole seconds.\<close>

definition rfc3339 :: "time \<Rightarrow> time" where
  "rfc3339 t = t div 1000000000 * 1000000000"

section \<open>Opening\<close>

definition lower_char :: "char \<Rightarrow> char" where
  "lower_char c = (if 65 \<le> (of_char c :: nat) \<and> (of_char c :: nat) \<le> 90
                   then char_of ((of_char c :: nat) + 32) else c)"

definition ToLower :: "string \<Rightarrow> string" where
  "ToLower s = map lower_char s"

definition normalize_driver :: "string \<Rightarrow> string" where
  "normalize_driver driver =
     (let d = ToLower (TrimSpace driver);
          d = (if d = ''sqlite3'' \<or> d = [] then ''sqlite'' else d);
          d = (if d = ''postgresql'' then ''postgres'' else d)
      in if d = ''mariadb'' then ''mysql'' else d)"

text \<open>\<open>stored\<close> is what the data source already holds; \<open>CREATE TABLE IF NOT EXISTS\<close> keeps it. The
  statements of \<open>initSchema\<close> are five.\<close>

definition sql_Open :: "(string \<Rightarrow> bool) \<Rightarrow> bool \<Rightarrow> nat option \<Rightarrow> string \<Rightarrow> db \<Rightarrow> sql_error + sql_store" where
  "sql_Open registered pragma_fails flt driver stored =
     (let d = normalize_driver driver in
      if \<not> registered d then Inl (OpenFailed d)
      else if d = ''sqlite'' \<and> pragma_fails then Inl PragmaFailed
      else case flt of
        Some i \<Rightarrow> (if i < 5 then Inl (SchemaFailed i) else Inr \<lparr>sql_driver = d, sql_db = stored\<rparr>)
      | None \<Rightarrow> Inr \<lparr>sql_driver = d, sql_db = stored\<rparr>)"

section \<open>Feeds\<close>

definition feed_of_row :: "feed_row \<Rightarrow> feed_source" where
  "feed_of_row r =
     \<lparr>fs_ID = fr_id r, fs_Name = fr_name r, fs_List = fr_list r, fs_URL = fr_url r,
      fs_Interval = fr_interval_sec r, fs_Enabled = (fr_enabled r \<noteq> 0),
      fs_LastSync = (case fr_last_sync r of Some s \<Rightarrow> s | None \<Rightarrow> []),
      fs_PrefixCount = fr_prefix_count r,
      fs_LastError = (case fr_last_error r of Some s \<Rightarrow> s | None \<Rightarrow> []),
      fs_ExpandSubnets = (fr_expand_subnets r \<noteq> 0)\<rparr>"

text \<open>\<open>by_name\<close> is the order the database puts the rows in.\<close>

definition sql_ListFeeds :: "(feed_row list \<Rightarrow> feed_row list) \<Rightarrow> nat option \<Rightarrow> db \<Rightarrow> sql_error + feed_source list" where
  "sql_ListFeeds by_name flt d =
     (if flt = Some 0 then Inl (SqlFailed 0) else Inr (map feed_of_row (by_name (t_feeds d))))"

definition row_of_feed :: "feed_source \<Rightarrow> feed_row" where
  "row_of_feed f =
     \<lparr>fr_id = fs_ID f, fr_name = fs_Name f, fr_list = fs_List f, fr_url = fs_URL f,
      fr_interval_sec = fs_Interval f, fr_enabled = (if fs_Enabled f then 1 else 0),
      fr_last_sync = Some (fs_LastSync f), fr_prefix_count = fs_PrefixCount f,
      fr_last_error = Some (fs_LastError f),
      fr_expand_subnets = (if fs_ExpandSubnets f then 1 else 0)\<rparr>"

definition merge_feed :: "feed_row \<Rightarrow> feed_row \<Rightarrow> feed_row" where
  "merge_feed old new =
     old\<lparr>fr_name := fr_name new, fr_list := fr_list new, fr_url := fr_url new,
         fr_interval_sec := fr_interval_sec new, fr_enabled := fr_enabled new,
         fr_expand_subnets := fr_expand_subnets new\<rparr>"

definition sql_SaveFeed :: "nat option \<Rightarrow> feed_source \<Rightarrow> db \<Rightarrow> sql_error option \<times> db" where
  "sql_SaveFeed flt f =
     exec_one flt (\<lambda>d. d\<lparr>t_feeds := upsert fr_id merge_feed (row_of_feed f) (t_feeds d)\<rparr>)"

definition sql_UpdateFeedStatus :: "nat option \<Rightarrow> string \<Rightarrow> int \<Rightarrow> string \<Rightarrow> string \<Rightarrow> db
    \<Rightarrow> sql_error option \<times> db" where
  "sql_UpdateFeedStatus flt feed_id prefixCount last_sync last_error =
     exec_one flt (\<lambda>d. d\<lparr>t_feeds := update_where (\<lambda>r. fr_id r = feed_id)
       (\<lambda>r. r\<lparr>fr_prefix_count := prefixCount, fr_last_sync := Some last_sync, fr_last_error := Some last_error\<rparr>)
       (t_feeds d)\<rparr>)"

definition feed_prefixes :: "string \<Rightarrow> db \<Rightarrow> string list" where
  "feed_prefixes feed_id d = map pr_prefix (filter (\<lambda>r. pr_feed_id r = Some feed_id) (t_policies d))"

text \<open>The two queries are the statements 1 and 2 of the transaction; a feed without a row has the
  empty list name. \<open>broken\<close>: where the iteration over the prefixes breaks off, which the code does
  not look at.\<close>

definition sql_DeleteFeed :: "nat option \<Rightarrow> nat option \<Rightarrow> string \<Rightarrow> connection
    \<Rightarrow> (sql_error + string list \<times> string) \<times> connection" where
  "sql_DeleteFeed flt broken feed_id =
     in_transaction flt (\<lambda>c.
       case tx_Query flt 1 (\<lambda>d. case filter (\<lambda>r. fr_id r = feed_id) (t_feeds d) of [] \<Rightarrow> [] | r # _ \<Rightarrow> fr_list r) c of
         Inl e \<Rightarrow> (Inl e, c)
       | Inr list \<Rightarrow>
           (case tx_Query flt 2 (feed_prefixes feed_id) c of
              Inl e \<Rightarrow> (Inl e, c)
            | Inr rows \<Rightarrow>
                let deletedPrefixes = read_rows broken rows in
                exec_and_commit flt 3
                  [\<lambda>d. d\<lparr>t_policies := delete_where (\<lambda>r. pr_feed_id r = Some feed_id) (t_policies d)\<rparr>,
                   \<lambda>d. d\<lparr>t_feeds := delete_where (\<lambda>r. fr_id r = feed_id) (t_feeds d)\<rparr>]
                  (deletedPrefixes, list) c))"

section \<open>Synchronising the policies of a feed\<close>

text \<open>A slice cut into chunks of at most \<open>n\<close>, as the loops with step 500 do.\<close>

function chunks :: "nat \<Rightarrow> 'a list \<Rightarrow> 'a list list" where
  "chunks n xs = (if xs = [] \<or> n = 0 then [] else take n xs # chunks n (drop n xs))"
  by pat_completeness auto
termination by (relation "measure (\<lambda>(n, xs). length xs)") auto

declare chunks.simps [simp del]

definition delete_chunk :: "string \<Rightarrow> string list \<Rightarrow> db \<Rightarrow> db" where
  "delete_chunk feed_id chunk d =
     d\<lparr>t_policies := delete_where (\<lambda>r. pr_feed_id r = Some feed_id \<and> pr_prefix r \<in> set chunk)
        (t_policies d)\<rparr>"

definition merge_feed_policy :: "policy_row \<Rightarrow> policy_row \<Rightarrow> policy_row" where
  "merge_feed_policy old new = old\<lparr>pr_source := pr_source new, pr_feed_id := pr_feed_id new\<rparr>"

definition feed_policy_row :: "time \<Rightarrow> string \<Rightarrow> string \<Rightarrow> string \<Rightarrow> string \<Rightarrow> policy_row" where
  "feed_policy_row now feed_id feed_name list p =
     \<lparr>pr_prefix = p, pr_list = list, pr_source = feed_name, pr_feed_id = Some feed_id,
      pr_expires_at = None, pr_created_at = now\<rparr>"

definition insert_chunk :: "time \<Rightarrow> string \<Rightarrow> string \<Rightarrow> string \<Rightarrow> string list \<Rightarrow> db \<Rightarrow> db" where
  "insert_chunk now feed_id feed_name list chunk d =
     d\<lparr>t_policies := fold (\<lambda>p. upsert pkey merge_feed_policy (feed_policy_row now feed_id feed_name list p))
        chunk (t_policies d)\<rparr>"

definition sync_toAdd :: "string list \<Rightarrow> string list \<Rightarrow> string list" where
  "sync_toAdd current newPrefixes = filter (\<lambda>p. p \<notin> set current) newPrefixes"

definition sync_toRemove :: "string list \<Rightarrow> string list \<Rightarrow> string list" where
  "sync_toRemove current newPrefixes = filter (\<lambda>p. p \<notin> set newPrefixes) (remdups current)"

text \<open>\<open>now_text\<close> is the formatted wall clock. The writing statements, and the method; its query is the
  statement 1 and may break off like the one above.\<close>

definition sync_stmts :: "time \<Rightarrow> string \<Rightarrow> string \<Rightarrow> string \<Rightarrow> string \<Rightarrow> string list \<Rightarrow> string list \<Rightarrow> string list
    \<Rightarrow> (db \<Rightarrow> db) list" where
  "sync_stmts now now_text feed_id feed_name list newPrefixes toAdd toRemove =
     map (delete_chunk feed_id) (chunks 500 toRemove)
     @ map (insert_chunk now feed_id feed_name list) (chunks 500 toAdd)
     @ [\<lambda>d. d\<lparr>t_feeds := update_where (\<lambda>r. fr_id r = feed_id)
          (\<lambda>r. r\<lparr>fr_prefix_count := int (length newPrefixes),
                fr_last_sync := Some now_text, fr_last_error := Some []\<rparr>) (t_feeds d)\<rparr>]"

definition SyncFeedPolicies :: "nat option \<Rightarrow> nat option \<Rightarrow> time \<Rightarrow> string \<Rightarrow> string \<Rightarrow> string \<Rightarrow> string \<Rightarrow> string list
    \<Rightarrow> connection \<Rightarrow> (sql_error + string list \<times> string list) \<times> connection" where
  "SyncFeedPolicies flt broken now now_text feed_id feed_name list newPrefixes =
     in_transaction flt (\<lambda>c.
       case tx_Query flt 1 (feed_prefixes feed_id) c of
         Inl e \<Rightarrow> (Inl e, c)
       | Inr rows \<Rightarrow>
           let current = read_rows broken rows;
               toAdd = sync_toAdd current newPrefixes;
               toRemove = sync_toRemove current newPrefixes
           in exec_and_commit flt 2 (sync_stmts now now_text feed_id feed_name list newPrefixes toAdd toRemove)
                (toAdd, toRemove) c)"

section \<open>Policies\<close>

definition item_of_row :: "policy_row \<Rightarrow> policy_item" where
  "item_of_row r =
     \<lparr>it_Prefix = pr_prefix r, it_List = pr_list r, it_Source = pr_source r,
      it_FeedID = (case pr_feed_id r of Some s \<Rightarrow> s | None \<Rightarrow> []),
      it_ExpiresAt = pr_expires_at r, it_CreatedAt = pr_created_at r\<rparr>"

text \<open>\<open>like\<close> is the database's \<open>LIKE\<close> and \<open>newest\<close> its \<open>ORDER BY created_at DESC\<close>. The offset is
  computed in 64 bits; a negative one skips nothing.\<close>

definition page_offset :: "int \<Rightarrow> int \<Rightarrow> int" where
  "page_offset page limit = sint (word_of_int ((page - 1) * limit) :: 64 word)"

definition ListPoliciesPaginated :: "(string \<Rightarrow> string \<Rightarrow> bool) \<Rightarrow> (policy_row list \<Rightarrow> policy_row list)
    \<Rightarrow> nat option \<Rightarrow> string \<Rightarrow> string \<Rightarrow> int \<Rightarrow> int \<Rightarrow> db \<Rightarrow> sql_error + policy_item list \<times> int" where
  "ListPoliciesPaginated like newest flt list search0 page0 limit0 d =
     (let limit = (if limit0 \<le> 0 then 25 else limit0);
          page = (if page0 \<le> 0 then 1 else page0);
          offset = page_offset page limit;
          search = TrimSpace search0;
          pattern = ''%'' @ search @ ''%'';
          matching = filter (\<lambda>r. pr_list r = list \<and>
            (search \<noteq> [] \<longrightarrow> like pattern (pr_prefix r) \<or> like pattern (pr_source r))) (t_policies d)
      in if flt = Some 0 then Inl (SqlFailed 0)
         else if flt = Some 1 then Inl (SqlFailed 1)
         else Inr (map item_of_row (take (nat limit) (drop (nat offset) (newest matching))),
                   int (length matching)))"

definition merge_policy :: "policy_row \<Rightarrow> policy_row \<Rightarrow> policy_row" where
  "merge_policy old new =
     old\<lparr>pr_source := pr_source new, pr_feed_id := pr_feed_id new, pr_expires_at := pr_expires_at new\<rparr>"

definition AddPolicy :: "nat option \<Rightarrow> time \<Rightarrow> string \<Rightarrow> string \<Rightarrow> string \<Rightarrow> string \<Rightarrow> time option \<Rightarrow> db
    \<Rightarrow> sql_error option \<times> db" where
  "AddPolicy flt now p list source feed_id expiresAt =
     exec_one flt (\<lambda>d. d\<lparr>t_policies := upsert pkey merge_policy
       \<lparr>pr_prefix = p, pr_list = list, pr_source = source, pr_feed_id = Some feed_id,
        pr_expires_at = map_option rfc3339 expiresAt, pr_created_at = now\<rparr> (t_policies d)\<rparr>)"

definition RemovePolicy :: "nat option \<Rightarrow> string \<Rightarrow> string \<Rightarrow> db \<Rightarrow> sql_error option \<times> db" where
  "RemovePolicy flt p list =
     exec_one flt (\<lambda>d. d\<lparr>t_policies := delete_where (\<lambda>r. pr_prefix r = p \<and> pr_list r = list) (t_policies d)\<rparr>)"

text \<open>Preparing the statement is the statement 1.\<close>

definition BulkRemovePolicies :: "nat option \<Rightarrow> string \<Rightarrow> string list \<Rightarrow> connection
    \<Rightarrow> (sql_error + unit) \<times> connection" where
  "BulkRemovePolicies flt list prefixes c =
     (if length prefixes = 0 then (Inr (), c)
      else in_transaction flt (\<lambda>c.
        case tx_Query flt 1 (\<lambda>_. ()) c of
          Inl e \<Rightarrow> (Inl e, c)
        | Inr _ \<Rightarrow>
            exec_and_commit flt 2
              (map (\<lambda>p d. d\<lparr>t_policies := delete_where (\<lambda>r. pr_prefix r = p \<and> pr_list r = list) (t_policies d)\<rparr>)
                 prefixes) () c) c)"

text \<open>A query that fails gives no rows; an iteration that breaks off gives the rows before and the error.\<close>

definition AllPrefixes :: "nat option \<Rightarrow> nat option \<Rightarrow> string \<Rightarrow> db \<Rightarrow> prefix list \<times> sql_error option" where
  "AllPrefixes flt broken list d =
     (if flt = Some 0 then ([], Some (SqlFailed 0))
      else (List.map_filter (\<lambda>r. ParsePrefix (pr_prefix r))
              (read_rows broken (filter (\<lambda>r. pr_list r = list) (t_policies d))),
            map_option (\<lambda>_. SqlFailed 0) broken))"

definition GetCounts :: "nat option \<Rightarrow> db \<Rightarrow> int \<times> int" where
  "GetCounts flt d =
     (let rows = (\<lambda>list. int (length (filter (\<lambda>r. pr_list r = list) (t_policies d))))
      in (if flt = Some 0 then 0 else rows ''blocklist'', if flt = Some 1 then 0 else rows ''whitelist''))"

definition RecordAudit :: "nat option \<Rightarrow> time \<Rightarrow> string \<Rightarrow> string \<Rightarrow> string \<Rightarrow> db \<Rightarrow> sql_error option \<times> db" where
  "RecordAudit flt now op list p =
     exec_one flt (\<lambda>d. d\<lparr>t_audit := t_audit d @
       [\<lparr>ar_timestamp_ms = now div 1000000, ar_operation = op, ar_list = list, ar_prefix = p\<rparr>]\<rparr>)"

text \<open>\<open>latest\<close> is the database's \<open>ORDER BY timestamp_ms DESC\<close>.\<close>

definition AuditEvents :: "(audit_row list \<Rightarrow> audit_row list) \<Rightarrow> nat option \<Rightarrow> int \<Rightarrow> db
    \<Rightarrow> sql_error + sql_audit_event list" where
  "AuditEvents latest flt limit0 d =
     (let limit = (if limit0 \<le> 0 then 50 else limit0) in
      if flt = Some 0 then Inl (SqlFailed 0)
      else Inr (List.map_filter
        (\<lambda>r. map_option (\<lambda>p. \<lparr>sa_Time = ar_timestamp_ms r * 1000000, sa_Operation = ar_operation r,
                sa_List = ar_list r, sa_Prefix = p\<rparr>) (ParsePrefix (ar_prefix r)))
        (take (nat limit) (latest (t_audit d)))))"

section \<open>Transactions\<close>

lemma tx_Exec_cases:
  assumes "cx_tx c = Some w" "tx_Exec flt i fs c = (e, c')"
  shows "cx_stored c' = cx_stored c \<and> (e = None \<longrightarrow> cx_tx c' = Some (fold (\<lambda>f. f) fs w)) \<and>
     (flt = None \<longrightarrow> e = None)"
  using assms
proof (induction fs arbitrary: i w c)
  case (Cons f fs)
  show ?case
  proof (cases "flt = Some i")
    case False
    with Cons.prems have "tx_Exec flt (Suc i) fs (c\<lparr>cx_tx := Some (f w)\<rparr>) = (e, c')" by simp
    from Cons.IH [OF _ this] show ?thesis by simp
  qed (use Cons.prems in auto)
qed auto

text \<open>What a transaction leaves: all of its statements, or nothing; and no open transaction.\<close>

lemma exec_and_commit_cases:
  assumes "cx_tx c = Some w" "exec_and_commit flt i fs r c = (x, c')"
  shows "(x = Inr r \<and> cx_stored c' = fold (\<lambda>f. f) fs w) \<or> (flt \<noteq> None \<and> (\<exists>e. x = Inl e) \<and> cx_stored c' = cx_stored c)"
proof -
  obtain e c1 where run: "tx_Exec flt i fs c = (e, c1)" by fastforce
  from tx_Exec_cases [OF assms(1) run] assms(2) run show ?thesis
    by (cases e) (auto simp: exec_and_commit_def tx_Commit_def split: if_splits)
qed

lemma in_transaction_cases:
  assumes "in_transaction flt body c = (x, c')"
  obtains (refused) "flt = Some 0" "x = Inl (SqlFailed 0)" "c' = c"
  | (ran) c1 where "body (c\<lparr>cx_tx := Some (cx_stored c)\<rparr>) = (x, c1)" "c' = tx_Rollback c1"
  using assms by (auto simp: in_transaction_def BeginTx_def split: if_splits prod.splits)

lemma tx_Rollback_fields [simp]: "cx_stored (tx_Rollback c) = cx_stored c" "cx_tx (tx_Rollback c) = None"
  by (simp_all add: tx_Rollback_def)

lemma tx_Query_open [simp]:
  "cx_tx c = Some w \<Longrightarrow> tx_Query flt i q c = (if flt = Some i then Inl (SqlFailed i) else Inr (q w))"
  by (simp add: tx_Query_def)

lemma pooled_cases: "pooled method d = (r, d') \<longleftrightarrow> (\<exists>c. method (idle d) = (r, c) \<and> cx_stored c = d')"
  by (auto simp: pooled_def split: prod.splits)

lemma idle_fields [simp]: "cx_stored (idle d) = d" "cx_tx (idle d) = None"
  by (simp_all add: idle_def)

lemma read_rows_None [simp]: "read_rows None xs = xs"
  by (simp add: read_rows_def)

lemma read_rows_subset: "set (read_rows broken xs) \<subseteq> set xs"
  by (auto simp: read_rows_def dest: in_set_takeD split: option.splits)

lemma fold_map_apply: "fold (\<lambda>f. f) (map g xs) = fold g xs"
  by (induction xs) auto

section \<open>Rows by key\<close>

definition row_at :: "('r \<Rightarrow> 'k) \<Rightarrow> 'r list \<Rightarrow> 'k \<Rightarrow> 'r option" where
  "row_at key xs k = find (\<lambda>r. key r = k) xs"

lemma row_at_simps [simp]:
  "row_at key [] k = None"
  "row_at key (x # xs) k = (if key x = k then Some x else row_at key xs k)"
  by (simp_all add: row_at_def)

lemma row_at_key: "row_at key xs k = Some r \<Longrightarrow> r \<in> set xs \<and> key r = k"
  by (induction xs) (auto split: if_splits)

lemma row_at_None: "row_at key xs k = None \<longleftrightarrow> k \<notin> key ` set xs"
  by (induction xs) auto

lemma row_at_mem: "distinct (map key xs) \<Longrightarrow> r \<in> set xs \<longleftrightarrow> row_at key xs (key r) = Some r"
proof (induction xs)
  case (Cons x xs)
  have "r \<in> set xs \<Longrightarrow> key x \<noteq> key r" using Cons.prems by (metis distinct.simps(2) image_eqI list.map(2) list.set_map)
  with Cons show ?case by auto
qed simp

lemma row_at_upsert:
  assumes "\<And>old. key old = key r \<Longrightarrow> key (merge old r) = key r"
  shows "row_at key (upsert key merge r xs) =
     (row_at key xs)(key r \<mapsto> (case row_at key xs (key r) of None \<Rightarrow> r | Some old \<Rightarrow> merge old r))"
  by (induction xs) (auto simp: fun_eq_iff assms)

lemma keys_upsert:
  assumes "\<And>old. key old = key r \<Longrightarrow> key (merge old r) = key r"
  shows "map key (upsert key merge r xs) =
     (if key r \<in> key ` set xs then map key xs else map key xs @ [key r])"
  by (induction xs) (auto simp: assms)

lemma distinct_upsert [simp]:
  assumes "\<And>old. key old = key r \<Longrightarrow> key (merge old r) = key r" "distinct (map key xs)"
  shows "distinct (map key (upsert key merge r xs))"
  using keys_upsert [of key r merge xs] assms by auto

lemma distinct_delete_where [simp]: "distinct (map key xs) \<Longrightarrow> distinct (map key (delete_where P xs))"
  unfolding delete_where_def by (rule distinct_map_filter)

lemma row_at_delete_where:
  assumes "distinct (map key xs)"
  shows "row_at key (delete_where P xs) k =
     (case row_at key xs k of None \<Rightarrow> None | Some r \<Rightarrow> if P r then None else Some r)"
  using assms
proof (induction xs)
  case (Cons x xs)
  show ?case
  proof (cases "key x = k")
    case True
    with Cons.prems have "row_at key xs k = None" by (auto simp: row_at_None)
    with True Cons show ?thesis by (simp add: delete_where_def)
  qed (use Cons in \<open>simp add: delete_where_def\<close>)
qed (simp add: delete_where_def)

lemma delete_where_twice: "delete_where Q (delete_where P xs) = delete_where (\<lambda>r. P r \<or> Q r) xs"
  by (simp add: delete_where_def conj_commute)

definition db_inv :: "db \<Rightarrow> bool" where
  "db_inv d = (distinct (map pkey (t_policies d)) \<and> distinct (map fr_id (t_feeds d)))"

abbreviation policy_at :: "db \<Rightarrow> string \<Rightarrow> string \<Rightarrow> policy_row option" where
  "policy_at d p list \<equiv> row_at pkey (t_policies d) (p, list)"

lemma feed_prefixes_iff:
  assumes "distinct (map pkey (t_policies d))"
  shows "p \<in> set (feed_prefixes feed_id d) \<longleftrightarrow>
     (\<exists>l r. policy_at d p l = Some r \<and> pr_feed_id r = Some feed_id)"
proof
  assume "p \<in> set (feed_prefixes feed_id d)"
  then obtain r where "r \<in> set (t_policies d)" "pr_feed_id r = Some feed_id" "pr_prefix r = p"
    by (auto simp: feed_prefixes_def)
  then show "\<exists>l r. policy_at d p l = Some r \<and> pr_feed_id r = Some feed_id"
    using row_at_mem [OF assms] by blast
next
  assume "\<exists>l r. policy_at d p l = Some r \<and> pr_feed_id r = Some feed_id"
  then show "p \<in> set (feed_prefixes feed_id d)"
    unfolding feed_prefixes_def by (auto dest!: row_at_key)
qed

section \<open>Batches\<close>

lemma concat_chunks: "n > 0 \<Longrightarrow> concat (chunks n xs) = xs"
  by (induction n xs rule: chunks.induct) (subst chunks.simps, auto)

lemma length_chunks: "c \<in> set (chunks n xs) \<Longrightarrow> 0 < length c \<and> length c \<le> n"
proof (induction n xs rule: chunks.induct)
  case (1 n xs)
  then show ?case by (subst (asm) (2) chunks.simps) (auto split: if_splits)
qed

lemma fold_delete_chunks:
  "fold (delete_chunk feed_id) cs d =
     d\<lparr>t_policies := delete_where (\<lambda>r. pr_feed_id r = Some feed_id \<and> pr_prefix r \<in> set (concat cs)) (t_policies d)\<rparr>"
proof (induction cs arbitrary: d)
  case Nil
  show ?case by (simp add: delete_where_def)
next
  case (Cons c cs)
  let ?P = "\<lambda>ps r. pr_feed_id r = Some feed_id \<and> pr_prefix r \<in> set ps"
  have P: "(\<lambda>r. ?P c r \<or> ?P (concat cs) r) = ?P (concat (c # cs))" by (simp add: fun_eq_iff) blast
  have "fold (delete_chunk feed_id) (c # cs) d = fold (delete_chunk feed_id) cs (delete_chunk feed_id c d)"
    by simp
  also have "\<dots> = (delete_chunk feed_id c d)\<lparr>t_policies :=
      delete_where (?P (concat cs)) (t_policies (delete_chunk feed_id c d))\<rparr>"
    by (rule Cons)
  also have "\<dots> = d\<lparr>t_policies := delete_where (\<lambda>r. ?P c r \<or> ?P (concat cs) r) (t_policies d)\<rparr>"
    unfolding delete_chunk_def by (simp add: delete_where_twice)
  finally show ?case unfolding P .
qed

lemma fold_insert_chunks:
  "fold (insert_chunk now feed_id nm list) cs d =
     d\<lparr>t_policies := fold (\<lambda>p. upsert pkey merge_feed_policy (feed_policy_row now feed_id nm list p))
        (concat cs) (t_policies d)\<rparr>"
  by (induction cs arbitrary: d) (simp_all add: insert_chunk_def)

lemma fold_upsert_policies:
  fixes now :: time and feed_id nm list :: string
  defines "new \<equiv> feed_policy_row now feed_id nm list"
  assumes "distinct (map pkey xs)"
  shows "distinct (map pkey (fold (\<lambda>p. upsert pkey merge_feed_policy (new p)) ps xs)) \<and>
     (\<forall>p l. row_at pkey (fold (\<lambda>p. upsert pkey merge_feed_policy (new p)) ps xs) (p, l) =
        (if l = list \<and> p \<in> set ps
         then Some (case row_at pkey xs (p, l) of None \<Rightarrow> new p | Some old \<Rightarrow> merge_feed_policy old (new p))
         else row_at pkey xs (p, l)))"
  using assms(2)
proof (induction ps arbitrary: xs)
  case (Cons q ps)
  have key: "pkey (new q) = (q, list)" by (simp add: new_def feed_policy_row_def)
  have merge: "pkey (merge_feed_policy old (new q)) = pkey (new q)" if "pkey old = pkey (new q)" for old
    using that by (simp add: merge_feed_policy_def)
  have idem: "merge_feed_policy (merge_feed_policy old (new q)) (new q) = merge_feed_policy old (new q)"
    "merge_feed_policy (new q) (new q) = new q" for old
    by (simp_all add: merge_feed_policy_def)
  let ?ys = "upsert pkey merge_feed_policy (new q) xs"
  have ys: "distinct (map pkey ?ys)" using merge Cons.prems by (intro distinct_upsert) auto
  have at: "row_at pkey ?ys = (row_at pkey xs)((q, list) \<mapsto>
      (case row_at pkey xs (q, list) of None \<Rightarrow> new q | Some old \<Rightarrow> merge_feed_policy old (new q)))"
    using row_at_upsert [of pkey "new q" merge_feed_policy xs] merge key by simp
  show ?case
    using Cons.IH [OF ys] by (auto simp: at idem split: option.splits)
qed simp

section \<open>What a synchronisation does\<close>

text \<open>The two methods by outcome; \<open>current\<close> is what the query delivered.\<close>

lemma fold_sync_stmts:
  "fold (\<lambda>f. f) (sync_stmts now now_text feed_id nm list new toAdd toRemove) d =
     d\<lparr>t_policies := fold (\<lambda>p. upsert pkey merge_feed_policy (feed_policy_row now feed_id nm list p)) toAdd
          (delete_where (\<lambda>r. pr_feed_id r = Some feed_id \<and> pr_prefix r \<in> set toRemove) (t_policies d)),
        t_feeds := update_where (\<lambda>r. fr_id r = feed_id)
          (\<lambda>r. r\<lparr>fr_prefix_count := int (length new), fr_last_sync := Some now_text, fr_last_error := Some []\<rparr>) (t_feeds d)\<rparr>"
  by (simp add: sync_stmts_def fold_map_apply fold_delete_chunks fold_insert_chunks concat_chunks)

lemma sync_cases:
  assumes "SyncFeedPolicies flt broken now now_text feed_id nm list new c = (x, c')"
  obtains (failed) e where "flt \<noteq> None" "x = Inl e" "cx_stored c' = cx_stored c" "cx_tx c' = None \<or> c' = c"
  | (synced) current toAdd toRemove where "current = read_rows broken (feed_prefixes feed_id (cx_stored c))"
      "toAdd = sync_toAdd current new" "toRemove = sync_toRemove current new" "x = Inr (toAdd, toRemove)"
      "cx_stored c' = fold (\<lambda>f. f) (sync_stmts now now_text feed_id nm list new toAdd toRemove) (cx_stored c)"
      "cx_tx c' = None"
  using assms [unfolded SyncFeedPolicies_def]
proof (cases rule: in_transaction_cases)
  case refused
  then show ?thesis by (intro failed) auto
next
  case (ran c1)
  let ?c = "c\<lparr>cx_tx := Some (cx_stored c)\<rparr>"
  let ?current = "read_rows broken (feed_prefixes feed_id (cx_stored c))"
  show ?thesis
  proof (cases "flt = Some 1")
    case True
    with ran show ?thesis by (intro failed) auto
  next
    case False
    with ran have run: "exec_and_commit flt 2 (sync_stmts now now_text feed_id nm list new (sync_toAdd ?current new)
        (sync_toRemove ?current new)) (sync_toAdd ?current new, sync_toRemove ?current new) ?c = (x, c1)"
      by (simp add: Let_def)
    have "cx_tx c' = None" "cx_stored c' = cx_stored c1" using ran(2) by simp_all
    note t = this
    consider "x = Inr (sync_toAdd ?current new, sync_toRemove ?current new)"
        "cx_stored c1 = fold (\<lambda>f. f) (sync_stmts now now_text feed_id nm list new (sync_toAdd ?current new)
          (sync_toRemove ?current new)) (cx_stored c)"
      | e where "flt \<noteq> None" "x = Inl e" "cx_stored c1 = cx_stored c"
      using exec_and_commit_cases [OF _ run, of "cx_stored c"] by auto
    then show ?thesis
    proof cases
      case 1
      with t show ?thesis by (intro synced [OF refl refl refl]) simp_all
    next
      case 2
      with t show ?thesis by (intro failed [of e]) simp_all
    qed
  qed
qed

lemma delete_feed_cases:
  assumes "sql_DeleteFeed flt broken feed_id c = (x, c')"
  obtains (failed) e where "flt \<noteq> None" "x = Inl e" "cx_stored c' = cx_stored c" "cx_tx c' = None \<or> c' = c"
  | (deleted) l where "x = Inr (read_rows broken (feed_prefixes feed_id (cx_stored c)), l)" "cx_tx c' = None"
      "cx_stored c' = (cx_stored c)\<lparr>
         t_policies := delete_where (\<lambda>r. pr_feed_id r = Some feed_id) (t_policies (cx_stored c)),
         t_feeds := delete_where (\<lambda>r. fr_id r = feed_id) (t_feeds (cx_stored c))\<rparr>"
  using assms [unfolded sql_DeleteFeed_def]
proof (cases rule: in_transaction_cases)
  case refused
  then show ?thesis by (intro failed) auto
next
  case (ran c1)
  show ?thesis
  proof (cases "flt = Some 1 \<or> flt = Some 2")
    case True
    then obtain e where "flt \<noteq> None" "x = Inl e" "cx_stored c1 = cx_stored c" using ran(1) by auto
    then show ?thesis using ran(2) by (intro failed [of e]) simp_all
  next
    case False
    with ran obtain stmts result where stmts: "stmts =
        [\<lambda>d. d\<lparr>t_policies := delete_where (\<lambda>r. pr_feed_id r = Some feed_id) (t_policies d)\<rparr>,
         \<lambda>d. d\<lparr>t_feeds := delete_where (\<lambda>r. fr_id r = feed_id) (t_feeds d)\<rparr>]"
      and result: "fst result = read_rows broken (feed_prefixes feed_id (cx_stored c))"
      and run: "exec_and_commit flt 3 stmts result (c\<lparr>cx_tx := Some (cx_stored c)\<rparr>) = (x, c1)"
      by (auto simp: Let_def)
    have t: "cx_tx c' = None" "cx_stored c' = cx_stored c1" using ran(2) by simp_all
    consider "x = Inr result" "cx_stored c1 = fold (\<lambda>f. f) stmts (cx_stored c)"
      | e where "flt \<noteq> None" "x = Inl e" "cx_stored c1 = cx_stored c"
      using exec_and_commit_cases [OF _ run, of "cx_stored c"] by auto
    then show ?thesis
    proof cases
      case 1
      with t result show ?thesis by (intro deleted [of "snd result"]) (simp_all add: stmts prod_eq_iff)
    next
      case 2
      with t show ?thesis by (intro failed [of e]) simp_all
    qed
  qed
qed

lemma sync_tables:
  assumes "SyncFeedPolicies flt broken now now_text feed_id nm list new c = (Inr (toAdd, toRemove), c')"
  shows "toAdd = sync_toAdd (read_rows broken (feed_prefixes feed_id (cx_stored c))) new \<and>
     toRemove = sync_toRemove (read_rows broken (feed_prefixes feed_id (cx_stored c))) new \<and>
     t_policies (cx_stored c') =
       fold (\<lambda>p. upsert pkey merge_feed_policy (feed_policy_row now feed_id nm list p)) toAdd
       (delete_where (\<lambda>r. pr_feed_id r = Some feed_id \<and> pr_prefix r \<in> set toRemove) (t_policies (cx_stored c))) \<and>
     map fr_id (t_feeds (cx_stored c')) = map fr_id (t_feeds (cx_stored c))"
  using assms by (cases rule: sync_cases) (auto simp: fold_sync_stmts update_where_def)

lemma sync_policy_at:
  assumes "distinct (map pkey (t_policies (cx_stored c)))"
    and "SyncFeedPolicies flt broken now now_text feed_id nm list new c = (Inr (toAdd, toRemove), c')"
  shows "distinct (map pkey (t_policies (cx_stored c'))) \<and>
     policy_at (cx_stored c') p l =
       (let kept = (case policy_at (cx_stored c) p l of None \<Rightarrow> None
          | Some r \<Rightarrow> if pr_feed_id r = Some feed_id \<and> p \<in> set toRemove then None else Some r)
        in if l = list \<and> p \<in> set toAdd
           then Some (case kept of None \<Rightarrow> feed_policy_row now feed_id nm list p
                      | Some old \<Rightarrow> old\<lparr>pr_source := nm, pr_feed_id := Some feed_id\<rparr>)
           else kept)"
proof -
  let ?d = "cx_stored c" and ?P = "\<lambda>r. pr_feed_id r = Some feed_id \<and> pr_prefix r \<in> set toRemove"
  have del: "distinct (map pkey (delete_where ?P (t_policies ?d)))"
    using assms(1) by (rule distinct_delete_where)
  have at: "row_at pkey (delete_where ?P (t_policies ?d)) (p, l) =
      (case policy_at ?d p l of None \<Rightarrow> None
          | Some r \<Rightarrow> if pr_feed_id r = Some feed_id \<and> p \<in> set toRemove then None else Some r)"
    by (subst row_at_delete_where [OF assms(1)]) (auto split: option.split dest: row_at_key)
  have merge: "merge_feed_policy old (feed_policy_row now feed_id nm list p) =
      old\<lparr>pr_source := nm, pr_feed_id := Some feed_id\<rparr>" for old
    by (simp add: merge_feed_policy_def feed_policy_row_def)
  have tp: "t_policies (cx_stored c') =
      fold (\<lambda>p. upsert pkey merge_feed_policy (feed_policy_row now feed_id nm list p)) toAdd
       (delete_where ?P (t_policies ?d))"
    using sync_tables [OF assms(2)] by blast
  from fold_upsert_policies [OF del, of now feed_id nm list toAdd] show ?thesis
    unfolding tp Let_def by (simp only: at merge)
qed

lemma delete_feed_tables:
  assumes "sql_DeleteFeed flt broken feed_id c = (Inr (ps, l), c')"
  shows "t_policies (cx_stored c') = delete_where (\<lambda>r. pr_feed_id r = Some feed_id) (t_policies (cx_stored c))"
  using assms by (cases rule: delete_feed_cases) auto

lemma fold_bulk_delete:
  "fold (\<lambda>p d. d\<lparr>t_policies := delete_where (\<lambda>r. pr_prefix r = p \<and> pr_list r = list) (t_policies d)\<rparr>) ps d =
     d\<lparr>t_policies := delete_where (\<lambda>r. pr_prefix r \<in> set ps \<and> pr_list r = list) (t_policies d)\<rparr>"
proof (induction ps arbitrary: d)
  case (Cons p ps)
  show ?case by (simp add: Cons delete_where_twice) (rule arg_cong [where f = "\<lambda>P. d\<lparr>t_policies := delete_where P _\<rparr>"], auto)
qed (simp add: delete_where_def)

lemma bulk_cases:
  assumes "BulkRemovePolicies flt list ps c = (x, c')"
  obtains (failed) e where "x = Inl e" "cx_stored c' = cx_stored c" "cx_tx c' = None \<or> c' = c"
  | (removed) "x = Inr ()" "cx_tx c' = None \<or> ps = [] \<and> c' = c"
      "cx_stored c' = (cx_stored c)\<lparr>t_policies :=
         delete_where (\<lambda>r. pr_prefix r \<in> set ps \<and> pr_list r = list) (t_policies (cx_stored c))\<rparr>"
proof (cases "ps = []")
  case True
  with assms show ?thesis by (intro removed) (simp_all add: BulkRemovePolicies_def delete_where_def)
next
  case False
  let ?stmts = "map (\<lambda>p d. d\<lparr>t_policies := delete_where (\<lambda>r. pr_prefix r = p \<and> pr_list r = list) (t_policies d)\<rparr>) ps"
  from False assms have "in_transaction flt (\<lambda>c. case tx_Query flt 1 (\<lambda>_. ()) c of Inl e \<Rightarrow> (Inl e, c)
      | Inr _ \<Rightarrow> exec_and_commit flt 2 ?stmts () c) c = (x, c')"
    by (simp add: BulkRemovePolicies_def)
  then show ?thesis
  proof (cases rule: in_transaction_cases)
    case refused
    then show ?thesis by (intro failed) auto
  next
    case (ran c1)
    have t: "cx_tx c' = None" "cx_stored c' = cx_stored c1" using ran(2) by simp_all
    consider "x = Inr ()" "cx_stored c1 = fold (\<lambda>f. f) ?stmts (cx_stored c)" | e where "x = Inl e" "cx_stored c1 = cx_stored c"
    proof (cases "flt = Some 1")
      case True
      with ran that(2) show ?thesis by auto
    next
      case False
      with ran have "exec_and_commit flt 2 ?stmts () (c\<lparr>cx_tx := Some (cx_stored c)\<rparr>) = (x, c1)" by simp
      from exec_and_commit_cases [OF _ this, of "cx_stored c"] that show ?thesis by auto
    qed
    then show ?thesis
    proof cases
      case 1
      with t show ?thesis by (intro removed) (simp_all add: fold_map_apply fold_bulk_delete)
    next
      case 2
      with t show ?thesis by (intro failed) simp_all
    qed
  qed
qed

section \<open>Properties\<close>

definition row_manual :: policy_row where
  "row_manual = \<lparr>pr_prefix = ''192.0.2.0/24'', pr_list = ''blocklist'', pr_source = ''Manual'',
     pr_feed_id = Some [], pr_expires_at = None, pr_created_at = 1\<rparr>"

definition row_feed :: feed_row where
  "row_feed = \<lparr>fr_id = ''f'', fr_name = ''F'', fr_list = ''blocklist'', fr_url = ''u'',
     fr_interval_sec = 60, fr_enabled = 1, fr_last_sync = None, fr_prefix_count = 0,
     fr_last_error = None, fr_expand_subnets = 0\<rparr>"

definition sample_db :: db where
  "sample_db = \<lparr>t_feeds = [row_feed], t_policies = [row_manual], t_audit = []\<rparr>"

lemma sample_db_inv: "db_inv sample_db"
  by (simp add: db_inv_def sample_db_def)

text \<open>C27: a feed synchronisation that commits leaves the feed owning exactly the prefixes of the
  new list, reports exactly the differences, and leaves alone every policy that is neither the
  feed's nor one of the new prefixes on the feed's list. Where the reading of the old prefixes
  breaks off, which the code takes for their end, the feed keeps those it did not read as well,
  and the differences are those to the prefixes read.\<close>

theorem sync_feed_exact:
  assumes "db_inv (cx_stored c)"
    and "SyncFeedPolicies flt broken now now_text feed_id nm list new c = (Inr (toAdd, toRemove), c')"
    and "owned = set (feed_prefixes feed_id (cx_stored c))"
    and "current = set (read_rows broken (feed_prefixes feed_id (cx_stored c)))"
  shows "db_inv (cx_stored c') \<and>
     set (feed_prefixes feed_id (cx_stored c')) = set new \<union> (owned - current) \<and>
     (broken = None \<longrightarrow> set (feed_prefixes feed_id (cx_stored c')) = set new) \<and>
     set toAdd = set new - current \<and> set toRemove = current - set new \<and>
     (\<forall>p l r. policy_at (cx_stored c) p l = Some r \<and> pr_feed_id r \<noteq> Some feed_id \<and> \<not> (l = list \<and> p \<in> set new) \<longrightarrow>
        policy_at (cx_stored c') p l = Some r)"
proof -
  have k: "distinct (map pkey (t_policies (cx_stored c)))" and f: "distinct (map fr_id (t_feeds (cx_stored c)))"
    using assms(1) by (simp_all add: db_inv_def)
  note tab = sync_tables [OF assms(2)]
  note at = sync_policy_at [OF k assms(2)]
  have k': "distinct (map pkey (t_policies (cx_stored c')))" using at by blast
  have add: "set toAdd = set new - current" and rem: "set toRemove = current - set new"
    using tab assms(4) by (auto simp: sync_toAdd_def sync_toRemove_def)
  have sub: "current \<subseteq> owned" using assms(3,4) read_rows_subset by simp
  have mem: "p \<in> set (feed_prefixes feed_id (cx_stored c')) \<longleftrightarrow> p \<in> set new \<union> (owned - current)" for p
  proof -
    consider (added) "p \<in> set toAdd" | (removed) "p \<notin> set toAdd" "p \<in> set toRemove"
      | (kept) "p \<notin> set toAdd" "p \<notin> set toRemove" by blast
    then show ?thesis
    proof cases
      case added
      then have "\<exists>r. policy_at (cx_stored c') p list = Some r \<and> pr_feed_id r = Some feed_id"
        using at [of p list] by (auto simp: Let_def feed_policy_row_def split: option.split)
      with added add show ?thesis unfolding feed_prefixes_iff [OF k'] by blast
    next
      case removed
      then have "pr_feed_id r \<noteq> Some feed_id" if "policy_at (cx_stored c') p l = Some r" for l r
        using at [of p l] that by (auto simp: Let_def split: option.splits if_splits)
      with removed rem show ?thesis unfolding feed_prefixes_iff [OF k'] by blast
    next
      case kept
      then have "policy_at (cx_stored c') p l = policy_at (cx_stored c) p l" for l
        using at [of p l] by (simp add: Let_def split: option.split)
      then have "p \<in> set (feed_prefixes feed_id (cx_stored c')) \<longleftrightarrow> p \<in> owned"
        unfolding feed_prefixes_iff [OF k'] assms(3) feed_prefixes_iff [OF k] by simp
      with kept add rem sub show ?thesis by blast
    qed
  qed
  moreover have "policy_at (cx_stored c') p l = Some r"
    if "policy_at (cx_stored c) p l = Some r" "pr_feed_id r \<noteq> Some feed_id" "\<not> (l = list \<and> p \<in> set new)" for p l r
    using at [of p l] that add by (auto simp: Let_def)
  moreover have "broken = None \<longrightarrow> owned = current" using assms(3,4) by simp
  moreover have "db_inv (cx_stored c')" using k' tab f by (simp add: db_inv_def)
  ultimately show ?thesis using add rem by blast
qed

abbreviation sample_sync :: "nat option \<Rightarrow> (sql_error + string list \<times> string list) \<times> connection" where
  "sample_sync broken \<equiv>
     SyncFeedPolicies None broken 7 ''now'' ''f'' ''F'' ''blocklist'' [''192.0.2.0/24''] (idle sample_db)"

lemma sample_sync: "fst (sample_sync None) = Inr ([''192.0.2.0/24''], [])"
  by code_simp

theorem sync_feed_exact_witness:
  "set (feed_prefixes ''f'' (cx_stored (snd (sample_sync None)))) = {''192.0.2.0/24''}"
proof -
  have "sample_sync None = (Inr ([''192.0.2.0/24''], []), snd (sample_sync None))"
    using sample_sync by (simp add: prod_eq_iff)
  from sync_feed_exact [OF _ this refl refl] sample_db_inv show ?thesis by simp
qed

text \<open>A reading that breaks off is committed all the same: the feed goes on owning a prefix that is no
  longer on its list, and no later step is told about it.\<close>

theorem broken_sync_keeps_stale:
  assumes "db_inv (cx_stored c)"
    and "SyncFeedPolicies flt (Some k) now now_text feed_id nm list new c = (Inr (toAdd, toRemove), c')"
    and "p \<in> set (feed_prefixes feed_id (cx_stored c))" "p \<notin> set new"
    and "p \<notin> set (take k (feed_prefixes feed_id (cx_stored c)))"
  shows "p \<in> set (feed_prefixes feed_id (cx_stored c')) \<and> p \<notin> set toRemove"
proof -
  note tab = sync_tables [OF assms(2)]
  have p: "p \<notin> set toAdd" "p \<notin> set toRemove"
    using tab assms(4,5) by (auto simp: sync_toAdd_def sync_toRemove_def read_rows_def)
  have k: "distinct (map pkey (t_policies (cx_stored c)))" using assms(1) by (simp add: db_inv_def)
  note at = sync_policy_at [OF k assms(2), of p]
  have same: "policy_at (cx_stored c') p l = policy_at (cx_stored c) p l" for l
    using at [of l] p by (simp add: Let_def split: option.split)
  have k': "distinct (map pkey (t_policies (cx_stored c')))" using at by blast
  have "p \<in> set (feed_prefixes feed_id (cx_stored c'))"
    using assms(3) unfolding feed_prefixes_iff [OF k] feed_prefixes_iff [OF k'] same .
  with p(2) show ?thesis by blast
qed

text \<open>C37: a transaction leaves all of its work or none. Whichever of the statements of a feed
  synchronisation, a feed deletion or a bulk removal fails, the begin and the commit included, the
  stored tables are as they were and no transaction is left open on the connection. A deletion or
  a bulk removal that succeeds has stored exactly the removal of the feed and its policies, or of
  the named prefixes of that list, and is over too.\<close>

theorem transactions_atomic:
  assumes "cx_tx c = None"
  shows "(\<forall>x c'. SyncFeedPolicies flt broken now now_text feed_id nm list new c = (x, c') \<longrightarrow>
        cx_tx c' = None \<and> (isl x \<longrightarrow> cx_stored c' = cx_stored c)) \<and>
     (\<forall>x c'. sql_DeleteFeed flt broken feed_id c = (x, c') \<longrightarrow>
        cx_tx c' = None \<and>
        cx_stored c' = (if isl x then cx_stored c else (cx_stored c)\<lparr>
          t_policies := filter (\<lambda>r. pr_feed_id r \<noteq> Some feed_id) (t_policies (cx_stored c)),
          t_feeds := filter (\<lambda>r. fr_id r \<noteq> feed_id) (t_feeds (cx_stored c))\<rparr>)) \<and>
     (\<forall>x c'. BulkRemovePolicies flt list ps c = (x, c') \<longrightarrow>
        cx_tx c' = None \<and>
        cx_stored c' = (if isl x then cx_stored c else (cx_stored c)\<lparr>
          t_policies := filter (\<lambda>r. \<not> (pr_prefix r \<in> set ps \<and> pr_list r = list)) (t_policies (cx_stored c))\<rparr>))"
proof (intro conjI allI impI)
  fix x c'
  assume "SyncFeedPolicies flt broken now now_text feed_id nm list new c = (x, c')"
  then show "cx_tx c' = None" "isl x \<Longrightarrow> cx_stored c' = cx_stored c"
    using assms by (cases rule: sync_cases; auto)+
next
  fix x c'
  assume "sql_DeleteFeed flt broken feed_id c = (x, c')"
  then show "cx_tx c' = None" "cx_stored c' = (if isl x then cx_stored c else (cx_stored c)\<lparr>
      t_policies := filter (\<lambda>r. pr_feed_id r \<noteq> Some feed_id) (t_policies (cx_stored c)),
      t_feeds := filter (\<lambda>r. fr_id r \<noteq> feed_id) (t_feeds (cx_stored c))\<rparr>)"
    using assms by (cases rule: delete_feed_cases; auto simp: delete_where_def)+
next
  fix x c'
  assume "BulkRemovePolicies flt list ps c = (x, c')"
  then show "cx_tx c' = None" "cx_stored c' = (if isl x then cx_stored c else (cx_stored c)\<lparr>
      t_policies := filter (\<lambda>r. \<not> (pr_prefix r \<in> set ps \<and> pr_list r = list)) (t_policies (cx_stored c))\<rparr>)"
    using assms by (cases rule: bulk_cases; auto simp: delete_where_def)+
qed

theorem transactions_atomic_witness:
  "sql_DeleteFeed (Some 4) None ''f'' (idle sample_db) = (Inl (SqlFailed 4), idle sample_db)"
proof -
  have "fst (sql_DeleteFeed (Some 4) None ''f'' (idle sample_db)) = Inl (SqlFailed 4)" by code_simp
  then obtain c' where run: "sql_DeleteFeed (Some 4) None ''f'' (idle sample_db) = (Inl (SqlFailed 4), c')"
    by (metis prod.collapse)
  have "cx_tx c' = None \<and> cx_stored c' = sample_db"
    using transactions_atomic [of "idle sample_db" "Some 4" None 0 "[]" "''f''" "[]" "[]" "[]" "[]"] run by auto
  with run show ?thesis by (simp add: idle_def)
qed

text \<open>A feed that lists a prefix someone else put on the same list takes the row over, and
  deleting the feed then deletes that prefix although it was never the feed's.\<close>

theorem feed_takes_over_policy:
  assumes "db_inv (cx_stored c)" "policy_at (cx_stored c) p list = Some r" "p \<in> set new"
    and "p \<notin> set (feed_prefixes feed_id (cx_stored c))"
    and "SyncFeedPolicies flt broken now now_text feed_id nm list new c = (Inr (toAdd, toRemove), c1)"
    and "sql_DeleteFeed flt' broken' feed_id c1 = (Inr x, c2)"
  shows "policy_at (cx_stored c1) p list = Some (r\<lparr>pr_source := nm, pr_feed_id := Some feed_id\<rparr>) \<and>
     policy_at (cx_stored c2) p list = None"
proof -
  have k: "distinct (map pkey (t_policies (cx_stored c)))" using assms(1) by (simp add: db_inv_def)
  have "pr_feed_id r \<noteq> Some feed_id" using assms(2,4) unfolding feed_prefixes_iff [OF k] by blast
  moreover have "p \<in> set toAdd"
    using sync_tables [OF assms(5)] assms(3,4) read_rows_subset by (fastforce simp: sync_toAdd_def)
  ultimately have c1: "policy_at (cx_stored c1) p list = Some (r\<lparr>pr_source := nm, pr_feed_id := Some feed_id\<rparr>)"
    "distinct (map pkey (t_policies (cx_stored c1)))"
    using sync_policy_at [OF k assms(5), of p list] assms(2) by (simp_all add: Let_def)
  obtain ps l where "x = (ps, l)" by (cases x)
  then have "t_policies (cx_stored c2) = delete_where (\<lambda>r. pr_feed_id r = Some feed_id) (t_policies (cx_stored c1))"
    using delete_feed_tables assms(6) by blast
  with c1 show ?thesis by (simp add: row_at_delete_where)
qed

theorem feed_takes_over_policy_witness:
  "policy_at (cx_stored (snd (sql_DeleteFeed None None ''f'' (snd (sample_sync None))))) ''192.0.2.0/24'' ''blocklist'' = None"
proof -
  let ?c1 = "snd (sample_sync None)"
  have sync: "sample_sync None = (Inr ([''192.0.2.0/24''], []), ?c1)"
    using sample_sync by (simp add: prod_eq_iff)
  obtain x c2 where d: "sql_DeleteFeed None None ''f'' ?c1 = (x, c2)" by fastforce
  then obtain y where del: "sql_DeleteFeed None None ''f'' ?c1 = (Inr y, c2)"
    by (rule delete_feed_cases) (use d in blast)+
  have row: "policy_at (cx_stored (idle sample_db)) ''192.0.2.0/24'' ''blocklist'' = Some row_manual"
    by (simp add: sample_db_def row_manual_def)
  have none: "feed_prefixes ''f'' (cx_stored (idle sample_db)) = []"
    by (simp add: sample_db_def row_manual_def feed_prefixes_def)
  show ?thesis unfolding del
    using feed_takes_over_policy [THEN conjunct2, OF _ row _ _ sync del] sample_db_inv none by simp
qed

lemma take_drop_pages:
  "concat (map (\<lambda>i. take m (drop (i * m) xs)) [0..<n]) = take (n * m) xs"
proof (induction n)
  case (Suc n)
  have "take (n * m + m) xs = take (n * m) xs @ take m (drop (n * m) xs)" by (rule take_add)
  with Suc show ?case by (simp add: add.commute)
qed simp

lemma concat_map_map: "concat (map (\<lambda>i. map f (g i)) xs) = map f (concat (map g xs))"
  by (induction xs) auto

fun page_items :: "sql_error + policy_item list \<times> int \<Rightarrow> policy_item list" where
  "page_items (Inr (items, matching)) = items"
| "page_items (Inl e) = []"

definition matching_policies :: "(string \<Rightarrow> string \<Rightarrow> bool) \<Rightarrow> string \<Rightarrow> string \<Rightarrow> db \<Rightarrow> policy_row list" where
  "matching_policies like list search d =
     (let pattern = ''%'' @ TrimSpace search @ ''%'' in
      filter (\<lambda>r. pr_list r = list \<and>
        (TrimSpace search \<noteq> [] \<longrightarrow> like pattern (pr_prefix r) \<or> like pattern (pr_source r))) (t_policies d))"

text \<open>Pagination loses and repeats nothing. Over an unchanged table, the pages 1 to \<open>n\<close> laid
  end to end are the matching policies in the database's order, as soon as \<open>n\<close> pages have room for
  all; and every page reports the full number of matches.\<close>

theorem pages_partition:
  assumes "0 < limit" "int n * limit < 2 ^ 63" "length (t_policies d) \<le> n * nat limit"
    and "\<And>rows. mset (newest rows) = mset rows"
  shows "concat (map (\<lambda>i. page_items (ListPoliciesPaginated like newest None list search (int i) limit d)) [1..<Suc n]) =
       map item_of_row (newest (matching_policies like list search d)) \<and>
     (\<forall>i. \<exists>items. ListPoliciesPaginated like newest None list search i limit d = Inr (items, int (length (matching_policies like list search d))) \<and> length items \<le> nat limit)"
proof
  have off: "page_offset (int (Suc i)) limit = int i * limit" if "i < n" for i
  proof -
    have "int i * limit < 2 ^ 63" "0 \<le> int i * limit"
      using that assms(1,2) by (auto intro: le_less_trans [OF mult_right_mono, of "int i" "int n"])
    then show ?thesis
      by (simp add: page_offset_def signed_of_int signed_take_bit_int_eq_self
          del: of_int_mult of_int_of_nat_eq)
  qed
  have items: "page_items (ListPoliciesPaginated like newest None list search (int (Suc i)) limit d) =
      map item_of_row (take (nat limit) (drop (i * nat limit) (newest (matching_policies like list search d))))" if "i < n" for i
    using off [OF that] assms(1)
    by (simp add: matching_policies_def ListPoliciesPaginated_def Let_def nat_mult_distrib del: of_nat_Suc)
  have "length (newest (matching_policies like list search d)) \<le> n * nat limit"
  proof -
    have "length (newest (matching_policies like list search d)) = length (matching_policies like list search d)" using assms(4) by (metis size_mset)
    also have "\<dots> \<le> length (t_policies d)" by (simp add: matching_policies_def Let_def)
    finally show ?thesis using assms(3) by simp
  qed
  then have "take (n * nat limit) (newest (matching_policies like list search d)) = newest (matching_policies like list search d)" by simp
  then have "concat (map (\<lambda>i. map item_of_row (take (nat limit) (drop (i * nat limit) (newest (matching_policies like list search d))))) [0..<n]) =
      map item_of_row (newest (matching_policies like list search d))"
    using take_drop_pages [of "nat limit" "newest (matching_policies like list search d)" n]
    by (simp only: concat_map_map)
  moreover have "[1..<Suc n] = map Suc [0..<n]" by (simp add: map_Suc_upt)
  moreover have "map (\<lambda>i. page_items (ListPoliciesPaginated like newest None list search (int (Suc i)) limit d)) [0..<n] =
      map (\<lambda>i. map item_of_row (take (nat limit) (drop (i * nat limit) (newest (matching_policies like list search d))))) [0..<n]"
    using items by (intro map_cong) auto
  ultimately show "concat (map (\<lambda>i. page_items (ListPoliciesPaginated like newest None list search (int i) limit d)) [1..<Suc n]) =
       map item_of_row (newest (matching_policies like list search d))"
    by (simp only: map_map comp_def)
  show "\<forall>i. \<exists>items. ListPoliciesPaginated like newest None list search i limit d = Inr (items, int (length (matching_policies like list search d))) \<and> length items \<le> nat limit"
    using assms(1) by (simp add: matching_policies_def ListPoliciesPaginated_def Let_def)
qed

theorem pages_partition_witness:
  "page_items (ListPoliciesPaginated (=) rev None ''blocklist'' [] 1 25 sample_db) = [item_of_row row_manual]"
proof -
  have "TrimSpace [] = []" using set_TrimSpace [of "[]"] by simp
  then have "rev (matching_policies (=) ''blocklist'' [] sample_db) = [row_manual]"
    by (simp add: matching_policies_def sample_db_def row_manual_def)
  then show ?thesis
    using pages_partition [of 25 1 sample_db rev "(=)" "''blocklist''" "[]"]
    by (simp add: sample_db_def)
qed

end
