(* ===== verification/Route_Delta.thy ===== *)
theory Route_Delta
  imports Adapter Bgp_Engine Sql_Store
begin

text \<open>
  The core of \<open>internal/runtime/policy.go\<close>: the controller's state, the routes a policy asks for
  (\<open>effectiveRoutes\<close>) and the moves of the engine to them (\<open>applyDelta\<close>). The engine is an
  argument, as the interface \<open>Engine\<close> of \<open>internal/runtime/server.go\<close> is in the source; its laws
  are the locale \<open>route_engine\<close>, inside which the lemmas on \<open>applyDelta\<close> are proved once.
\<close>

section \<open>State\<close>

datatype 'x ctl_error =
    ApplyDryRun
  | CtlCanonicalPrefix
  | CtlUnsupportedList string
  | CtlUnsupportedAction string
  | WithdrawFailed prefix 'x
  | AnnounceFailed prefix 'x
  | CtlStoreFailed adapter_error
  | CtlSqlFailed sql_error

text \<open>\<open>ct_published\<close> lists the calls of the publish callback; \<open>ct_wake\<close> is the one slot of the wake
  channel.\<close>

record 'e controller =
  ct_store :: store
  ct_disk :: disk
  ct_sql :: "db option"
  ct_engine :: 'e
  ct_dryRun :: bool
  ct_nextHopV4 :: addr
  ct_nextHopV6 :: addr
  ct_publish :: bool
  ct_published :: "policy_mutation list"
  ct_active :: "(prefix, route) gomap"
  ct_wake :: bool

text \<open>What one call observes of its surroundings: two clock readings, the file system, and which
  statement on the database fails or breaks off.\<close>

record ctl_env =
  ce_now :: time
  ce_now2 :: time
  ce_stamp :: time
  ce_io :: io
  ce_sql_write :: "nat option"
  ce_sql_audit :: "nat option"
  ce_sql_block :: "nat option"
  ce_sql_allow :: "nat option"
  ce_sql_blockRows :: "nat option"
  ce_sql_allowRows :: "nat option"

definition newPolicyController :: "store \<Rightarrow> disk \<Rightarrow> db option \<Rightarrow> 'e \<Rightarrow> bool \<Rightarrow> addr \<Rightarrow> addr \<Rightarrow> bool
    \<Rightarrow> 'e controller" where
  "newPolicyController s d sql e dryRun nh4 nh6 pub =
     \<lparr>ct_store = s, ct_disk = d, ct_sql = sql, ct_engine = e, ct_dryRun = dryRun,
      ct_nextHopV4 = nh4, ct_nextHopV6 = nh6, ct_publish = pub, ct_published = [], ct_active = [],
      ct_wake = False\<rparr>"

section \<open>Routes the policy asks for\<close>

definition route_for :: "addr \<Rightarrow> addr \<Rightarrow> prefix \<Rightarrow> route" where
  "route_for nh4 nh6 prefix =
     \<lparr>rt_Prefix = prefix, rt_NextHop = (if Is6 (pfx_addr prefix) then nh6 else nh4),
      rt_Communities = [BlackholeCommunity]\<rparr>"

definition expired :: "(prefix, time) gomap \<Rightarrow> time \<Rightarrow> prefix \<Rightarrow> bool" where
  "expired es now prefix = (case lookup es prefix of Some expiry \<Rightarrow> \<not> expiry > now | None \<Rightarrow> False)"

fun suppressed :: "prefix list \<Rightarrow> prefix \<Rightarrow> bool" where
  "suppressed [] prefix = False"
| "suppressed (w # ws) prefix =
     (if Contains prefix (pfx_addr w) \<or> Contains w (pfx_addr prefix) then True
      else suppressed ws prefix)"

fun effectiveRoutes_from :: "prefix list \<Rightarrow> prefix list \<Rightarrow> (prefix, time) gomap \<Rightarrow> time \<Rightarrow> addr \<Rightarrow> addr
    \<Rightarrow> (prefix, route) gomap \<Rightarrow> (prefix, route) gomap" where
  "effectiveRoutes_from [] wl es now nh4 nh6 routes = routes"
| "effectiveRoutes_from (p # ps) wl es now nh4 nh6 routes =
     (if expired es now p then effectiveRoutes_from ps wl es now nh4 nh6 routes
      else if suppressed wl p then effectiveRoutes_from ps wl es now nh4 nh6 routes
      else effectiveRoutes_from ps wl es now nh4 nh6 (AList.update p (route_for nh4 nh6 p) routes))"

definition effectiveRoutes :: "prefix list \<Rightarrow> prefix list \<Rightarrow> (prefix, time) gomap \<Rightarrow> time \<Rightarrow> addr \<Rightarrow> addr
    \<Rightarrow> (prefix, route) gomap" where
  "effectiveRoutes bl wl es now nh4 nh6 = effectiveRoutes_from bl wl es now nh4 nh6 []"

text \<open>In SQL mode the errors of the reads are dropped, so that a list that could not be read is empty and
  one whose reading broke off is a part; the expiries are not consulted.\<close>

definition routes :: "ctl_env \<Rightarrow> time \<Rightarrow> 'e controller \<Rightarrow> (prefix, route) gomap" where
  "routes env now c =
     (case ct_sql c of
        Some d \<Rightarrow>
          effectiveRoutes (fst (AllPrefixes (ce_sql_block env) (ce_sql_blockRows env) ''blocklist'' d))
            (fst (AllPrefixes (ce_sql_allow env) (ce_sql_allowRows env) ''whitelist'' d)) [] now (ct_nextHopV4 c) (ct_nextHopV6 c)
      | None \<Rightarrow>
          effectiveRoutes (blocklist (ct_store c)) (whitelist (ct_store c)) (Expirations (ct_store c))
            now (ct_nextHopV4 c) (ct_nextHopV6 c))"

section \<open>Moving the engine to the desired routes\<close>

type_synonym ('e, 'x) route_op = "route \<Rightarrow> 'e \<Rightarrow> 'x option \<times> 'e"

text \<open>Rolling back: the errors of the calls are dropped.\<close>

definition all_routes :: "('e, 'x) route_op \<Rightarrow> route list \<Rightarrow> 'e \<Rightarrow> 'e" where
  "all_routes f rs e = fold (\<lambda>r e. snd (f r e)) rs e"

fun withdraw_stale :: "('e, 'x) route_op \<Rightarrow> ('e, 'x) route_op \<Rightarrow> (prefix, route) gomap
    \<Rightarrow> (prefix, route) gomap \<Rightarrow> route list \<Rightarrow> 'e \<Rightarrow> 'x ctl_error option \<times> route list \<times> 'e" where
  "withdraw_stale an wd desired [] withdrawn e = (None, withdrawn, e)"
| "withdraw_stale an wd desired ((prefix, route) # active) withdrawn e =
     (if lookup desired prefix \<noteq> None then withdraw_stale an wd desired active withdrawn e
      else case wd route e of
        (Some x, e) \<Rightarrow> (Some (WithdrawFailed prefix x), withdrawn, all_routes an withdrawn e)
      | (None, e) \<Rightarrow> withdraw_stale an wd desired active (withdrawn @ [route]) e)"

fun announce_new :: "('e, 'x) route_op \<Rightarrow> ('e, 'x) route_op \<Rightarrow> (prefix, route) gomap \<Rightarrow> route list
    \<Rightarrow> (prefix, route) gomap \<Rightarrow> route list \<Rightarrow> 'e \<Rightarrow> 'x ctl_error option \<times> 'e" where
  "announce_new an wd active withdrawn [] announced e = (None, e)"
| "announce_new an wd active withdrawn ((prefix, route) # desired) announced e =
     (if lookup active prefix \<noteq> None then announce_new an wd active withdrawn desired announced e
      else case an route e of
        (Some x, e) \<Rightarrow> (Some (AnnounceFailed prefix x),
                       all_routes an withdrawn (all_routes wd announced e))
      | (None, e) \<Rightarrow> announce_new an wd active withdrawn desired (announced @ [route]) e)"

definition applyDelta :: "('e, 'x) route_op \<Rightarrow> ('e, 'x) route_op \<Rightarrow> (prefix, route) gomap
    \<Rightarrow> 'e controller \<Rightarrow> 'x ctl_error option \<times> 'e controller" where
  "applyDelta an wd desired c =
     (case withdraw_stale an wd desired (ct_active c) [] (ct_engine c) of
        (Some x, _, e) \<Rightarrow> (Some x, c\<lparr>ct_engine := e\<rparr>)
      | (None, withdrawn, e) \<Rightarrow>
          (case announce_new an wd (ct_active c) withdrawn desired [] e of
             (Some x, e) \<Rightarrow> (Some x, c\<lparr>ct_engine := e\<rparr>)
           | (None, e) \<Rightarrow> (None, c\<lparr>ct_engine := e, ct_active := desired\<rparr>)))"

section \<open>What the effective routes are\<close>

lemma suppressed_iff: "suppressed ws p \<longleftrightarrow> (\<exists>w \<in> set ws. overlap_test p w)"
  by (induction ws) (auto simp: overlap_test_def)

definition wanted :: "prefix list \<Rightarrow> prefix list \<Rightarrow> (prefix, time) gomap \<Rightarrow> time \<Rightarrow> prefix \<Rightarrow> bool" where
  "wanted bl wl es now p = (p \<in> set bl \<and> \<not> expired es now p \<and> \<not> suppressed wl p)"

lemma effectiveRoutes_from_lookup:
  "lookup (effectiveRoutes_from ps wl es now nh4 nh6 rs) p =
     (if wanted ps wl es now p then Some (route_for nh4 nh6 p) else lookup rs p)"
  by (induction ps wl es now nh4 nh6 rs rule: effectiveRoutes_from.induct) (auto simp: wanted_def)

lemma effectiveRoutes_from_wf:
  "wf_map rs \<Longrightarrow> wf_map (effectiveRoutes_from ps wl es now nh4 nh6 rs)"
  by (induction ps wl es now nh4 nh6 rs rule: effectiveRoutes_from.induct) auto

lemma effectiveRoutes_lookup:
  "lookup (effectiveRoutes bl wl es now nh4 nh6) p =
     (if wanted bl wl es now p then Some (route_for nh4 nh6 p) else None)"
  by (simp add: effectiveRoutes_def effectiveRoutes_from_lookup)

lemma effectiveRoutes_wf [simp]: "wf_map (effectiveRoutes bl wl es now nh4 nh6)"
  by (simp add: effectiveRoutes_def effectiveRoutes_from_wf)

lemma route_for_Prefix [simp]: "rt_Prefix (route_for nh4 nh6 p) = p"
  by (simp add: route_for_def)

text \<open>A table of routes built by the controller: canonical prefixes, each with the route the
  configured next hops give it.\<close>

definition wf_routes :: "addr \<Rightarrow> addr \<Rightarrow> (prefix, route) gomap \<Rightarrow> bool" where
  "wf_routes nh4 nh6 m = (wf_map m \<and> (\<forall>(p, r) \<in> set m. canonical p \<and> r = route_for nh4 nh6 p))"

lemma wf_routes_Nil [simp, inv_intros]: "wf_routes nh4 nh6 []"
  by (simp add: wf_routes_def)

lemma wf_routes_lookup:
  "wf_routes nh4 nh6 m \<Longrightarrow> lookup m p = Some r \<Longrightarrow> canonical p \<and> r = route_for nh4 nh6 p"
  by (auto simp: wf_routes_def dest: map_of_SomeD)

lemma wf_routes_effective [inv_intros]:
  assumes "\<forall>p \<in> set bl. canonical p"
  shows "wf_routes nh4 nh6 (effectiveRoutes bl wl es now nh4 nh6)"
proof -
  let ?m = "effectiveRoutes bl wl es now nh4 nh6"
  have "canonical p \<and> r = route_for nh4 nh6 p" if "(p, r) \<in> set ?m" for p r
  proof -
    have "lookup ?m p = Some r" using that by (simp add: map_of_eq_Some_iff)
    then show ?thesis using assms by (auto simp: effectiveRoutes_lookup wanted_def split: if_splits)
  qed
  then show ?thesis by (auto simp: wf_routes_def)
qed

section \<open>The engine follows\<close>

text \<open>The engine announces exactly the routes of a table; an operation that does not fail on some
  routes. Both are over the observations the interface gives.\<close>

definition agrees :: "('e \<Rightarrow> bool) \<Rightarrow> ('e \<Rightarrow> prefix \<Rightarrow> 'y option) \<Rightarrow> ('e \<Rightarrow> route \<Rightarrow> 'y option) \<Rightarrow> 'e
    \<Rightarrow> (prefix, route) gomap \<Rightarrow> bool" where
  "agrees einv rib encode e m = (einv e \<and> (\<forall>p. canonical p \<longrightarrow>
     rib e p = (case lookup m p of None \<Rightarrow> None | Some r \<Rightarrow> encode e r)))"

definition never_fails :: "('e \<Rightarrow> bool) \<Rightarrow> ('e, 'x) route_op \<Rightarrow> route set \<Rightarrow> bool" where
  "never_fails einv f rs = (\<forall>r \<in> rs. \<forall>e. einv e \<longrightarrow> fst (f r e) = None)"

text \<open>A table with the routes of a list put in, or taken out.\<close>

definition put :: "(route \<Rightarrow> 'y option) \<Rightarrow> route list \<Rightarrow> (prefix \<Rightarrow> 'y option) \<Rightarrow> prefix \<Rightarrow> 'y option" where
  "put enc rs t = fold (\<lambda>r t. t(rt_Prefix r := enc r)) rs t"

lemma put_snoc: "put enc (rs @ [r]) t = (put enc rs t)(rt_Prefix r := enc r)"
  by (simp add: put_def)

lemma put_Nil [simp]: "put enc [] t = t"
  by (simp add: put_def)

lemma put_Cons: "put enc (r # rs) t = put enc rs (t(rt_Prefix r := enc r))"
  by (simp add: put_def)

lemma put_other: "p \<notin> rt_Prefix ` set rs \<Longrightarrow> put enc rs t p = t p"
  by (induction rs arbitrary: t) (auto simp: put_def)

lemma put_None_mem: "p \<in> rt_Prefix ` set rs \<Longrightarrow> put (\<lambda>_. None) rs t p = None"
proof (induction rs rule: rev_induct)
  case (snoc r rs)
  then show ?case by (cases "rt_Prefix r = p") (auto simp: put_snoc)
qed simp

lemma put_mem:
  assumes "\<forall>r \<in> set rs. rt_Prefix r = p \<longrightarrow> enc r = y" "p \<in> rt_Prefix ` set rs"
  shows "put enc rs t p = y"
  using assms
proof (induction rs rule: rev_induct)
  case (snoc r rs)
  then show ?case by (cases "rt_Prefix r = p") (auto simp: put_snoc)
qed simp

text \<open>The routes of one table whose prefixes another does not have.\<close>

definition only_in :: "(prefix, route) gomap \<Rightarrow> (prefix, route) gomap \<Rightarrow> route list" where
  "only_in m m' = map snd (filter (\<lambda>(p, r). lookup m' p = None) m)"

lemma only_in_Cons [simp]:
  "only_in [] m' = []"
  "only_in ((p, r) # m) m' = (if lookup m' p = None then r # only_in m m' else only_in m m')"
  by (simp_all add: only_in_def)

lemma only_in_mem:
  assumes "wf_routes nh4 nh6 m"
  shows "r \<in> set (only_in m m') \<longleftrightarrow> lookup m (rt_Prefix r) = Some r \<and> lookup m' (rt_Prefix r) = None"
proof
  assume "r \<in> set (only_in m m')"
  then obtain p where p: "(p, r) \<in> set m" "lookup m' p = None"
    by (auto simp: only_in_def)
  with assms have "rt_Prefix r = p" by (auto simp: wf_routes_def)
  with p assms show "lookup m (rt_Prefix r) = Some r \<and> lookup m' (rt_Prefix r) = None"
    by (simp add: wf_routes_def)
qed (force simp: only_in_def dest: map_of_SomeD)

lemma only_in_canonical: "wf_routes nh4 nh6 m \<Longrightarrow> r \<in> set (only_in m m') \<Longrightarrow> canonical (rt_Prefix r)"
  using only_in_mem wf_routes_lookup by blast

lemma only_in_Prefix:
  assumes "wf_routes nh4 nh6 m"
  shows "p \<in> rt_Prefix ` set (only_in m m') \<longleftrightarrow> lookup m p \<noteq> None \<and> lookup m' p = None"
proof
  assume "lookup m p \<noteq> None \<and> lookup m' p = None"
  then obtain r where r: "lookup m p = Some r" "lookup m' p = None" by auto
  then have "rt_Prefix r = p" using wf_routes_lookup [OF assms r(1)] by simp
  with r only_in_mem [OF assms, of r m'] show "p \<in> rt_Prefix ` set (only_in m m')" by force
qed (auto simp: only_in_mem [OF assms])

context route_engine begin

text \<open>The engine moved from \<open>e\<close> to \<open>e'\<close> and its table is \<open>t\<close>.\<close>

definition follows :: "'e \<Rightarrow> 'e \<Rightarrow> (prefix \<Rightarrow> 'y option) \<Rightarrow> bool" where
  "follows e e' t = (einv e' \<and> encode e' = encode e \<and> rib e' = t)"

lemma announce_follows:
  assumes "einv e" "canonical (rt_Prefix r)" "announce r e = (x, e')"
  shows "follows e e' (if x = None then (rib e)(rt_Prefix r := encode e r) else rib e)"
  using announce_ok [OF assms(1,2)] announce_err [OF assms(1)] assms(3)
  by (cases x) (auto simp: follows_def)

lemma withdraw_follows:
  assumes "einv e" "canonical (rt_Prefix r)" "withdraw r e = (x, e')"
  shows "follows e e' (if x = None then (rib e)(rt_Prefix r := None) else rib e)"
  using withdraw_ok [OF assms(1,2)] withdraw_err [OF assms(1)] assms(3)
  by (cases x) (auto simp: follows_def)

lemma announce_all:
  assumes "einv e" "\<forall>r \<in> set rs. canonical (rt_Prefix r)" "never_fails einv announce (set rs)"
  shows "follows e (all_routes announce rs e) (put (encode e) rs (rib e))"
  using assms
proof (induction rs arbitrary: e)
  case (Cons r rs)
  obtain x e1 where a: "announce r e = (x, e1)" by (cases "announce r e")
  have "fst (announce r e) = None" using Cons.prems by (simp add: never_fails_def)
  with a announce_follows [OF Cons.prems(1) _ a] Cons.prems
  have e1: "einv e1" "encode e1 = encode e" "rib e1 = (rib e)(rt_Prefix r := encode e r)"
    by (simp_all add: follows_def)
  have "never_fails einv announce (set rs)" using Cons.prems(3) by (simp add: never_fails_def)
  with Cons.IH [OF e1(1)] Cons.prems(2)
  have "follows e1 (all_routes announce rs e1) (put (encode e1) rs (rib e1))" by simp
  moreover have "all_routes announce (r # rs) e = all_routes announce rs e1" using a by (simp add: all_routes_def)
  ultimately show ?case unfolding follows_def e1(2,3) put_Cons by simp
qed (simp add: all_routes_def follows_def)

lemma withdraw_all:
  assumes "einv e" "\<forall>r \<in> set rs. canonical (rt_Prefix r)" "never_fails einv withdraw (set rs)"
  shows "follows e (all_routes withdraw rs e) (put (\<lambda>_. None) rs (rib e))"
  using assms
proof (induction rs arbitrary: e)
  case (Cons r rs)
  obtain x e1 where a: "withdraw r e = (x, e1)" by (cases "withdraw r e")
  have "fst (withdraw r e) = None" using Cons.prems by (simp add: never_fails_def)
  with a withdraw_follows [OF Cons.prems(1) _ a] Cons.prems
  have e1: "einv e1" "encode e1 = encode e" "rib e1 = (rib e)(rt_Prefix r := None)"
    by (simp_all add: follows_def)
  have "never_fails einv withdraw (set rs)" using Cons.prems(3) by (simp add: never_fails_def)
  with Cons.IH [OF e1(1)] Cons.prems(2)
  have "follows e1 (all_routes withdraw rs e1) (put (\<lambda>_. None) rs (rib e1))" by simp
  moreover have "all_routes withdraw (r # rs) e = all_routes withdraw rs e1" using a by (simp add: all_routes_def)
  ultimately show ?case unfolding follows_def e1(2,3) put_Cons by simp
qed (simp add: all_routes_def follows_def)

text \<open>Whatever fails, only the prefixes of the listed routes can change.\<close>

lemma all_routes_frame:
  assumes "einv e" "\<forall>r \<in> set rs. canonical (rt_Prefix r)" "f = announce \<or> f = withdraw"
  shows "einv (all_routes f rs e) \<and> encode (all_routes f rs e) = encode e \<and>
     (\<forall>p. p \<notin> rt_Prefix ` set rs \<longrightarrow> rib (all_routes f rs e) p = rib e p)"
  using assms(1,2)
proof (induction rs arbitrary: e)
  case (Cons r rs)
  obtain x e1 where a: "f r e = (x, e1)" by (cases "f r e")
  then have "\<exists>t. follows e e1 t \<and> (\<forall>p. p \<noteq> rt_Prefix r \<longrightarrow> t p = rib e p)"
    using assms(3) announce_follows [OF Cons.prems(1), of r x e1]
      withdraw_follows [OF Cons.prems(1), of r x e1] Cons.prems(2) by auto
  then have "einv e1" "encode e1 = encode e" "\<forall>p. p \<noteq> rt_Prefix r \<longrightarrow> rib e1 p = rib e p"
    by (auto simp: follows_def)
  with Cons.IH [of e1] Cons.prems(2) a show ?case by (simp add: all_routes_def)
qed (simp add: all_routes_def)

text \<open>The two loops: the engine reaches a state with the routes so far taken out (put in), and
  either the loop is through or the rollback starts there.\<close>

lemma withdraw_stale_run:
  assumes "einv e" "rib e = put (\<lambda>_. None) ws t" "\<forall>(p, r) \<in> set as. rt_Prefix r = p \<and> canonical p"
    and "withdraw_stale announce withdraw desired as ws e = (x, ws', e')"
  shows "\<exists>new e1. set new \<subseteq> set (only_in as desired) \<and> ws' = ws @ new \<and>
     follows e e1 (put (\<lambda>_. None) ws' t) \<and>
     (if x = None then e' = e1 \<and> new = only_in as desired else e' = all_routes announce ws' e1)"
  using assms
proof (induction as arbitrary: ws e)
  case Nil
  then show ?case by (auto simp: follows_def)
next
  case (Cons pr as)
  obtain p r where pr: "pr = (p, r)" by (cases pr)
  with Cons.prems have p: "rt_Prefix r = p" "canonical p" by auto
  show ?case
  proof (cases "lookup desired p")
    case (Some r')
    then have only: "only_in (pr # as) desired = only_in as desired"
      and loop: "withdraw_stale announce withdraw desired as ws e = (x, ws', e')"
      using Cons.prems(4) pr by simp_all
    have "\<forall>(p, r) \<in> set as. rt_Prefix r = p \<and> canonical p" using Cons.prems(3) by simp
    from Cons.IH [OF Cons.prems(1,2) this loop] show ?thesis unfolding only .
  next
    case None
    obtain y e1 where w: "withdraw r e = (y, e1)" by (cases "withdraw r e")
    note f = withdraw_follows [OF Cons.prems(1) _ w, unfolded p(1), OF p(2)]
    show ?thesis
    proof (cases y)
      case (Some z)
      with w None pr Cons.prems(4) have "x = Some (WithdrawFailed p z)" "ws' = ws" "e' = all_routes announce ws e1"
        by auto
      moreover have "follows e e1 (put (\<lambda>_. None) ws t)" using f Some Cons.prems(2) by simp
      ultimately show ?thesis by (intro exI [of _ "[]"] exI [of _ e1]) simp
    next
      case n: None
      have e1: "einv e1" "encode e1 = encode e" "rib e1 = put (\<lambda>_. None) (ws @ [r]) t"
        using f n Cons.prems(2) p(1) by (simp_all add: follows_def put_snoc)
      have "withdraw_stale announce withdraw desired as (ws @ [r]) e1 = (x, ws', e')"
        using Cons.prems(4) w n None pr by simp
      from Cons.IH [OF e1(1,3) _ this] Cons.prems(3) obtain new e2 where
        "set new \<subseteq> set (only_in as desired)" "ws' = (ws @ [r]) @ new"
        "follows e1 e2 (put (\<lambda>_. None) ws' t)"
        "if x = None then e' = e2 \<and> new = only_in as desired else e' = all_routes announce ws' e2"
        by auto
      then show ?thesis using e1(2) None pr
        by (intro exI [of _ "r # new"] exI [of _ e2]) (auto simp: follows_def split: if_splits)
    qed
  qed
qed

lemma announce_new_run:
  assumes "einv e" "rib e = put (encode e) rs t" "\<forall>(p, r) \<in> set ds. rt_Prefix r = p \<and> canonical p"
    and "announce_new announce withdraw active ws ds rs e = (x, e')"
  shows "\<exists>new e1. set new \<subseteq> set (only_in ds active) \<and>
     follows e e1 (put (encode e) (rs @ new) t) \<and>
     (if x = None then e' = e1 \<and> new = only_in ds active
      else e' = all_routes announce ws (all_routes withdraw (rs @ new) e1))"
  using assms
proof (induction ds arbitrary: rs e)
  case Nil
  then show ?case by (auto simp: follows_def)
next
  case (Cons pr ds)
  obtain p r where pr: "pr = (p, r)" by (cases pr)
  with Cons.prems have p: "rt_Prefix r = p" "canonical p" by auto
  show ?case
  proof (cases "lookup active p")
    case (Some r')
    then have only: "only_in (pr # ds) active = only_in ds active"
      and loop: "announce_new announce withdraw active ws ds rs e = (x, e')"
      using Cons.prems(4) pr by simp_all
    have "\<forall>(p, r) \<in> set ds. rt_Prefix r = p \<and> canonical p" using Cons.prems(3) by simp
    from Cons.IH [OF Cons.prems(1,2) this loop] show ?thesis unfolding only .
  next
    case None
    obtain y e1 where w: "announce r e = (y, e1)" by (cases "announce r e")
    note f = announce_follows [OF Cons.prems(1) _ w, unfolded p(1), OF p(2)]
    show ?thesis
    proof (cases y)
      case (Some z)
      with w None pr Cons.prems(4) have "x = Some (AnnounceFailed p z)"
        "e' = all_routes announce ws (all_routes withdraw rs e1)" by auto
      moreover have "follows e e1 (put (encode e) rs t)" using f Some Cons.prems(2) by simp
      ultimately show ?thesis by (intro exI [of _ "[]"] exI [of _ e1]) simp
    next
      case n: None
      have e1: "einv e1" "encode e1 = encode e" "rib e1 = put (encode e1) (rs @ [r]) t"
        using f n Cons.prems(2) p(1) by (simp_all add: follows_def put_snoc)
      have "announce_new announce withdraw active ws ds (rs @ [r]) e1 = (x, e')"
        using Cons.prems(4) w n None pr by simp
      from Cons.IH [OF e1(1,3) _ this] Cons.prems(3) obtain new e2 where
        "set new \<subseteq> set (only_in ds active)" "follows e1 e2 (put (encode e1) ((rs @ [r]) @ new) t)"
        "if x = None then e' = e2 \<and> new = only_in ds active
         else e' = all_routes announce ws (all_routes withdraw ((rs @ [r]) @ new) e2)"
        by auto
      then show ?thesis using e1(2) None pr
        by (intro exI [of _ "r # new"] exI [of _ e2]) (auto simp: follows_def split: if_splits)
    qed
  qed
qed

text \<open>The loops started by \<open>applyDelta\<close>, by outcome.\<close>

lemma applyDelta_run:
  assumes "einv e" "wf_routes nh4 nh6 active" "wf_routes nh4 nh6 desired" "ct_engine c = e" "ct_active c = active"
    and "applyDelta announce withdraw desired c = (x, c')"
  obtains (through) e' where "x = None" "c' = c\<lparr>ct_engine := e', ct_active := desired\<rparr>"
      "follows e e' (put (encode e) (only_in desired active) (put (\<lambda>_. None) (only_in active desired) (rib e)))"
  | (stale) ws e1 where "x \<noteq> None" "c' = c\<lparr>ct_engine := all_routes announce ws e1\<rparr>"
      "set ws \<subseteq> set (only_in active desired)" "follows e e1 (put (\<lambda>_. None) ws (rib e))"
  | (new) rs e1 where "x \<noteq> None"
      "c' = c\<lparr>ct_engine := all_routes announce (only_in active desired) (all_routes withdraw rs e1)\<rparr>"
      "set rs \<subseteq> set (only_in desired active)"
      "follows e e1 (put (encode e) rs (put (\<lambda>_. None) (only_in active desired) (rib e)))"
proof -
  have wf: "\<forall>(p, r) \<in> set m. rt_Prefix r = p \<and> canonical p" if "wf_routes nh4 nh6 m" for m
    using that by (auto simp: wf_routes_def)
  obtain x1 ws e1 where w: "withdraw_stale announce withdraw desired active [] e = (x1, ws, e1)"
    by (cases "withdraw_stale announce withdraw desired active [] e")
  obtain new e2 where s: "set new \<subseteq> set (only_in active desired)" "ws = new"
    "follows e e2 (put (\<lambda>_. None) ws (rib e))"
    "if x1 = None then e1 = e2 \<and> new = only_in active desired else e1 = all_routes announce ws e2"
    using withdraw_stale_run [OF assms(1) _ wf [OF assms(2)] w, of "rib e"] by auto
  show thesis
  proof (cases x1)
    case (Some z)
    with w s assms(4-6) show thesis by (intro stale [of ws e2]) (auto simp: applyDelta_def)
  next
    case None
    then have e1: "einv e1" "encode e1 = encode e" "rib e1 = put (\<lambda>_. None) (only_in active desired) (rib e)"
      using s by (auto simp: follows_def)
    obtain x2 e3 where a: "announce_new announce withdraw active ws desired [] e1 = (x2, e3)"
      by (cases "announce_new announce withdraw active ws desired [] e1")
    obtain rs e4 where n: "set rs \<subseteq> set (only_in desired active)" "follows e1 e4 (put (encode e1) rs (rib e1))"
      "if x2 = None then e3 = e4 \<and> rs = only_in desired active
       else e3 = all_routes announce ws (all_routes withdraw rs e4)"
      using announce_new_run [OF e1(1) _ wf [OF assms(3)] a, of "rib e1"] by auto
    have f: "follows e e4 (put (encode e) rs (put (\<lambda>_. None) (only_in active desired) (rib e)))"
      using n(2) e1 by (simp add: follows_def)
    show thesis
    proof (cases x2)
      case n2: None
      with a w None f n assms(4-6) show thesis by (intro through [of e3]) (auto simp: applyDelta_def)
    next
      case (Some z)
      with a w None f n s assms(4-6) show thesis by (intro new [of rs e4]) (auto simp: applyDelta_def)
    qed
  qed
qed

text \<open>A delta that succeeds changes the entries of exactly the prefixes in which the two tables differ,
  whatever the engine had announced before.\<close>

lemma applyDelta_exact:
  assumes "einv (ct_engine c)"
    and wf: "wf_routes nh4 nh6 (ct_active c)" "wf_routes nh4 nh6 desired"
    and "applyDelta announce withdraw desired c = (None, c')"
  shows "ct_active c' = desired \<and> einv (ct_engine c') \<and> encode (ct_engine c') = encode (ct_engine c) \<and>
     rib (ct_engine c') p =
       (case (lookup (ct_active c) p, lookup desired p) of
          (None, Some r) \<Rightarrow> encode (ct_engine c) r
        | (Some _, None) \<Rightarrow> None
        | _ \<Rightarrow> rib (ct_engine c) p)"
proof -
  let ?e = "ct_engine c" let ?A = "only_in desired (ct_active c)" let ?W = "only_in (ct_active c) desired"
  from applyDelta_run [OF assms(1) wf refl refl assms(4)] obtain e' where
    c': "c' = c\<lparr>ct_engine := e', ct_active := desired\<rparr>" and f: "follows ?e e' (put (encode ?e) ?A (put (\<lambda>_. None) ?W (rib ?e)))"
    by blast
  note A = only_in_Prefix [OF wf(2), of p "ct_active c"] and W = only_in_Prefix [OF wf(1), of p desired]
  have new: "put (encode ?e) ?A t p = encode ?e r" if "lookup (ct_active c) p = None" "lookup desired p = Some r" for t r
    using that only_in_mem [OF wf(2)] A by (intro put_mem) auto
  show ?thesis
    using c' f A W new
    by (cases "lookup (ct_active c) p"; cases "lookup desired p")
      (simp_all add: follows_def put_other put_None_mem)
qed

lemma applyDelta_ok:
  assumes "agrees einv rib encode (ct_engine c) (ct_active c)"
    and wf: "wf_routes nh4 nh6 (ct_active c)" "wf_routes nh4 nh6 desired"
    and "applyDelta announce withdraw desired c = (None, c')"
  shows "ct_active c' = desired \<and> agrees einv rib encode (ct_engine c') desired"
proof -
  let ?e = "ct_engine c" let ?A = "only_in desired (ct_active c)" let ?W = "only_in (ct_active c) desired"
  have e: "einv ?e" using assms(1) by (simp add: agrees_def)
  from applyDelta_run [OF e wf refl refl assms(4)] obtain e' where
    c': "c' = c\<lparr>ct_engine := e', ct_active := desired\<rparr>" and f: "follows ?e e' (put (encode ?e) ?A (put (\<lambda>_. None) ?W (rib ?e)))"
    by blast
  have "rib e' p = (case lookup desired p of None \<Rightarrow> None | Some r \<Rightarrow> encode ?e r)" if p: "canonical p" for p
  proof (cases "p \<in> rt_Prefix ` set ?A")
    case True
    then obtain r where r: "lookup desired p = Some r" using only_in_Prefix [OF wf(2)] by blast
    have "put (encode ?e) ?A t p = encode ?e r" for t
      using True r only_in_mem [OF wf(2)] by (intro put_mem) auto
    with f r show ?thesis by (simp add: follows_def)
  next
    case A: False
    have rib: "rib e' p = put (\<lambda>_. None) ?W (rib ?e) p" using f put_other [OF A] by (simp add: follows_def)
    have agree: "rib ?e p = (case lookup (ct_active c) p of None \<Rightarrow> None | Some r \<Rightarrow> encode ?e r)"
      using assms(1) p by (simp add: agrees_def)
    show ?thesis
    proof (cases "p \<in> rt_Prefix ` set ?W")
      case True
      with rib only_in_Prefix [OF wf(1)] show ?thesis by (simp add: put_None_mem)
    next
      case W: False
      with A only_in_Prefix [OF wf(1)] only_in_Prefix [OF wf(2)]
      have both: "lookup (ct_active c) p = None \<longleftrightarrow> lookup desired p = None" by blast
      show ?thesis
      proof (cases "lookup desired p")
        case None
        with both agree rib put_other [OF W, of "\<lambda>_. None" "rib ?e"] show ?thesis by simp
      next
        case (Some r)
        with both obtain r' where r': "lookup (ct_active c) p = Some r'" by auto
        have "r = r'" using wf_routes_lookup [OF wf(1) r'] wf_routes_lookup [OF wf(2) Some] by simp
        with Some r' agree rib put_other [OF W, of "\<lambda>_. None" "rib ?e"] show ?thesis by simp
      qed
    qed
  qed
  then show ?thesis using c' f unfolding agrees_def follows_def
    by (simp split: option.split)
qed

text \<open>A failure leaves the controller's table alone, and the engine where it was provided the
  compensating calls themselves succeed.\<close>

lemma applyDelta_error:
  assumes "agrees einv rib encode (ct_engine c) (ct_active c)"
    and wf: "wf_routes nh4 nh6 (ct_active c)" "wf_routes nh4 nh6 desired"
    and "applyDelta announce withdraw desired c = (Some x, c')"
    and never: "never_fails einv announce (set (only_in (ct_active c) desired))"
      "never_fails einv withdraw (set (only_in desired (ct_active c)))"
  shows "ct_active c' = ct_active c \<and> agrees einv rib encode (ct_engine c') (ct_active c)"
proof -
  let ?e = "ct_engine c" let ?A = "only_in desired (ct_active c)" let ?W = "only_in (ct_active c) desired"
  have e: "einv ?e" using assms(1) by (simp add: agrees_def)
  have was: "rib ?e p = (case lookup (ct_active c) p of None \<Rightarrow> None | Some r \<Rightarrow> encode ?e r)" if "canonical p" for p
    using assms(1) that by (simp add: agrees_def)
  have restore: "put (encode ?e) ws t p = rib ?e p"
    if "set ws \<subseteq> set ?W" "canonical p" "p \<in> rt_Prefix ` set ws" for ws t p
    using that was [OF that(2)] only_in_mem [OF wf(1)] by (intro put_mem) auto
  show ?thesis
  proof (cases rule: applyDelta_run [OF e wf refl refl assms(4), case_names through stale new])
    case (stale ws e1)
    have "\<forall>r \<in> set ws. canonical (rt_Prefix r)" using stale(3) only_in_canonical [OF wf(1)] by blast
    moreover have "never_fails einv announce (set ws)" using never(1) stale(3) by (auto simp: never_fails_def)
    ultimately have f: "follows e1 (all_routes announce ws e1) (put (encode e1) ws (rib e1))"
      using stale(4) by (intro announce_all) (auto simp: follows_def)
    have "put (encode ?e) ws (put (\<lambda>_. None) ws (rib ?e)) p = rib ?e p" if "canonical p" for p
      using restore [OF stale(3) that] by (cases "p \<in> rt_Prefix ` set ws") (simp_all add: put_other)
    with f stale(2,4) was show ?thesis
      by (simp add: agrees_def follows_def split: option.split)
  next
    case (new rs e1)
    have c1: "\<forall>r \<in> set rs. canonical (rt_Prefix r)" using new(3) only_in_canonical [OF wf(2)] by blast
    have c2: "\<forall>r \<in> set ?W. canonical (rt_Prefix r)" using only_in_canonical [OF wf(1)] by blast
    have "never_fails einv withdraw (set rs)" using never(2) new(3) by (auto simp: never_fails_def)
    with c1 new(4) have f1: "follows e1 (all_routes withdraw rs e1) (put (\<lambda>_. None) rs (rib e1))"
      by (intro withdraw_all) (auto simp: follows_def)
    then have f2: "follows (all_routes withdraw rs e1) (all_routes announce ?W (all_routes withdraw rs e1))
        (put (encode (all_routes withdraw rs e1)) ?W (rib (all_routes withdraw rs e1)))"
      using c2 never(1) by (intro announce_all) (auto simp: follows_def)
    have "put (encode ?e) ?W (put (\<lambda>_. None) rs (put (encode ?e) rs (put (\<lambda>_. None) ?W (rib ?e)))) p = rib ?e p"
      if p: "canonical p" for p
    proof (cases "p \<in> rt_Prefix ` set ?W")
      case True
      then show ?thesis using restore [OF subset_refl p] by blast
    next
      case W: False
      show ?thesis
      proof (cases "p \<in> rt_Prefix ` set rs")
        case True
        then obtain r where "r \<in> set ?A" "rt_Prefix r = p" using new(3) by auto
        then have "lookup (ct_active c) p = None" using only_in_mem [OF wf(2)] by simp
        with was [OF p] have "rib ?e p = None" by simp
        moreover have "put (encode ?e) ?W (put (\<lambda>_. None) rs t) p = None" for t
          using True by (simp add: put_other [OF W] put_None_mem)
        ultimately show ?thesis by simp
      qed (simp add: put_other W)
    qed
    moreover have "encode e1 = encode ?e" "rib e1 = put (encode ?e) rs (put (\<lambda>_. None) ?W (rib ?e))"
      using new(4) by (simp_all add: follows_def)
    moreover have "encode (all_routes withdraw rs e1) = encode e1"
      "rib (all_routes withdraw rs e1) = put (\<lambda>_. None) rs (rib e1)"
      using f1 by (simp_all add: follows_def)
    ultimately have "rib (all_routes announce ?W (all_routes withdraw rs e1)) p = rib ?e p" if "canonical p" for p
      using f2 that by (simp add: follows_def)
    moreover have "einv (all_routes announce ?W (all_routes withdraw rs e1))"
      "encode (all_routes announce ?W (all_routes withdraw rs e1)) = encode ?e"
      using f1 f2 new(4) by (simp_all add: follows_def)
    ultimately show ?thesis
      unfolding agrees_def new(2) using was by (simp split: option.split)
  qed (simp)
qed

text \<open>A prefix that is in both tables is never touched, whatever happens.\<close>

lemma applyDelta_untouched:
  assumes "einv (ct_engine c)"
    and wf: "wf_routes nh4 nh6 (ct_active c)" "wf_routes nh4 nh6 desired"
    and "applyDelta announce withdraw desired c = (x, c')"
    and p: "lookup (ct_active c) p \<noteq> None" "lookup desired p \<noteq> None"
  shows "rib (ct_engine c') p = rib (ct_engine c) p \<and> lookup (ct_active c') p \<noteq> None"
proof -
  let ?e = "ct_engine c" let ?A = "only_in desired (ct_active c)" let ?W = "only_in (ct_active c) desired"
  have A: "p \<notin> rt_Prefix ` set ?A" and W: "p \<notin> rt_Prefix ` set ?W"
    using p only_in_Prefix [OF wf(1)] only_in_Prefix [OF wf(2)] by blast+
  have cW: "\<forall>r \<in> set ws. canonical (rt_Prefix r)" if "set ws \<subseteq> set ?W" for ws
    using that only_in_canonical [OF wf(1)] by blast
  show ?thesis
  proof (cases rule: applyDelta_run [OF assms(1) wf refl refl assms(4), case_names through stale new])
    case (through e')
    with p A W show ?thesis by (simp add: follows_def put_other)
  next
    case (stale ws e1)
    have "p \<notin> rt_Prefix ` set ws" using W stale(3) by blast
    with stale p all_routes_frame [OF _ cW [OF stale(3)], of e1 announce] show ?thesis
      by (simp add: follows_def put_other)
  next
    case (new rs e1)
    have n: "p \<notin> rt_Prefix ` set rs" using A new(3) by blast
    have "\<forall>r \<in> set rs. canonical (rt_Prefix r)" using new(3) only_in_canonical [OF wf(2)] by blast
    then have "einv (all_routes withdraw rs e1)" "rib (all_routes withdraw rs e1) p = rib e1 p"
      using all_routes_frame [of e1 rs withdraw] new(4) n by (auto simp: follows_def)
    with new n p W all_routes_frame [OF _ cW [OF subset_refl], of "all_routes withdraw rs e1" announce]
    show ?thesis by (simp add: follows_def put_other)
  qed
qed

end

end
