(* ===== verification/Controller.thy ===== *)
theory Controller
  imports Route_Delta
begin

text \<open>
  \<open>internal/runtime/policy.go\<close>: the operations of the controller that keeps the announced routes
  equal to the effective policy. It writes the policy store (or the SQL store when there is one)
  and publishes each mutation to the sync queue. Every operation is the critical section its mutex
  delimits.
\<close>

section \<open>Operations\<close>

definition Reconcile :: "('e, 'x) route_op \<Rightarrow> ('e, 'x) route_op \<Rightarrow> ctl_env \<Rightarrow> time \<Rightarrow> 'e controller
    \<Rightarrow> 'x ctl_error option \<times> 'e controller" where
  "Reconcile an wd env now c =
     (if ct_dryRun c then (None, c) else applyDelta an wd (routes env now c) c)"

definition policyList :: "string \<Rightarrow> string option" where
  "policyList name =
     (if name = ''blocklist'' then Some Blocklist
      else if name = ''whitelist'' then Some Whitelist
      else None)"

text \<open>The lists a mutation proposes, and whether it changes anything; \<open>None\<close> for an unknown action.\<close>

definition propose :: "policy_mutation \<Rightarrow> prefix \<Rightarrow> string \<Rightarrow> store
    \<Rightarrow> (prefix list \<times> prefix list \<times> bool) option" where
  "propose m prefix list s =
     (let target = (if list = Whitelist then whitelist s else blocklist s);
          index = slices_Index target prefix;
          put = (\<lambda>t. if list = Whitelist then (blocklist s, t) else (t, whitelist s))
      in if pm_Action m = ''add'' \<or> pm_Action m = ''replace'' then
           (if index < 0 then Some (case put (target @ [prefix]) of (b, w) \<Rightarrow> (b, w, True))
            else Some (blocklist s, whitelist s,
              (case pm_ExpiresAt m of
                 Some t \<Rightarrow> Expiry s prefix \<noteq> Some t
               | None \<Rightarrow> False)))
         else if pm_Action m = ''remove'' \<or> pm_Action m = ''delete'' then
           (if index \<ge> 0
            then Some (case put (slices_Delete target index (index + 1)) of (b, w) \<Rightarrow> (b, w, True))
            else Some (blocklist s, whitelist s, False))
         else None)"

definition persist_mutation :: "ctl_env \<Rightarrow> policy_mutation \<Rightarrow> prefix \<Rightarrow> store \<Rightarrow> disk
    \<Rightarrow> adapter_error option \<times> store \<times> disk" where
  "persist_mutation env m prefix s d =
     (case pm_ExpiresAt m of
        Some t \<Rightarrow> result_error AddUntilFailed (AddUntil (ce_io env) (ce_stamp env) Blocklist prefix t s d)
      | None \<Rightarrow> mutateStore (ce_io env) (ce_stamp env) (pm_Action m) (pm_List m) (pm_Prefix m) s d)"

definition publish_mutation :: "policy_mutation \<Rightarrow> 'e controller \<Rightarrow> 'e controller" where
  "publish_mutation m c =
     (if ct_publish c then c\<lparr>ct_published := ct_published c @ [m]\<rparr> else c)"

definition applyLocked :: "('e, 'x) route_op \<Rightarrow> ('e, 'x) route_op \<Rightarrow> ctl_env \<Rightarrow> policy_mutation
    \<Rightarrow> 'e controller \<Rightarrow> 'x ctl_error option \<times> 'e controller" where
  "applyLocked an wd env m c =
     (case parse_canonical (pm_Prefix m) of
        None \<Rightarrow> (Some CtlCanonicalPrefix, c)
      | Some prefix \<Rightarrow>
     (case policyList (pm_List m) of
        None \<Rightarrow> (Some (CtlUnsupportedList (pm_List m)), c)
      | Some list \<Rightarrow>
     (let before = routes env (ce_now env) c in
      case propose m prefix list (ct_store c) of
        None \<Rightarrow> (Some (CtlUnsupportedAction (pm_Action m)), c)
      | Some (bl, wl, changed) \<Rightarrow>
          if \<not> changed then (None, c)
          else
            let proposed = effectiveRoutes bl wl (Expirations (ct_store c)) (ce_now2 env)
                  (ct_nextHopV4 c) (ct_nextHopV6 c)
            in case applyDelta an wd proposed c of
                 (Some x, c) \<Rightarrow> (Some x, c)
               | (None, c) \<Rightarrow>
                   (case persist_mutation env m prefix (ct_store c) (ct_disk c) of
                      (Some e, s, d) \<Rightarrow>
                        (Some (CtlStoreFailed e),
                         snd (applyDelta an wd before (c\<lparr>ct_store := s, ct_disk := d\<rparr>)))
                    | (None, s, d) \<Rightarrow>
                        (None, (publish_mutation m (c\<lparr>ct_store := s, ct_disk := d\<rparr>))\<lparr>ct_wake := True\<rparr>)))))"

definition Apply :: "('e, 'x) route_op \<Rightarrow> ('e, 'x) route_op \<Rightarrow> ctl_env \<Rightarrow> policy_mutation
    \<Rightarrow> 'e controller \<Rightarrow> 'x ctl_error option \<times> 'e controller" where
  "Apply an wd env m c =
     (if ct_dryRun c then (Some ApplyDryRun, c)
      else if parse_canonical (pm_Prefix m) = None then (Some CtlCanonicalPrefix, c)
      else case ct_sql c of
        None \<Rightarrow> applyLocked an wd env m c
      | Some d \<Rightarrow>
          let (x, d) =
            (if pm_Action m = ''add'' \<or> pm_Action m = ''replace'' then
               AddPolicy (ce_sql_write env) (ce_stamp env) (pm_Prefix m) (pm_List m) ''Manual'' []
                 (pm_ExpiresAt m) d
             else if pm_Action m = ''remove'' \<or> pm_Action m = ''delete'' then
               RemovePolicy (ce_sql_write env) (pm_Prefix m) (pm_List m) d
             else (None, d))
          in case x of
               Some e \<Rightarrow> (Some (CtlSqlFailed e), c\<lparr>ct_sql := Some d\<rparr>)
             | None \<Rightarrow>
                 let d = snd (RecordAudit (ce_sql_audit env) (ce_stamp env) (pm_Action m) (pm_List m)
                           (pm_Prefix m) d);
                     c = c\<lparr>ct_sql := Some d\<rparr>
                 in case applyDelta an wd (routes env (ce_now env) c) c of
                      (Some e, c) \<Rightarrow> (Some e, c)
                    | (None, c) \<Rightarrow> (None, publish_mutation m c))"

fun batch_remove :: "('e, 'x) route_op \<Rightarrow> string \<Rightarrow> string list \<Rightarrow> 'e controller \<Rightarrow> 'e controller" where
  "batch_remove wd list [] c = c"
| "batch_remove wd list (raw # raws) c =
     (case ParsePrefix raw of
        None \<Rightarrow> batch_remove wd list raws c
      | Some prefix \<Rightarrow>
          if list = ''blocklist'' then
            (case lookup (ct_active c) prefix of
               Some route \<Rightarrow>
                 batch_remove wd list raws
                   (c\<lparr>ct_engine := snd (wd route (ct_engine c)),
                      ct_active := AList.delete prefix (ct_active c)\<rparr>)
             | None \<Rightarrow> batch_remove wd list raws c)
          else batch_remove wd list raws c)"

fun batch_add :: "('e, 'x) route_op \<Rightarrow> string \<Rightarrow> string list \<Rightarrow> 'e controller \<Rightarrow> 'e controller" where
  "batch_add an list [] c = c"
| "batch_add an list (raw # raws) c =
     (case ParsePrefix raw of
        None \<Rightarrow> batch_add an list raws c
      | Some prefix \<Rightarrow>
          if list = ''blocklist'' then
            let route = route_for (ct_nextHopV4 c) (ct_nextHopV6 c) prefix in
            if lookup (ct_active c) prefix = None then
              (case an route (ct_engine c) of
                 (None, e) \<Rightarrow> batch_add an list raws
                   (c\<lparr>ct_engine := e, ct_active := AList.update prefix route (ct_active c)\<rparr>)
               | (Some x, e) \<Rightarrow> batch_add an list raws (c\<lparr>ct_engine := e\<rparr>))
            else batch_add an list raws c
          else batch_add an list raws c)"

definition ApplyBatch :: "('e, 'x) route_op \<Rightarrow> ('e, 'x) route_op \<Rightarrow> string \<Rightarrow> string list \<Rightarrow> string list
    \<Rightarrow> 'e controller \<Rightarrow> 'x ctl_error option \<times> 'e controller" where
  "ApplyBatch an wd list toAdd toRemove c =
     (if ct_dryRun c then (Some ApplyDryRun, c)
      else if length toAdd = 0 \<and> length toRemove = 0 then (None, c)
      else (None, batch_add an list toAdd (batch_remove wd list toRemove c)))"

text \<open>One round over a copy of the expiries; \<open>env\<close> gives each call its own surroundings.\<close>

fun expire_from :: "('e, 'x) route_op \<Rightarrow> ('e, 'x) route_op \<Rightarrow> (nat \<Rightarrow> ctl_env) \<Rightarrow> time \<Rightarrow> nat
    \<Rightarrow> (prefix, time) gomap \<Rightarrow> 'e controller \<Rightarrow> 'x ctl_error option \<times> 'e controller" where
  "expire_from an wd env now i [] c = (None, c)"
| "expire_from an wd env now i ((prefix, expiry) # es) c =
     (if expiry > now then expire_from an wd env now (Suc i) es c
      else case applyLocked an wd (env i)
             \<lparr>pm_Action = ''remove'', pm_List = ''blocklist'', pm_Prefix = prefix_String prefix,
              pm_ExpiresAt = None\<rparr> c of
        (Some x, c) \<Rightarrow> (Some x, c)
      | (None, c) \<Rightarrow> expire_from an wd env now (Suc i) es c)"

definition applyExpired :: "('e, 'x) route_op \<Rightarrow> ('e, 'x) route_op \<Rightarrow> (nat \<Rightarrow> ctl_env) \<Rightarrow> time
    \<Rightarrow> 'e controller \<Rightarrow> 'x ctl_error option \<times> 'e controller" where
  "applyExpired an wd env now c = expire_from an wd env now 0 (Expirations (ct_store c)) c"

text \<open>How long the expiry loop sleeps: until the first expiry, at most an hour.\<close>

definition hour :: time where
  "hour = 3600 * 1000000000"

definition expiry_wait :: "time \<Rightarrow> (prefix, time) gomap \<Rightarrow> time" where
  "expiry_wait now es =
     (let wait = fold (\<lambda>(p, expiry) wait. if expiry - now < wait then expiry - now else wait) es hour
      in if wait < 0 then 0 else wait)"

section \<open>A mutation and the store\<close>

text \<open>The mutations the dashboard lets through: an expiry comes only with an addition to the
  blocklist.\<close>

definition sound_mutation :: "policy_mutation \<Rightarrow> bool" where
  "sound_mutation m = (pm_ExpiresAt m \<noteq> None \<longrightarrow>
     (pm_Action m = ''add'' \<or> pm_Action m = ''replace'') \<and> pm_List m = ''blocklist'')"

text \<open>The command of the store that persists a mutation.\<close>

definition mutation_command :: "policy_mutation \<Rightarrow> prefix \<Rightarrow> command" where
  "mutation_command m p =
     (case pm_ExpiresAt m of
        Some t \<Rightarrow> CmdUntil p t
      | None \<Rightarrow> if pm_Action m = ''add'' \<or> pm_Action m = ''replace'' then CmdAdd (pm_List m) p
               else CmdRemove (pm_List m) p)"

lemma policyList_Some: "policyList name = Some list \<longleftrightarrow>
    list = name \<and> (name = Blocklist \<or> name = Whitelist)"
  by (auto simp: policyList_def)

lemma propose_action: "propose m p list s = Some x \<Longrightarrow>
    pm_Action m = ''add'' \<or> pm_Action m = ''replace'' \<or> pm_Action m = ''remove'' \<or> pm_Action m = ''delete''"
  by (auto simp: propose_def Let_def split: if_splits)

lemma persist_mutation_exec:
  assumes "parse_canonical (pm_Prefix m) = Some p" "policyList (pm_List m) = Some list"
    and "propose m p list s = Some x"
  shows "\<exists>w. persist_mutation env m p s d =
     result_error w (exec_command (ce_io env) (ce_stamp env) (mutation_command m p) s d)"
proof (cases "pm_ExpiresAt m")
  case None
  have "mutateStore (ce_io env) (ce_stamp env) (pm_Action m) (pm_List m) (pm_Prefix m) s d =
      result_error MutateStoreFailed (exec_command (ce_io env) (ce_stamp env) (mutation_command m p) s d)"
    using propose_action [OF assms(3)] assms(1,2) None
    by (auto simp: mutateStore_def mutation_command_def policyList_Some)
  with None show ?thesis by (auto simp: persist_mutation_def)
qed (auto simp: persist_mutation_def mutation_command_def)

lemma mutation_command_wf: "canonical p \<Longrightarrow> wf_command (mutation_command m p)"
  by (auto simp: mutation_command_def canonical_wf split: option.splits)

lemma persist_mutation_abs:
  assumes "parse_canonical (pm_Prefix m) = Some p" "policyList (pm_List m) = Some list" "propose m p list s = Some x"
    and "persist_mutation env m p s d = (None, s', d')" "store_inv s"
  shows "abs_store s' = apply_command (mutation_command m p) (abs_store s)"
proof -
  obtain w where "persist_mutation env m p s d =
     result_error w (exec_command (ce_io env) (ce_stamp env) (mutation_command m p) s d)"
    using persist_mutation_exec [OF assms(1-3)] by blast
  with assms(4) obtain b where "exec_command (ce_io env) (ce_stamp env) (mutation_command m p) s d = (Inr b, s', d')"
    by (auto simp: result_error_def split: prod.splits sum.splits)
  from exec_command_abs [OF assms(5) this] show ?thesis by blast
qed

text \<open>A proposal changes the lists or an expiry exactly if its command changes the policy.\<close>

lemma propose_changes:
  assumes "store_inv s" "sound_mutation m" "canonical p" "policyList (pm_List m) = Some list"
    and "propose m p list s = Some (bl, wl, ch)"
  shows "ch \<longleftrightarrow> apply_command (mutation_command m p) (abs_store s) \<noteq> abs_store s"
proof -
  have list: "list = pm_List m" "list = Blocklist \<or> list = Whitelist" using assms(4) by (auto simp: policyList_Some)
  have p: "Masked p = p" using assms(3) by (rule canonical_fix)
  have es: "lookup (expirations s) p = None" if "p \<notin> set (blocklist s)"
    using store_inv_parts(6) [OF assms(1)] that lookup_None_iff [of "expirations s" p] by auto
  show ?thesis
  proof (cases "pm_ExpiresAt m")
    case (Some t)
    with assms(2) list have "pm_Action m = ''add'' \<or> pm_Action m = ''replace''" "list = Blocklist"
      by (auto simp: sound_mutation_def)
    with assms(5) Some p es show ?thesis
      by (auto simp: propose_def Let_def mutation_command_def abs_store_def Expiry_def insert_absorb fun_eq_iff
          split: if_splits)
  next
    case None
    from propose_action [OF assms(5)] consider
      (add) "pm_Action m = ''add'' \<or> pm_Action m = ''replace''"
      | (remove) "pm_Action m = ''remove'' \<or> pm_Action m = ''delete''" by blast
    then show ?thesis
    proof cases
      case add
      with assms(5) None p list show ?thesis
        by (auto simp: propose_def Let_def mutation_command_def abs_store_def insert_absorb split: if_splits)
    next
      case remove
      then have "\<not> (pm_Action m = ''add'' \<or> pm_Action m = ''replace'')" by auto
      with assms(5) None p list remove es show ?thesis
        by (auto simp: propose_def Let_def mutation_command_def abs_store_def fun_eq_iff split: if_splits)
    qed
  qed
qed

lemma persist_mutation_error:
  assumes "parse_canonical (pm_Prefix m) = Some p" "policyList (pm_List m) = Some list"
    and "propose m p list s = Some x" "persist_mutation env m p s d = (Some e, s', d')"
  shows "s' = s"
proof -
  obtain w where "persist_mutation env m p s d =
     result_error w (exec_command (ce_io env) (ce_stamp env) (mutation_command m p) s d)"
    using persist_mutation_exec [OF assms(1-3)] by blast
  with assms(4) obtain e' where "exec_command (ce_io env) (ce_stamp env) (mutation_command m p) s d = (Inl e', s', d')"
    by (auto simp: result_error_def split: prod.splits sum.splits)
  then show ?thesis by (rule exec_command_error)
qed

lemma persist_mutation_lists:
  assumes "store_inv s" "ce_stamp env \<noteq> 0" "sound_mutation m"
    and "parse_canonical (pm_Prefix m) = Some p" "policyList (pm_List m) = Some list"
    and "propose m p list s = Some (bl, wl, True)" "persist_mutation env m p s d = (None, s', d')"
  shows "store_inv s' \<and> blocklist s' = bl \<and> whitelist s' = wl \<and>
     lookup (expirations s') = (case pm_ExpiresAt m of
        Some t \<Rightarrow> (lookup (expirations s))(p \<mapsto> t)
      | None \<Rightarrow> if list = Blocklist \<and> p \<notin> set bl then (lookup (expirations s))(p := None)
               else lookup (expirations s))"
proof -
  have can: "canonical p" "Masked p = p" "prefix_IsValid p"
    using parse_canonical_Some [OF assms(4)] canonical_fix canonical_valid by auto
  obtain w where "persist_mutation env m p s d =
     result_error w (exec_command (ce_io env) (ce_stamp env) (mutation_command m p) s d)"
    using persist_mutation_exec [OF assms(4-6)] by blast
  with assms(7) obtain b where
    ex: "exec_command (ce_io env) (ce_stamp env) (mutation_command m p) s d = (Inr b, s', d')"
    by (auto simp: result_error_def split: prod.splits sum.splits)
  have inv: "store_inv s'"
    using exec_command_inv [OF assms(1) mutation_command_wf [OF can(1)] assms(2) ex] .
  have list: "list = pm_List m" "list = Blocklist \<or> list = Whitelist"
    using assms(5) by (auto simp: policyList_Some)
  have dist: "distinct (blocklist s)" "distinct (whitelist s)" using store_inv_parts [OF assms(1)] by blast+
  show ?thesis
  proof (cases "pm_ExpiresAt m")
    case (Some t)
    then have add: "pm_Action m = ''add'' \<or> pm_Action m = ''replace''" "list = Blocklist"
      using assms(3) list by (auto simp: sound_mutation_def)
    have ex': "AddUntil (ce_io env) (ce_stamp env) Blocklist p t s d = (Inr b, s', d')"
      using ex Some by (simp add: mutation_command_def)
    then show ?thesis
    proof (cases rule: AddUntil_cases)
      case same
      with assms(6) add Some can show ?thesis by (auto simp: propose_def Let_def Expiry_def)
    next
      case insert
      with commit_store_ok [OF insert(5) [symmetric]] assms(6) add Some can inv show ?thesis
        by (auto simp: propose_def Let_def)
    next
      case change
      with commit_store_ok [OF change(6) [symmetric]] assms(6) add Some can inv show ?thesis
        by (auto simp: propose_def Let_def)
    qed auto
  next
    case None
    from propose_action [OF assms(6)] consider
      (add) "pm_Action m = ''add'' \<or> pm_Action m = ''replace''"
      | (remove) "pm_Action m = ''remove'' \<or> pm_Action m = ''delete''" by blast
    then show ?thesis
    proof cases
      case add
      then have ex': "store_Add (ce_io env) (ce_stamp env) list p s d = (Inr b, s', d')"
        using ex None list by (simp add: mutation_command_def)
      then show ?thesis
      proof (cases rule: store_Add_cases)
        case present
        with assms(6) add None can list show ?thesis
          by (auto simp: propose_def Let_def policy_list_def split: if_splits)
      next
        case commit
        with commit_store_ok [OF commit(4) [symmetric]] assms(6) add None can inv list show ?thesis
          by (auto simp: propose_def Let_def policy_list_def split: if_splits)
      qed auto
    next
      case remove
      then have "\<not> (pm_Action m = ''add'' \<or> pm_Action m = ''replace'')" by auto
      then have ex': "store_Remove (ce_io env) (ce_stamp env) list p s d = (Inr b, s', d')"
        using ex None list by (simp add: mutation_command_def)
      then show ?thesis
      proof (cases rule: store_Remove_cases)
        case absent
        with assms(6) remove None can list show ?thesis
          by (auto simp: propose_def Let_def policy_list_def split: if_splits)
      next
        case commit
        with commit_store_ok [OF commit(4) [symmetric]] assms(6) remove None can inv list dist show ?thesis
          by (auto simp: propose_def Let_def policy_list_def slices_Delete_Index split: if_splits)
      qed auto
    qed
  qed
qed

section \<open>Outcome of a mutation\<close>

lemma applyLocked_cases [consumes 1, case_names reject idle delta persist commit]:
  assumes "applyLocked an wd env m c = (x, c')"
    and "\<And>y. x = Some y \<Longrightarrow> c' = c \<Longrightarrow> thesis"
    and "\<And>p list bl wl. parse_canonical (pm_Prefix m) = Some p \<Longrightarrow> policyList (pm_List m) = Some list \<Longrightarrow>
       propose m p list (ct_store c) = Some (bl, wl, False) \<Longrightarrow> x = None \<Longrightarrow> c' = c \<Longrightarrow> thesis"
    and "\<And>p list bl wl y. parse_canonical (pm_Prefix m) = Some p \<Longrightarrow> policyList (pm_List m) = Some list \<Longrightarrow>
       propose m p list (ct_store c) = Some (bl, wl, True) \<Longrightarrow> x = Some y \<Longrightarrow>
       applyDelta an wd (effectiveRoutes bl wl (expirations (ct_store c)) (ce_now2 env)
         (ct_nextHopV4 c) (ct_nextHopV6 c)) c = (Some y, c') \<Longrightarrow> thesis"
    and "\<And>p list bl wl e s d c1. parse_canonical (pm_Prefix m) = Some p \<Longrightarrow> policyList (pm_List m) = Some list \<Longrightarrow>
       propose m p list (ct_store c) = Some (bl, wl, True) \<Longrightarrow>
       applyDelta an wd (effectiveRoutes bl wl (expirations (ct_store c)) (ce_now2 env)
         (ct_nextHopV4 c) (ct_nextHopV6 c)) c = (None, c1) \<Longrightarrow>
       persist_mutation env m p (ct_store c1) (ct_disk c1) = (Some e, s, d) \<Longrightarrow>
       x = Some (CtlStoreFailed e) \<Longrightarrow>
       c' = snd (applyDelta an wd (routes env (ce_now env) c) (c1\<lparr>ct_store := s, ct_disk := d\<rparr>)) \<Longrightarrow> thesis"
    and "\<And>p list bl wl s d c1. parse_canonical (pm_Prefix m) = Some p \<Longrightarrow> policyList (pm_List m) = Some list \<Longrightarrow>
       propose m p list (ct_store c) = Some (bl, wl, True) \<Longrightarrow>
       applyDelta an wd (effectiveRoutes bl wl (expirations (ct_store c)) (ce_now2 env)
         (ct_nextHopV4 c) (ct_nextHopV6 c)) c = (None, c1) \<Longrightarrow>
       persist_mutation env m p (ct_store c1) (ct_disk c1) = (None, s, d) \<Longrightarrow> x = None \<Longrightarrow>
       c' = (publish_mutation m (c1\<lparr>ct_store := s, ct_disk := d\<rparr>))\<lparr>ct_wake := True\<rparr> \<Longrightarrow> thesis"
  shows thesis
proof (cases "parse_canonical (pm_Prefix m)")
  case None
  with assms(1,2) show thesis by (auto simp: applyLocked_def)
next
  case p: (Some p)
  show thesis
  proof (cases "policyList (pm_List m)")
    case None
    with p assms(1,2) show thesis by (auto simp: applyLocked_def)
  next
    case list: (Some list)
    show thesis
    proof (cases "propose m p list (ct_store c)")
      case None
      with p list assms(1,2) show thesis by (auto simp: applyLocked_def)
    next
      case proposal: (Some x3)
      obtain bl wl ch where x3: "x3 = (bl, wl, ch)" by (cases x3)
      show thesis
      proof (cases ch)
        case False
        with p list proposal x3 have "applyLocked an wd env m c = (None, c)" by (simp add: applyLocked_def)
        with assms(1) False proposal x3 show thesis by (intro assms(3) [OF p list]) simp_all
      next
        case True
        let ?r = "effectiveRoutes bl wl (expirations (ct_store c)) (ce_now2 env) (ct_nextHopV4 c) (ct_nextHopV6 c)"
        obtain y c1 where delta: "applyDelta an wd ?r c = (y, c1)" by (cases "applyDelta an wd ?r c")
        obtain z s d where per: "persist_mutation env m p (ct_store c1) (ct_disk c1) = (z, s, d)"
          by (cases "persist_mutation env m p (ct_store c1) (ct_disk c1)")
        note eqs = p list proposal x3 True delta per
        show thesis
        proof (cases y)
          case (Some e)
          with eqs assms(1) have "x = Some e" "c' = c1" by (simp_all add: applyLocked_def Expirations_def)
          with eqs Some show thesis by (intro assms(4) [OF p list]) simp_all
        next
          case y: None
          show thesis
          proof (cases z)
            case None
            with eqs y assms(1) have "x = None"
              "c' = (publish_mutation m (c1\<lparr>ct_store := s, ct_disk := d\<rparr>))\<lparr>ct_wake := True\<rparr>"
              by (simp_all add: applyLocked_def Expirations_def)
            with eqs y None show thesis by (intro assms(6) [OF p list]) simp_all
          next
            case (Some e)
            with eqs y assms(1) have "x = Some (CtlStoreFailed e)"
              "c' = snd (applyDelta an wd (routes env (ce_now env) c) (c1\<lparr>ct_store := s, ct_disk := d\<rparr>))"
              by (simp_all add: applyLocked_def Expirations_def)
            with eqs y Some show thesis by (intro assms(5) [OF p list]) simp_all
          qed
        qed
      qed
    qed
  qed
qed

lemma applyDelta_frame [frame_simps]:
  assumes "applyDelta an wd r c = (x, c')"
  shows "ct_store c' = ct_store c" "ct_disk c' = ct_disk c" "ct_sql c' = ct_sql c"
    "ct_published c' = ct_published c" "ct_nextHopV4 c' = ct_nextHopV4 c" "ct_nextHopV6 c' = ct_nextHopV6 c"
    "ct_wake c' = ct_wake c" "ct_dryRun c' = ct_dryRun c" "ct_publish c' = ct_publish c"
    "x \<noteq> None \<Longrightarrow> ct_active c' = ct_active c"
  using assms by (auto simp: applyDelta_def split: prod.splits option.splits)

lemma applyDelta_snd_frame [frame_simps]:
  "ct_store (snd (applyDelta an wd r c)) = ct_store c"
  "ct_published (snd (applyDelta an wd r c)) = ct_published c"
  "ct_wake (snd (applyDelta an wd r c)) = ct_wake c"
  "ct_sql (snd (applyDelta an wd r c)) = ct_sql c"
  by (cases "applyDelta an wd r c"; simp add: applyDelta_frame)+

text \<open>A mutation that fails changes neither the policy nor what was published.\<close>

lemma applyLocked_error_frame:
  assumes "applyLocked an wd env m c = (Some x, c')"
  shows "ct_store c' = ct_store c \<and> ct_published c' = ct_published c \<and> ct_wake c' = ct_wake c \<and>
     ct_sql c' = ct_sql c"
  using assms
proof (cases rule: applyLocked_cases)
  case (delta p list bl wl y)
  from applyDelta_frame [OF delta(5)] show ?thesis by simp
next
  case (persist p list bl wl e s d c1)
  note f = applyDelta_frame [OF persist(4)]
  have "s = ct_store c1" using persist_mutation_error [OF persist(1,2) _ persist(5)] persist(3) f(1) by simp
  with persist(7) f show ?thesis by (simp add: applyDelta_snd_frame)
qed auto

definition ctl_inv :: "'e controller \<Rightarrow> bool" where
  "ctl_inv c = (store_inv (ct_store c) \<and> wf_routes (ct_nextHopV4 c) (ct_nextHopV6 c) (ct_active c))"

lemma routes_file: "ct_sql c = None \<Longrightarrow> routes env now c =
    effectiveRoutes (blocklist (ct_store c)) (whitelist (ct_store c)) (expirations (ct_store c)) now
      (ct_nextHopV4 c) (ct_nextHopV6 c)"
  by (simp add: routes_def Expirations_def)

lemma wf_routes_store:
  assumes "store_inv s"
  shows "wf_routes nh4 nh6 (effectiveRoutes (blocklist s) wl es now nh4 nh6)"
  using store_inv_parts(3) [OF assms] by (intro wf_routes_effective) blast

lemma propose_lists_canonical:
  assumes "store_inv s" "canonical p" "propose m p list s = Some (bl, wl, ch)"
  shows "\<forall>q \<in> set bl. canonical q"
  using assms(3) store_inv_parts(3) [OF assms(1)] assms(2)
  by (auto simp: propose_def slices_Delete_Index Let_def split: if_splits
      dest: set_remove1_subset [THEN subsetD])

text \<open>An expiry that is set lies in the future, and the entry it replaces has not expired.\<close>

definition fresh_expiry :: "ctl_env \<Rightarrow> policy_mutation \<Rightarrow> store \<Rightarrow> bool" where
  "fresh_expiry env m s = (\<forall>t. pm_ExpiresAt m = Some t \<longrightarrow> t > ce_now2 env \<and>
     (\<forall>p. parse_canonical (pm_Prefix m) = Some p \<longrightarrow> \<not> expired (expirations s) (ce_now2 env) p))"

context route_engine begin

lemma Reconcile_ok:
  assumes "\<not> ct_dryRun c" "ct_sql c = None" "ctl_inv c" "agrees einv rib encode (ct_engine c) (ct_active c)"
    and "Reconcile announce withdraw env now c = (None, c')"
  shows "ct_active c' = routes env now c \<and> agrees einv rib encode (ct_engine c') (ct_active c') \<and> ctl_inv c'"
proof -
  have delta: "applyDelta announce withdraw (routes env now c) c = (None, c')"
    using assms(1,5) by (simp add: Reconcile_def)
  have wf: "wf_routes (ct_nextHopV4 c) (ct_nextHopV6 c) (ct_active c)"
    "wf_routes (ct_nextHopV4 c) (ct_nextHopV6 c) (routes env now c)"
    using assms(2,3) wf_routes_store [of "ct_store c"] by (simp_all add: ctl_inv_def routes_file)
  from applyDelta_ok [OF assms(4) wf delta] applyDelta_frame [OF delta] assms(3) wf(2)
  show ?thesis by (simp add: ctl_inv_def)
qed

lemma Reconcile_delta:
  assumes "\<not> ct_dryRun c" "ct_sql c = None" "ctl_inv c" "einv (ct_engine c)"
    and "Reconcile announce withdraw env now c = (None, c')"
  shows "ct_active c' = routes env now c \<and> ctl_inv c' \<and> encode (ct_engine c') = encode (ct_engine c) \<and>
     rib (ct_engine c') p =
       (case (lookup (ct_active c) p, lookup (routes env now c) p) of
          (None, Some r) \<Rightarrow> encode (ct_engine c) r
        | (Some _, None) \<Rightarrow> None
        | _ \<Rightarrow> rib (ct_engine c) p)"
proof -
  have delta: "applyDelta announce withdraw (routes env now c) c = (None, c')"
    using assms(1,5) by (simp add: Reconcile_def)
  have wf: "wf_routes (ct_nextHopV4 c) (ct_nextHopV6 c) (ct_active c)"
    "wf_routes (ct_nextHopV4 c) (ct_nextHopV6 c) (routes env now c)"
    using assms(2,3) wf_routes_store [of "ct_store c"] by (simp_all add: ctl_inv_def routes_file)
  from applyDelta_exact [OF assms(4) wf delta, of p] applyDelta_frame [OF delta] assms(3) wf(2)
  show ?thesis by (simp add: ctl_inv_def)
qed

lemma applyLocked_tracks:
  assumes nosql: "ct_sql c = None" and inv: "ctl_inv c" and e: "einv (ct_engine c)"
    and env: "ce_stamp env \<noteq> 0" "sound_mutation m" and p: "parse_canonical (pm_Prefix m) = Some p"
    and run: "applyLocked announce withdraw env m c = (None, c')"
  shows "ctl_inv c' \<and>
     (agrees einv rib encode (ct_engine c) (ct_active c) \<longrightarrow> agrees einv rib encode (ct_engine c') (ct_active c')) \<and>
     abs_store (ct_store c') = apply_command (mutation_command m p) (abs_store (ct_store c)) \<and>
     (if abs_store (ct_store c') = abs_store (ct_store c) then c' = c
      else ct_published c' = ct_published c @ (if ct_publish c then [m] else []) \<and>
        (\<forall>q. lookup (ct_active c') q = lookup (effectiveRoutes (blocklist (ct_store c')) (whitelist (ct_store c'))
           (expirations (ct_store c)) (ce_now2 env) (ct_nextHopV4 c) (ct_nextHopV6 c)) q) \<and>
        (\<forall>q. q \<noteq> p \<or> fresh_expiry env m (ct_store c) \<longrightarrow>
           lookup (ct_active c') q = lookup (routes env (ce_now2 env) c') q))"
  using run
proof (cases rule: applyLocked_cases)
  case (idle p' list bl wl)
  have pp: "p' = p" using idle(1) p by simp
  have "apply_command (mutation_command m p) (abs_store (ct_store c)) = abs_store (ct_store c)"
    using propose_changes [OF _ env(2) parse_canonical_Some [OF p] idle(2) idle(3) [unfolded pp]] inv
    by (simp add: ctl_inv_def)
  with idle inv show ?thesis by simp
next
  case (commit p' list bl wl s d c1)
  have pp: "p' = p" using commit(1) p by simp
  have changes: "apply_command (mutation_command m p) (abs_store (ct_store c)) \<noteq> abs_store (ct_store c)"
    using propose_changes [OF _ env(2) parse_canonical_Some [OF p] commit(2) commit(3) [unfolded pp]] inv
    by (simp add: ctl_inv_def)
  have s0: "store_inv (ct_store c)" using inv by (simp add: ctl_inv_def)
  note can = parse_canonical_Some [OF commit(1)]
  let ?r = "effectiveRoutes bl wl (expirations (ct_store c)) (ce_now2 env) (ct_nextHopV4 c) (ct_nextHopV6 c)"
  have wf: "wf_routes (ct_nextHopV4 c) (ct_nextHopV6 c) (ct_active c)" "wf_routes (ct_nextHopV4 c) (ct_nextHopV6 c) ?r"
    using inv wf_routes_effective [OF propose_lists_canonical [OF s0 can commit(3)]] by (simp_all add: ctl_inv_def)
  note f = applyDelta_frame [OF commit(4)]
  have d: "ct_active c1 = ?r"
    "agrees einv rib encode (ct_engine c) (ct_active c) \<longrightarrow> agrees einv rib encode (ct_engine c1) ?r"
    using applyDelta_exact [OF e wf commit(4)] applyDelta_ok [OF _ wf commit(4)] by blast+
  have s: "store_inv s" "blocklist s = bl" "whitelist s = wl"
    and l: "lookup (expirations s) = (case pm_ExpiresAt m of
        Some t \<Rightarrow> (lookup (expirations (ct_store c)))(p \<mapsto> t)
      | None \<Rightarrow> if list = Blocklist \<and> p \<notin> set bl then (lookup (expirations (ct_store c)))(p := None)
               else lookup (expirations (ct_store c)))"
    using persist_mutation_lists [OF s0 env(1,2) commit(1-3)] commit(5) f pp by auto
  have "wanted bl wl (expirations s) (ce_now2 env) q = wanted bl wl (expirations (ct_store c)) (ce_now2 env) q"
    if "q \<noteq> p \<or> fresh_expiry env m (ct_store c)" for q
    using l that p
    by (cases "q = p") (auto simp: wanted_def expired_def fresh_expiry_def split: option.splits if_splits)
  then have "lookup ?r q = lookup (effectiveRoutes bl wl (expirations s) (ce_now2 env) (ct_nextHopV4 c) (ct_nextHopV6 c)) q"
    if "q \<noteq> p \<or> fresh_expiry env m (ct_store c)" for q
    using that by (simp add: effectiveRoutes_lookup)
  moreover have "abs_store s = apply_command (mutation_command m p) (abs_store (ct_store c))"
    using persist_mutation_abs [OF commit(1-3) _ s0] commit(5) f pp by simp
  moreover have "ct_store c' = s" "ct_active c' = ?r" "ct_engine c' = ct_engine c1" "ct_sql c' = None"
    "ct_nextHopV4 c' = ct_nextHopV4 c" "ct_nextHopV6 c' = ct_nextHopV6 c"
    "ct_published c' = ct_published c @ (if ct_publish c then [m] else [])"
    using commit(7) f d nosql by (simp_all add: publish_mutation_def)
  ultimately show ?thesis using s d wf changes by (simp add: ctl_inv_def routes_file)
qed simp_all

end

section \<open>Expiry\<close>

lemma applyLocked_expire:
  assumes "store_inv (ct_store c)" "canonical p" "ce_stamp env \<noteq> 0"
    and "applyLocked an wd env \<lparr>pm_Action = ''remove'', pm_List = ''blocklist'',
           pm_Prefix = prefix_String p, pm_ExpiresAt = None\<rparr> c = (None, c')"
  shows "store_inv (ct_store c') \<and> blocklist (ct_store c') = remove1 p (blocklist (ct_store c)) \<and>
     whitelist (ct_store c') = whitelist (ct_store c) \<and>
     (\<forall>q t. lookup (expirations (ct_store c')) q = Some t \<longrightarrow> lookup (expirations (ct_store c)) q = Some t)"
  using assms(4)
proof (cases rule: applyLocked_cases)
  case (idle q list bl wl)
  then have "p \<notin> set (blocklist (ct_store c))"
    by (auto simp: parse_canonical_print [OF assms(2)] propose_def policyList_def Let_def split: if_splits)
  with idle assms(1) show ?thesis by (simp add: remove1_idem)
next
  case (commit q list bl wl s d c1)
  have q: "q = p" "list = Blocklist" using commit(1,2) parse_canonical_print [OF assms(2)]
    by (simp_all add: policyList_def)
  have bl: "bl = remove1 p (blocklist (ct_store c))" "wl = whitelist (ct_store c)"
    using commit(3) q by (auto simp: propose_def slices_Delete_Index Let_def split: if_splits)
  note f = applyDelta_frame [OF commit(4)]
  have "store_inv s \<and> blocklist s = bl \<and> whitelist s = wl \<and>
     lookup (expirations s) = (if list = Blocklist \<and> q \<notin> set bl
       then (lookup (expirations (ct_store c)))(q := None) else lookup (expirations (ct_store c)))"
    using persist_mutation_lists [OF assms(1,3) _ commit(1-3)] commit(5) f
    by (simp add: sound_mutation_def)
  with bl q commit(7) show ?thesis by (auto simp: publish_mutation_def split: if_splits)
qed simp_all

lemma applyDelta_sql [simp]: "ct_sql (snd (applyDelta an wd r c)) = ct_sql c"
  using applyDelta_frame [of an wd r c] by (cases "applyDelta an wd r c") auto

lemma applyLocked_sql: "applyLocked an wd env m c = (x, c') \<Longrightarrow> ct_sql c' = ct_sql c"
  by (erule applyLocked_cases) (auto simp: publish_mutation_def dest: applyDelta_frame)

lemma expire_from_ok:
  assumes "store_inv (ct_store c)" "\<forall>(p, t) \<in> set es. canonical p" "\<forall>i. ce_stamp (env i) \<noteq> 0"
    and "expire_from an wd env now i es c = (x, c')"
  shows "store_inv (ct_store c') \<and> set (blocklist (ct_store c')) \<subseteq> set (blocklist (ct_store c)) \<and>
     whitelist (ct_store c') = whitelist (ct_store c) \<and> ct_sql c' = ct_sql c \<and>
     (x = None \<longrightarrow> (\<forall>p t. (p, t) \<in> set es \<and> t \<le> now \<longrightarrow> p \<notin> set (blocklist (ct_store c')))) \<and>
     (\<forall>p \<in> set (blocklist (ct_store c)). (\<forall>t. (p, t) \<in> set es \<longrightarrow> t > now) \<longrightarrow>
        p \<in> set (blocklist (ct_store c'))) \<and>
     (\<forall>q t. lookup (expirations (ct_store c')) q = Some t \<longrightarrow> lookup (expirations (ct_store c)) q = Some t)"
  using assms
proof (induction es arbitrary: c i)
  case (Cons pt es)
  obtain p t where pt: "pt = (p, t)" by (cases pt)
  have can: "canonical p" "\<forall>(p, t) \<in> set es. canonical p" using Cons.prems(2) pt by auto
  show ?case
  proof (cases "t > now")
    case True
    then have "expire_from an wd env now (Suc i) es c = (x, c')" using Cons.prems(4) pt by simp
    from Cons.IH [OF Cons.prems(1) can(2) Cons.prems(3) this] True pt show ?thesis by auto
  next
    case False
    obtain y c1 where step: "applyLocked an wd (env i) \<lparr>pm_Action = ''remove'', pm_List = ''blocklist'',
        pm_Prefix = prefix_String p, pm_ExpiresAt = None\<rparr> c = (y, c1)"
      by fastforce
    show ?thesis
    proof (cases y)
      case (Some e)
      with step False Cons.prems(4) pt have "\<exists>y. x = Some y" "c' = c1" by auto
      then show ?thesis
        using applyLocked_error_frame [OF step [unfolded Some]] applyLocked_sql [OF step] Cons.prems(1) by auto
    next
      case None
      note step = step [unfolded None]
      with False Cons.prems(4) pt have rest: "expire_from an wd env now (Suc i) es c1 = (x, c')" by simp
      have c1: "store_inv (ct_store c1)" "blocklist (ct_store c1) = remove1 p (blocklist (ct_store c))"
        "whitelist (ct_store c1) = whitelist (ct_store c)"
        "\<And>q t. lookup (expirations (ct_store c1)) q = Some t \<Longrightarrow> lookup (expirations (ct_store c)) q = Some t"
        using applyLocked_expire [OF Cons.prems(1) can(1) _ step] Cons.prems(3) by auto
      have "set (blocklist (ct_store c1)) = set (blocklist (ct_store c)) - {p}"
        using c1(2) store_inv_parts(1) [OF Cons.prems(1)] by simp
      with Cons.IH [OF c1(1) can(2) Cons.prems(3) rest] applyLocked_sql [OF step] c1(3,4) pt False
      show ?thesis by auto
    qed
  qed
qed simp

section \<open>Properties\<close>

text \<open>A controller over the in-memory engine, with one blocked prefix.\<close>

definition sample_viewed :: "(mem_state, prefix, mem_attr) viewed" where
  "sample_viewed = (mem_view, sample_engine\<lparr>running := True\<rparr>)"

definition sample_ctl :: "(mem_state, prefix, mem_attr) viewed controller" where
  "sample_ctl = \<lparr>ct_store = sample_stored\<lparr>path := []\<rparr>, ct_disk = Map.empty, ct_sql = None,
     ct_engine = sample_viewed, ct_dryRun = False, ct_nextHopV4 = Addr4 1, ct_nextHopV6 = Addr6 1 [],
     ct_publish = True, ct_published = [], ct_active = [], ct_wake = False\<rparr>"

definition sample_env :: ctl_env where
  "sample_env = \<lparr>ce_now = 5, ce_now2 = 5, ce_stamp = 5, ce_io = sample_io, ce_sql_write = None,
     ce_sql_audit = None, ce_sql_block = None, ce_sql_allow = None, ce_sql_blockRows = None,
     ce_sql_allowRows = None\<rparr>"


lemma sample_stored_inv [simp]: "store_inv sample_stored"
  using exec_command_inv [OF sample_inv _ _ sample_exec] by simp

lemma sample_ctl_inv [simp]: "ctl_inv sample_ctl"
proof -
  have "store_inv (sample_stored\<lparr>path := []\<rparr>)"
    using sample_stored_inv by (simp add: store_inv_def)
  then show ?thesis by (simp add: ctl_inv_def sample_ctl_def)
qed

lemma sample_viewed_contract [simp]: "contract_viewed sample_viewed"
  by (simp add: contract_viewed_def sample_viewed_def sample_engine_def)

lemma sample_ctl_agrees [simp]:
  "agrees contract_viewed rib_viewed encode_viewed (ct_engine sample_ctl) (ct_active sample_ctl)"
proof -
  have "rib_viewed sample_viewed p = None" for p
    by (simp add: rib_viewed_def rib_of_def sample_viewed_def sample_engine_def mem_gobgp_def mem_view_def)
  then show ?thesis by (simp add: agrees_def sample_ctl_def)
qed

lemma sample_lists [simp]:
  "blocklist (ct_store sample_ctl) = [doc_net]" "whitelist (ct_store sample_ctl) = []"
  "expirations (ct_store sample_ctl) = []" "ct_sql sample_ctl = None" "\<not> ct_dryRun sample_ctl"
  by (simp_all add: sample_ctl_def sample_stored_def sample_store_def)

lemma shares_iff:
  assumes "canonical p" "canonical w"
  shows "overlap_test p w \<longleftrightarrow> (\<exists>x. Contains p x \<and> Contains w x)"
  using assms overlap_if_shared shared_if_overlap canonical_wf canonical_valid by meson

text \<open>C6: the effective routes are exactly the blocklist prefixes that have not expired and share no
  address with any whitelist prefix, each with the next hop of its family and the BLACKHOLE
  community. The two base-address tests of the source decide sharing exactly.\<close>

theorem effectiveRoutes_exact:
  assumes "\<forall>p \<in> set bl \<union> set wl. canonical p"
  shows "lookup (effectiveRoutes bl wl es now nh4 nh6) p =
     (if p \<in> set bl \<and> (\<forall>t. lookup es p = Some t \<longrightarrow> t > now) \<and>
         \<not> (\<exists>w \<in> set wl. \<exists>x. Contains p x \<and> Contains w x)
      then Some \<lparr>rt_Prefix = p, rt_NextHop = (if Is4 (pfx_addr p) then nh4 else nh6),
                 rt_Communities = [BlackholeCommunity]\<rparr>
      else None)"
proof (cases "p \<in> set bl")
  case True
  then have p: "canonical p" using assms by blast
  have "suppressed wl p \<longleftrightarrow> (\<exists>w \<in> set wl. \<exists>x. Contains p x \<and> Contains w x)"
    using assms shares_iff [OF p] by (auto simp: suppressed_iff)
  moreover have "expired es now p \<longleftrightarrow> \<not> (\<forall>t. lookup es p = Some t \<longrightarrow> t > now)"
    by (auto simp: expired_def split: option.split)
  moreover have "Is6 (pfx_addr p) \<longleftrightarrow> \<not> Is4 (pfx_addr p)"
    using pfx_addr_family [OF canonical_wf [OF p] canonical_valid [OF p]] not_4_and_6 by blast
  ultimately show ?thesis
    using True by (simp add: effectiveRoutes_lookup wanted_def route_for_def)
qed (simp add: effectiveRoutes_lookup wanted_def)

theorem effectiveRoutes_exact_witness:
  "lookup (effectiveRoutes [doc_net] [doc_net] [] 5 (Addr4 1) (Addr6 1 [])) doc_net = None"
proof -
  have "Contains doc_net (Addr4 0xC0000201)" by code_simp
  then show ?thesis
    using effectiveRoutes_exact [of "[doc_net]" "[doc_net]" "[]" 5 "Addr4 1" "Addr6 1 []" doc_net] by auto
qed



lemma blackhole_text:
  "dec (unat (drop_bit 16 BlackholeCommunity)) = ''65535''"
  "dec (unat (take_bit 16 BlackholeCommunity)) = ''666''"
proof -
  have "drop_bit 16 BlackholeCommunity = 65535" "take_bit 16 BlackholeCommunity = 666"
    by (simp_all add: BlackholeCommunity_def)
  then show "dec (unat (drop_bit 16 BlackholeCommunity)) = ''65535''"
    "dec (unat (take_bit 16 BlackholeCommunity)) = ''666''"
    by (simp_all add: dec.simps digit_char_def char_of_def bit_Suc_0_iff)
qed

text \<open>Every effective route can be announced, and says what it should. With next hops of
  their families and GoBGP's constructors not failing on them, \<open>routePath\<close> accepts the route and
  the path carries the BLACKHOLE community, which the export policy's community set
  \<open>65535:666\<close> names.\<close>

theorem effective_routes_announceable:
  assumes "\<forall>p \<in> set bl. canonical p" "Is4 nh4" "Is6 nh6"
    and "\<forall>p. canonical p \<longrightarrow> (\<exists>n. gb_NewIPAddrPrefix G p = Inr n)"
    and "\<forall>a. Is4 a \<longrightarrow> (\<exists>y. gb_NewPathAttributeNextHop G a = Inr y)"
    and "\<forall>n a. Is6 a \<longrightarrow> (\<exists>y. gb_NewPathAttributeMpReachNLRI G RF_IPv6_UC [n] a = Inr y)"
    and "lookup (effectiveRoutes bl wl es now nh4 nh6) p = Some r"
  shows "(\<exists>path. routePath G r = Inr path \<and>
       gb_NewPathAttributeCommunities G [BlackholeCommunity] \<in> set (path_Attrs path) \<and>
       path_Family path = (if Is4 (pfx_addr p) then RF_IPv4_UC else RF_IPv6_UC) \<and>
       \<not> path_Withdrawal path) \<and>
     ds_list (fst buildRTBHExportPolicy) =
       [dec (unat (drop_bit 16 BlackholeCommunity)) @ '':'' @ dec (unat (take_bit 16 BlackholeCommunity))]"
proof
  have r: "r = route_for nh4 nh6 p" "p \<in> set bl"
    using assms(7) by (simp_all add: effectiveRoutes_lookup wanted_def split: if_splits)
  then have can: "canonical p" using assms(1) by blast
  then have fam: "Is6 (pfx_addr p) \<longleftrightarrow> \<not> Is4 (pfx_addr p)"
    using pfx_addr_family [OF canonical_wf [OF can] canonical_valid [OF can]] not_4_and_6 by blast
  obtain n where n: "gb_NewIPAddrPrefix G p = Inr n" using assms(4) can by blast
  have valid: "prefix_IsValid p" using can by (rule canonical_valid)
  have hop: "addr_IsValid nh4" "addr_IsValid nh6" "\<not> Is4 nh6"
    using assms(2,3) not_4_and_6 by (auto simp: valid_4_or_6)
  obtain y4 where y4: "gb_NewPathAttributeNextHop G nh4 = Inr y4" using assms(2,5) by blast
  obtain y6 where y6: "gb_NewPathAttributeMpReachNLRI G RF_IPv6_UC [n] nh6 = Inr y6" using assms(3,6) by blast
  show "\<exists>path. routePath G r = Inr path \<and>
       gb_NewPathAttributeCommunities G [BlackholeCommunity] \<in> set (path_Attrs path) \<and>
       path_Family path = (if Is4 (pfx_addr p) then RF_IPv4_UC else RF_IPv6_UC) \<and> \<not> path_Withdrawal path"
    using valid hop n y4 y6 fam assms(2)
    by (cases "Is4 (pfx_addr p)") (simp_all add: routePath_def route_for_def Let_def r(1))
  show "ds_list (fst buildRTBHExportPolicy) =
       [dec (unat (drop_bit 16 BlackholeCommunity)) @ '':'' @ dec (unat (take_bit 16 BlackholeCommunity))]"
    by (simp add: blackhole_text buildRTBHExportPolicy_def Let_def)
qed

theorem effective_routes_announceable_witness:
  "\<exists>path. routePath mem_gobgp (route_for (Addr4 1) (Addr6 1 []) doc_net) = Inr path \<and>
     Communities [BlackholeCommunity] \<in> set (path_Attrs path)"
proof -
  have "lookup (effectiveRoutes [doc_net] [] [] 5 (Addr4 1) (Addr6 1 [])) doc_net =
      Some (route_for (Addr4 1) (Addr6 1 []) doc_net)"
    by (simp add: effectiveRoutes_lookup wanted_def expired_def)
  from effective_routes_announceable [OF _ _ _ _ _ _ this, of mem_gobgp]
  show ?thesis by (auto simp: mem_gobgp_def)
qed

text \<open>C7: reconciling in file mode applies exactly the difference between the controller's table and
  the effective policy. Let the controller have no SQL store and not run dry, and let it be
  well-formed over a BGP server that keeps its contract. When \<open>Reconcile\<close> reports no error, the
  controller's table is the effective policy, and in the local table of the BGP engine the prefixes
  of that policy which the controller did not list before hold the path of their route, those it
  listed and no longer wants are gone, and every other entry is as it was. So an engine that
  announced exactly what the controller listed now announces exactly the effective policy; an entry
  the engine lost behind the controller's back is not repaired.\<close>

theorem Reconcile_exact:
  assumes "\<not> ct_dryRun c" "ct_sql c = None" "ctl_inv c" "contract_viewed (ct_engine c)"
    and "Reconcile announce_viewed withdraw_viewed env now c = (None, c')"
  shows "ct_active c' = routes env now c \<and> ctl_inv c' \<and>
     (\<forall>p. rib_viewed (ct_engine c') p =
        (case (lookup (ct_active c) p, lookup (routes env now c) p) of
           (None, Some r) \<Rightarrow> encode_viewed (ct_engine c) r
         | (Some _, None) \<Rightarrow> None
         | _ \<Rightarrow> rib_viewed (ct_engine c) p)) \<and>
     (agrees contract_viewed rib_viewed encode_viewed (ct_engine c) (ct_active c) \<longrightarrow>
      (\<forall>p. canonical p \<longrightarrow> rib_viewed (ct_engine c') p =
        (case lookup (routes env now c) p of
           None \<Rightarrow> None
         | Some r \<Rightarrow> encode_viewed (ct_engine c') r)))"
  using bgp_engine.Reconcile_delta [OF assms] bgp_engine.Reconcile_ok [OF assms(1-3) _ assms(5)]
  by (simp add: agrees_def)

lemma sample_Reconcile:
  "fst (Reconcile announce_viewed withdraw_viewed sample_env 5 sample_ctl) = None"
  by code_simp

theorem Reconcile_exact_witness:
  "ct_active (snd (Reconcile announce_viewed withdraw_viewed sample_env 5 sample_ctl)) =
     routes sample_env 5 sample_ctl \<and>
   rib_viewed (ct_engine (snd (Reconcile announce_viewed withdraw_viewed sample_env 5 sample_ctl))) doc_net =
     encode_viewed sample_viewed (route_for (Addr4 1) (Addr6 1 []) doc_net)"
proof -
  have "Reconcile announce_viewed withdraw_viewed sample_env 5 sample_ctl =
      (None, snd (Reconcile announce_viewed withdraw_viewed sample_env 5 sample_ctl))"
    using sample_Reconcile by (simp add: prod_eq_iff)
  from Reconcile_exact [OF _ _ sample_ctl_inv _ this] show ?thesis
    by (simp add: routes_file effectiveRoutes_lookup wanted_def expired_def) (simp add: sample_ctl_def)
qed

context route_engine begin

text \<open>Any predicate the operations keep can be added to the invariant.\<close>

lemma restrict:
  assumes "\<And>r e. P e \<Longrightarrow> P (snd (announce r e)) \<and> P (snd (withdraw r e))"
  shows "route_engine announce withdraw rib encode (\<lambda>e. einv e \<and> P e)"
proof
  fix e e' r x
  assume e: "einv e \<and> P e"
  show "(einv e' \<and> P e') \<and> encode e' = encode e \<and> encode e r \<noteq> None \<and>
      rib e' = (rib e)(rt_Prefix r := encode e r)"
    if "canonical (rt_Prefix r)" "announce r e = (None, e')"
    using e that announce_ok [OF _ that] assms [of e r] by simp
  show "(einv e' \<and> P e') \<and> encode e' = encode e \<and> rib e' = rib e" if "announce r e = (Some x, e')"
    using e that announce_err [OF _ that] assms [of e r] by simp
  show "(einv e' \<and> P e') \<and> encode e' = encode e \<and> rib e' = (rib e)(rt_Prefix r := None)"
    if "canonical (rt_Prefix r)" "withdraw r e = (None, e')"
    using e that withdraw_ok [OF _ that] assms [of e r] by simp
  show "(einv e' \<and> P e') \<and> encode e' = encode e \<and> rib e' = rib e" if "withdraw r e = (Some x, e')"
    using e that withdraw_err [OF _ that] assms [of e r] by simp
qed

lemma applyDelta_error_while:
  assumes "agrees einv rib encode (ct_engine c) (ct_active c)"
    and "wf_routes nh4 nh6 (ct_active c)" "wf_routes nh4 nh6 desired"
    and "applyDelta announce withdraw desired c = (Some x, c')"
    and "P (ct_engine c)" "\<And>r e. P e \<Longrightarrow> P (snd (announce r e)) \<and> P (snd (withdraw r e))"
    and "never_fails P announce (set (only_in (ct_active c) desired))"
      "never_fails P withdraw (set (only_in desired (ct_active c)))"
  shows "ct_active c' = ct_active c \<and> agrees einv rib encode (ct_engine c') (ct_active c)"
proof -
  have "never_fails (\<lambda>e. einv e \<and> P e) announce (set (only_in (ct_active c) desired))"
    "never_fails (\<lambda>e. einv e \<and> P e) withdraw (set (only_in desired (ct_active c)))"
    using assms(7,8) by (simp_all add: never_fails_def)
  moreover have "agrees (\<lambda>e. einv e \<and> P e) rib encode (ct_engine c) (ct_active c)"
    using assms(1,5) by (simp add: agrees_def)
  ultimately have "ct_active c' = ct_active c \<and>
      agrees (\<lambda>e. einv e \<and> P e) rib encode (ct_engine c') (ct_active c)"
    by (intro route_engine.applyDelta_error [OF restrict [OF assms(6)] _ assms(2-4)])
  then show ?thesis by (simp add: agrees_def)
qed

end

text \<open>C17: a failed move is rolled back. When a withdrawal or an announcement fails, the controller
  keeps its table; and if, in the states the speaker goes through, withdrawing the new routes and
  announcing the old ones again does not fail, the speaker still announces exactly that table.\<close>

theorem applyDelta_rolls_back:
  fixes c :: "('g, 'n, 'a) viewed controller"
  assumes "agrees contract_viewed rib_viewed encode_viewed (ct_engine c) (ct_active c)"
    and "wf_routes nh4 nh6 (ct_active c)" "wf_routes nh4 nh6 desired"
    and "applyDelta announce_viewed withdraw_viewed desired c = (Some x, c')"
    and "P (ct_engine c)" "\<And>r ve. P ve \<Longrightarrow> P (snd (announce_viewed r ve)) \<and> P (snd (withdraw_viewed r ve))"
    and "never_fails P announce_viewed (set (only_in (ct_active c) desired))"
    and "never_fails P withdraw_viewed (set (only_in desired (ct_active c)))"
  shows "ct_active c' = ct_active c \<and>
     agrees contract_viewed rib_viewed encode_viewed (ct_engine c') (ct_active c)"
  using bgp_engine.applyDelta_error_while [of c nh4 nh6 desired x c' P] assms by blast

text \<open>A speaker that refuses one prefix: the old route is withdrawn, the new one fails, and the old
  one is announced again.\<close>

definition full_net :: prefix where
  "full_net = Prefix (Addr4 0xCB007100) (Some 24)"

definition full_gobgp :: "(mem_state, prefix, mem_attr) gobgp" where
  "full_gobgp = mem_gobgp\<lparr>gb_AddPath := (\<lambda>p (t, b).
     if path_Nlri p = full_net then (Some ''table full'', t, b)
     else (None, AList.update (path_Nlri p) p t, b))\<rparr>"

definition full_viewed :: "(mem_state, prefix, mem_attr) viewed" where
  "full_viewed = (mem_view, sample_engine\<lparr>ops := full_gobgp, running := True,
     bgp := ([(doc_net, the (route_encoding mem_gobgp (route_for (Addr4 1) (Addr6 1 []) doc_net)))], True)\<rparr>)"

definition full_ctl :: "(mem_state, prefix, mem_attr) viewed controller" where
  "full_ctl = sample_ctl\<lparr>ct_engine := full_viewed,
     ct_active := [(doc_net, route_for (Addr4 1) (Addr6 1 []) doc_net)]\<rparr>"

definition full_pred :: "(mem_state, prefix, mem_attr) viewed \<Rightarrow> bool" where
  "full_pred ve = (running (snd ve) \<and> ops (snd ve) = full_gobgp \<and> fst ve = mem_view)"

lemma full_contract: "gobgp_contract full_gobgp mem_view"
  unfolding gobgp_contract_def full_gobgp_def mem_gobgp_def mem_view_def by auto

lemma full_net_canonical: "canonical full_net"
  by code_simp

lemma doc_net_Is4: "Is4 (pfx_addr doc_net)" "\<not> Is6 (pfx_addr doc_net)" "full_net \<noteq> doc_net"
  "Is4 (pfx_addr full_net)" "\<not> Is6 (pfx_addr full_net)"
  by (simp_all add: doc_net_def full_net_def)

lemma mem_routePath:
  assumes "canonical p" "Is4 (pfx_addr p)" "\<not> Is6 (pfx_addr p)" "G = mem_gobgp \<or> G = full_gobgp"
  shows "routePath G (route_for (Addr4 1) (Addr6 1 []) p) =
     Inr \<lparr>path_Family = RF_IPv4_UC, path_Nlri = p, path_Attrs =
        [Origin 2, NextHop (Addr4 1), Communities [BlackholeCommunity]], path_Withdrawal = False\<rparr>"
  using assms canonical_valid [OF assms(1)]
  by (auto simp: routePath_def route_for_def Let_def mem_gobgp_def full_gobgp_def addr_IsValid_def
      BGP_ORIGIN_ATTR_TYPE_INCOMPLETE_def)

lemma full_fields [simp]:
  "gb_NewIPAddrPrefix full_gobgp = Inr"
  "gb_AddPath full_gobgp p (t, b) = (if path_Nlri p = full_net then (Some ''table full'', t, b)
     else (None, AList.update (path_Nlri p) p t, b))"
  "gb_DeletePath full_gobgp p (t, b) = (None, AList.delete (path_Nlri p) t, b)"
  by (simp_all add: full_gobgp_def mem_gobgp_def)

lemma full_paths [simp]:
  "routePath full_gobgp (route_for (Addr4 1) (Addr6 1 []) doc_net) =
     Inr \<lparr>path_Family = RF_IPv4_UC, path_Nlri = doc_net, path_Attrs =
        [Origin 2, NextHop (Addr4 1), Communities [BlackholeCommunity]], path_Withdrawal = False\<rparr>"
  "routePath mem_gobgp (route_for (Addr4 1) (Addr6 1 []) doc_net) =
     Inr \<lparr>path_Family = RF_IPv4_UC, path_Nlri = doc_net, path_Attrs =
        [Origin 2, NextHop (Addr4 1), Communities [BlackholeCommunity]], path_Withdrawal = False\<rparr>"
  "routePath full_gobgp (route_for (Addr4 1) (Addr6 1 []) full_net) =
     Inr \<lparr>path_Family = RF_IPv4_UC, path_Nlri = full_net, path_Attrs =
        [Origin 2, NextHop (Addr4 1), Communities [BlackholeCommunity]], path_Withdrawal = False\<rparr>"
  "full_net \<noteq> doc_net" "doc_net \<noteq> full_net"
  using mem_routePath [OF doc_net_canonical doc_net_Is4(1,2)]
    mem_routePath [OF full_net_canonical doc_net_Is4(4,5)] doc_net_Is4(3) by simp_all

lemma full_agrees:
  "agrees contract_viewed rib_viewed encode_viewed (ct_engine full_ctl) (ct_active full_ctl)"
proof -
  have "rib_viewed full_viewed p = (if p = doc_net
      then encode_viewed full_viewed (route_for (Addr4 1) (Addr6 1 []) doc_net) else None)"
    if "canonical p" for p
    using that
    by (auto simp: rib_viewed_def rib_of_def encode_viewed_def route_encoding_def full_viewed_def mem_view_def)
  then show ?thesis
    by (auto simp: agrees_def full_ctl_def contract_viewed_def full_viewed_def full_contract)
qed

lemma full_stable:
  "full_pred ve \<Longrightarrow> full_pred (snd (announce_viewed r ve)) \<and> full_pred (snd (withdraw_viewed r ve))"
  by (cases "Announce r (snd ve)"; cases "Withdraw r (snd ve)")
    (auto simp: full_pred_def announce_viewed_def withdraw_viewed_def dest: Announce_frame Withdraw_frame)

lemma full_never_fails:
  "never_fails full_pred announce_viewed {route_for (Addr4 1) (Addr6 1 []) doc_net}"
  "never_fails full_pred withdraw_viewed {route_for (Addr4 1) (Addr6 1 []) full_net}"
proof -
  have "fst (Announce (route_for (Addr4 1) (Addr6 1 []) doc_net) e) = None \<and>
      fst (Withdraw (route_for (Addr4 1) (Addr6 1 []) full_net) e) = None"
    if "running e" "ops e = full_gobgp" for e :: "(mem_state, prefix, mem_attr) engine"
    using that by (cases "bgp e") (simp add: Announce_def Withdraw_def)
  then show "never_fails full_pred announce_viewed {route_for (Addr4 1) (Addr6 1 []) doc_net}"
    "never_fails full_pred withdraw_viewed {route_for (Addr4 1) (Addr6 1 []) full_net}"
    by (auto simp: never_fails_def full_pred_def announce_viewed_def withdraw_viewed_def case_prod_beta)
qed

theorem applyDelta_rolls_back_witness:
  "agrees contract_viewed rib_viewed encode_viewed
     (ct_engine (snd (applyDelta announce_viewed withdraw_viewed
        [(full_net, route_for (Addr4 1) (Addr6 1 []) full_net)] full_ctl))) (ct_active full_ctl)"
proof -
  let ?d = "[(full_net, route_for (Addr4 1) (Addr6 1 []) full_net)]"
  have "fst (applyDelta announce_viewed withdraw_viewed ?d full_ctl) =
      Some (AnnounceFailed full_net (GobgpFailed ''table full''))"
    by (simp add: applyDelta_def full_ctl_def announce_viewed_def withdraw_viewed_def Announce_def
        Withdraw_def Let_def full_viewed_def)
  then have run: "applyDelta announce_viewed withdraw_viewed ?d full_ctl =
      (Some (AnnounceFailed full_net (GobgpFailed ''table full'')),
       snd (applyDelta announce_viewed withdraw_viewed ?d full_ctl))"
    by (simp add: prod_eq_iff)
  have wf: "wf_routes (Addr4 1) (Addr6 1 []) (ct_active full_ctl)" "wf_routes (Addr4 1) (Addr6 1 []) ?d"
    by (simp_all add: wf_routes_def full_ctl_def full_net_canonical)
  have only: "only_in (ct_active full_ctl) ?d = [route_for (Addr4 1) (Addr6 1 []) doc_net]"
    "only_in ?d (ct_active full_ctl) = [route_for (Addr4 1) (Addr6 1 []) full_net]"
    by (simp_all add: full_ctl_def)
  have P: "full_pred (ct_engine full_ctl)"
    by (simp add: full_pred_def full_ctl_def full_viewed_def)
  have never: "never_fails full_pred announce_viewed (set (only_in (ct_active full_ctl) ?d))"
    "never_fails full_pred withdraw_viewed (set (only_in ?d (ct_active full_ctl)))"
    unfolding only by (simp_all add: full_never_fails)
  from applyDelta_rolls_back [OF full_agrees wf run P full_stable never] show ?thesis by blast
qed

text \<open>A route lost in a failed rollback is not repaired. A prefix that is both in the
  controller's table and desired is never announced again: whatever the outcome, its entry in the
  speaker's table stays as it is, absent if it is absent, while the controller goes on listing
  it.\<close>

theorem active_route_never_repaired:
  assumes "contract_viewed (ct_engine c)"
    and "wf_routes nh4 nh6 (ct_active c)" "wf_routes nh4 nh6 desired"
    and "applyDelta announce_viewed withdraw_viewed desired c = (x, c')"
    and "lookup (ct_active c) p \<noteq> None" "lookup desired p \<noteq> None"
  shows "rib_viewed (ct_engine c') p = rib_viewed (ct_engine c) p \<and> lookup (ct_active c') p \<noteq> None"
  by (rule bgp_engine.applyDelta_untouched [OF assms])

text \<open>A controller that lists a route the speaker does not have.\<close>

definition lost_ctl :: "(mem_state, prefix, mem_attr) viewed controller" where
  "lost_ctl = sample_ctl\<lparr>ct_active := [(doc_net, route_for (Addr4 1) (Addr6 1 []) doc_net)]\<rparr>"

theorem active_route_never_repaired_witness:
  "rib_viewed (ct_engine (snd (applyDelta announce_viewed withdraw_viewed
     [(doc_net, route_for (Addr4 1) (Addr6 1 []) doc_net)] lost_ctl))) doc_net = None"
proof -
  let ?t = "[(doc_net, route_for (Addr4 1) (Addr6 1 []) doc_net)]"
  obtain x c' where run: "applyDelta announce_viewed withdraw_viewed ?t lost_ctl = (x, c')"
    by fastforce
  have "rib_viewed (ct_engine lost_ctl) doc_net = None"
    by (simp add: lost_ctl_def sample_ctl_def rib_viewed_def rib_of_def sample_viewed_def
        sample_engine_def mem_gobgp_def mem_view_def)
  moreover have "contract_viewed (ct_engine lost_ctl)" by (simp add: lost_ctl_def sample_ctl_def)
  moreover have "wf_routes (Addr4 1) (Addr6 1 []) ?t" "ct_active lost_ctl = ?t"
    by (simp_all add: wf_routes_def lost_ctl_def)
  ultimately show ?thesis
    using active_route_never_repaired [OF _ _ _ run, of "Addr4 1" "Addr6 1 []" doc_net] run by simp
qed

text \<open>C8: in file mode a mutation the controller accepts takes effect everywhere at once. Let the
  controller have no SQL store, not run dry and be well-formed over a BGP server that keeps its
  contract, let the store's clock read be set, and let the mutation set an expiry only on an
  addition to the blocklist, as every handler does. When \<open>Apply\<close> reports no error, the store is the
  one the mutation's command describes, a speaker that announced exactly the controller's table
  still does, and a mutation without effect leaves the controller as it is. Any other mutation is
  published, and the controller's table becomes the effective policy of the new lists under the
  expiries from before. That is the effective policy of the new store at every other prefix, and at
  the prefix of the mutation too, unless the mutation sets an expiry that has passed already or
  replaces one that has: such a block is in the store but not announced.\<close>

theorem Apply_tracks_policy:
  assumes "ct_sql c = None" "ctl_inv c" "\<not> ct_dryRun c" "contract_viewed (ct_engine c)"
    and "ce_stamp env \<noteq> 0" "sound_mutation m" "parse_canonical (pm_Prefix m) = Some p"
    and "Apply announce_viewed withdraw_viewed env m c = (None, c')"
  shows "ctl_inv c' \<and>
     (agrees contract_viewed rib_viewed encode_viewed (ct_engine c) (ct_active c) \<longrightarrow>
      agrees contract_viewed rib_viewed encode_viewed (ct_engine c') (ct_active c')) \<and>
     abs_store (ct_store c') = apply_command (mutation_command m p) (abs_store (ct_store c)) \<and>
     (if abs_store (ct_store c') = abs_store (ct_store c) then c' = c
      else ct_published c' = ct_published c @ (if ct_publish c then [m] else []) \<and>
        (\<forall>q. lookup (ct_active c') q = lookup (effectiveRoutes (blocklist (ct_store c')) (whitelist (ct_store c'))
           (expirations (ct_store c)) (ce_now2 env) (ct_nextHopV4 c) (ct_nextHopV6 c)) q) \<and>
        (\<forall>q. q \<noteq> p \<or> fresh_expiry env m (ct_store c) \<longrightarrow>
           lookup (ct_active c') q = lookup (routes env (ce_now2 env) c') q))"
proof -
  have "applyLocked announce_viewed withdraw_viewed env m c = (None, c')"
    using assms(1,3,8) by (simp add: Apply_def split: if_splits)
  from bgp_engine.applyLocked_tracks [OF assms(1,2,4-7) this] show ?thesis .
qed

definition allow_mutation :: policy_mutation where
  "allow_mutation = \<lparr>pm_Action = ''add'', pm_List = ''whitelist'', pm_Prefix = ''192.0.2.0/24'', pm_ExpiresAt = None\<rparr>"

theorem Apply_tracks_policy_witness:
  "abs_store (ct_store (snd (Apply announce_viewed withdraw_viewed sample_env allow_mutation sample_ctl))) =
     apply_command (mutation_command allow_mutation doc_net) (abs_store (ct_store sample_ctl))"
proof -
  let ?r = "Apply announce_viewed withdraw_viewed sample_env allow_mutation sample_ctl"
  have p: "parse_canonical ''192.0.2.0/24'' = Some doc_net"
    using parse_canonical_print [OF doc_net_canonical] by (simp add: sample_change_text)
  have "Contains doc_net (pfx_addr doc_net)" by (simp add: Contains_base)
  then have "effectiveRoutes [doc_net] [doc_net] [] t a b = []" for t a b
    by (simp add: effectiveRoutes_def)
  then have "fst ?r = None"
    by (simp add: Apply_def applyLocked_def allow_mutation_def p policyList_def propose_def Let_def
        Expirations_def applyDelta_def persist_mutation_def mutateStore_def store_Add_def mutate_def
        validList_def commit_store_def result_error_def publish_mutation_def sample_ctl_def
        sample_stored_def sample_store_def)
  then have run: "?r = (None, snd ?r)" by (simp add: prod_eq_iff)
  have "sound_mutation allow_mutation" "parse_canonical (pm_Prefix allow_mutation) = Some doc_net"
    "ce_stamp sample_env \<noteq> 0" "contract_viewed (ct_engine sample_ctl)"
    by (simp_all add: sound_mutation_def allow_mutation_def sample_env_def p) (simp add: sample_ctl_def)
  from Apply_tracks_policy [OF _ sample_ctl_inv _ this(4,3,1,2) run] show ?thesis by simp
qed

text \<open>C13: in file mode a mutation that fails is never half done in the policy. Without an SQL store,
  whatever the reason of the error (a bad mutation, a speaker that refuses a route, a policy file
  that cannot be written after the speaker was told), the lists, the expiries, the audit log and
  the published changes are as before, so no agent is told about it. With an SQL store the row and
  its audit entry stay.\<close>

theorem Apply_error_keeps_policy:
  assumes "ct_sql c = None" "Apply an wd env m c = (Some x, c')"
  shows "ct_store c' = ct_store c \<and> ct_published c' = ct_published c \<and> ct_wake c' = ct_wake c"
  using assms applyLocked_error_frame [of an wd env m c] by (auto simp: Apply_def split: if_splits)

text \<open>A controller whose policy file lies on a disk that fails every write.\<close>

definition file_ctl :: "(mem_state, prefix, mem_attr) viewed controller" where
  "file_ctl = sample_ctl\<lparr>ct_store := sample_stored\<lparr>path := ''p''\<rparr>\<rparr>"

definition full_disk_env :: ctl_env where
  "full_disk_env = sample_env\<lparr>ce_io := sample_io\<lparr>fault := Some Write\<rparr>\<rparr>"

theorem Apply_error_keeps_policy_witness:
  "ct_store (snd (Apply announce_viewed withdraw_viewed full_disk_env allow_mutation file_ctl)) = ct_store file_ctl"
proof -
  let ?r = "Apply announce_viewed withdraw_viewed full_disk_env allow_mutation file_ctl"
  have p: "parse_canonical ''192.0.2.0/24'' = Some doc_net"
    using parse_canonical_print [OF doc_net_canonical] by (simp add: sample_change_text)
  have "Contains doc_net (pfx_addr doc_net)" by (simp add: Contains_base)
  then have "effectiveRoutes [doc_net] [doc_net] [] t a b = []" for t a b
    by (simp add: effectiveRoutes_def)
  then have "fst ?r = Some (CtlStoreFailed (MutateStoreFailed (PersistFailed Write)))"
    by (simp add: Apply_def applyLocked_def allow_mutation_def p policyList_def propose_def Let_def
        Expirations_def applyDelta_def persist_mutation_def mutateStore_def store_Add_def mutate_def
        validList_def commit_store_def persist_eq tmp_fresh_def sample_io_def late_def result_error_def publish_mutation_def file_ctl_def
        full_disk_env_def sample_env_def sample_ctl_def sample_stored_def sample_store_def)
  then have run: "?r = (Some (CtlStoreFailed (MutateStoreFailed (PersistFailed Write))), snd ?r)" by (simp add: prod_eq_iff)
  from Apply_error_keeps_policy [OF _ run] show ?thesis by (simp add: file_ctl_def)
qed

text \<open>C38: a round of the expiry loop removes expired blocks, and only expired blocks, from the policy
  store. Whatever the round reports, the whitelist, the invariant of the store and a configured
  database are kept and no block in force is lost; when it reports no error, the blocklist of the
  store is exactly what had not expired, and nothing left in it has. The rows of an SQL store are
  never touched: there an expired block stays.\<close>

theorem applyExpired_clears:
  assumes "store_inv (ct_store c)" "\<And>i. ce_stamp (env i) \<noteq> 0"
    and "applyExpired an wd env now c = (x, c')"
  shows "store_inv (ct_store c') \<and> whitelist (ct_store c') = whitelist (ct_store c) \<and> ct_sql c' = ct_sql c \<and>
     {p \<in> set (blocklist (ct_store c)). \<not> expired (expirations (ct_store c)) now p} \<subseteq> set (blocklist (ct_store c')) \<and>
     set (blocklist (ct_store c')) \<subseteq> set (blocklist (ct_store c)) \<and>
     (x = None \<longrightarrow>
        set (blocklist (ct_store c')) =
          {p \<in> set (blocklist (ct_store c)). \<not> expired (expirations (ct_store c)) now p} \<and>
        (\<forall>p \<in> set (blocklist (ct_store c')). \<not> expired (expirations (ct_store c')) now p))"
proof -
  let ?es = "expirations (ct_store c)"
  note inv = store_inv_parts [OF assms(1)]
  have "canonical p" if "(p, t) \<in> set ?es" for p t
  proof -
    have "p \<in> fst ` set ?es" using that by force
    then show ?thesis using inv(3,6) by blast
  qed
  then have can: "\<forall>(p, t) \<in> set ?es. canonical p" by blast
  have run: "expire_from an wd env now 0 ?es c = (x, c')"
    using assms(3) by (simp add: applyExpired_def Expirations_def)
  have "\<forall>i. ce_stamp (env i) \<noteq> 0" using assms(2) by blast
  note r = expire_from_ok [OF assms(1) can this run]
  have at: "lookup ?es p = Some t \<longleftrightarrow> (p, t) \<in> set ?es" for p t
    using inv(5) by (simp add: map_of_eq_Some_iff)
  have ex: "expired ?es now p \<longleftrightarrow> (\<exists>t. (p, t) \<in> set ?es \<and> t \<le> now)" for p
    unfolding expired_def at [symmetric] by (cases "lookup ?es p") auto
  have kept: "{p \<in> set (blocklist (ct_store c)). \<not> expired ?es now p} \<subseteq> set (blocklist (ct_store c'))"
    using r ex by (auto simp: not_le)
  have iff: "p \<in> set (blocklist (ct_store c')) \<longleftrightarrow>
      p \<in> set (blocklist (ct_store c)) \<and> \<not> expired ?es now p" if "x = None" for p
    using r ex [of p] that by (auto simp: not_le)
  have "\<not> expired (expirations (ct_store c')) now p" if "x = None" "p \<in> set (blocklist (ct_store c'))" for p
  proof -
    have "\<not> expired ?es now p" using that iff by blast
    then show ?thesis using r unfolding expired_def by (auto split: option.splits)
  qed
  note left = this
  have "x = None \<Longrightarrow> set (blocklist (ct_store c')) =
      {p \<in> set (blocklist (ct_store c)). \<not> expired ?es now p}"
    using iff by blast
  with r kept left show ?thesis by simp
qed

text \<open>A controller whose one block has expired.\<close>

definition expired_ctl :: "(mem_state, prefix, mem_attr) viewed controller" where
  "expired_ctl = sample_ctl\<lparr>ct_store := (ct_store sample_ctl)\<lparr>expirations := [(doc_net, 3)]\<rparr>\<rparr>"

lemma expired_ctl_inv: "store_inv (ct_store expired_ctl)"
  using sample_ctl_inv by (simp add: ctl_inv_def store_inv_def expired_ctl_def)

theorem applyExpired_clears_witness:
  "blocklist (ct_store (snd (applyExpired announce_viewed withdraw_viewed (\<lambda>_. sample_env) 5 expired_ctl))) = []"
proof -
  let ?r = "applyExpired announce_viewed withdraw_viewed (\<lambda>_. sample_env) 5 expired_ctl"
  have "effectiveRoutes [] wl es t a b = []" for wl es t a b
    by (simp add: effectiveRoutes_def)
  then have "fst ?r = None"
    by (simp add: applyExpired_def Expirations_def applyLocked_def parse_canonical_print policyList_def
        propose_def Let_def applyDelta_def persist_mutation_def mutateStore_def store_Remove_def mutate_def
        slices_Delete_def
        validList_def commit_store_def result_error_def expired_ctl_def sample_ctl_def
        sample_stored_def sample_store_def)
  then have run: "?r = (None, snd ?r)" by (simp add: prod_eq_iff)
  have st: "ce_stamp sample_env \<noteq> 0" by (simp add: sample_env_def)
  have "set (blocklist (ct_store (snd ?r))) = {p \<in> set (blocklist (ct_store expired_ctl)).
      \<not> expired (expirations (ct_store expired_ctl)) 5 p}"
    using applyExpired_clears [OF expired_ctl_inv st run] by blast
  moreover have "{p \<in> set (blocklist (ct_store expired_ctl)). \<not> expired (expirations (ct_store expired_ctl)) 5 p} = {}"
    by (auto simp: expired_ctl_def expired_def)
  ultimately show ?thesis by simp
qed

text \<open>What \<open>AllPrefixes\<close> returns depends on the keys of the rows only.\<close>

lemma AllPrefixes_keys:
  "fst (AllPrefixes flt b l d) = (if flt = Some 0 then [] else
     List.map_filter (\<lambda>k. ParsePrefix (fst k)) (read_rows b (filter (\<lambda>k. snd k = l) (map pkey (t_policies d)))))"
proof -
  have "read_rows b (map f xs) = map f (read_rows b xs)" for f :: "policy_row \<Rightarrow> string \<times> string" and xs
    by (simp add: read_rows_def take_map split: option.split)
  moreover have "List.map_filter f (map g xs) = List.map_filter (f \<circ> g) xs" for f :: "string \<times> string \<Rightarrow> prefix option"
      and g :: "policy_row \<Rightarrow> string \<times> string" and xs
    by (induction xs) (simp_all add: List.map_filter_simps split: option.split)
  ultimately show ?thesis by (simp add: AllPrefixes_def filter_map comp_def)
qed

text \<open>In SQL mode a block never expires: the routes the controller computes do not depend on the
  clock, nor on any expiry stored with the policies.\<close>

theorem sql_routes_ignore_expiry:
  assumes "ct_sql c = Some d" "ct_sql c' = Some d'"
    and "map (\<lambda>r. (pr_prefix r, pr_list r)) (t_policies d) = map (\<lambda>r. (pr_prefix r, pr_list r)) (t_policies d')"
    and "ct_nextHopV4 c = ct_nextHopV4 c'" "ct_nextHopV6 c = ct_nextHopV6 c'"
  shows "routes env now c = routes env now' c'"
proof -
  have "fst (AllPrefixes flt b l d) = fst (AllPrefixes flt b l d')" for flt b l
    by (simp only: AllPrefixes_keys assms(3))
  note eq = this
  have "effectiveRoutes bl wl [] now nh4 nh6 = effectiveRoutes bl wl [] now' nh4 nh6" for bl wl nh4 nh6
    unfolding effectiveRoutes_def
  proof -
    have "effectiveRoutes_from bl wl [] now nh4 nh6 m = effectiveRoutes_from bl wl [] now' nh4 nh6 m" for m
      by (induction bl arbitrary: m) (simp_all add: expired_def)
    then show "effectiveRoutes_from bl wl [] now nh4 nh6 [] = effectiveRoutes_from bl wl [] now' nh4 nh6 []" .
  qed
  then show ?thesis using assms(1,2,4,5) by (simp add: routes_def eq)
qed

definition sql_ctl :: "time option \<Rightarrow> (mem_state, prefix, mem_attr) viewed controller" where
  "sql_ctl t = sample_ctl\<lparr>ct_sql := Some (sample_db\<lparr>t_policies := [row_manual\<lparr>pr_expires_at := t\<rparr>]\<rparr>)\<rparr>"

theorem sql_routes_ignore_expiry_witness:
  "routes sample_env 1 (sql_ctl (Some 2)) = routes sample_env 9 (sql_ctl None)"
  by (rule sql_routes_ignore_expiry [of _ "sample_db\<lparr>t_policies := [row_manual\<lparr>pr_expires_at := Some 2\<rparr>]\<rparr>" _
        "sample_db\<lparr>t_policies := [row_manual\<lparr>pr_expires_at := None\<rparr>]\<rparr>"])
    (simp_all add: sql_ctl_def)

text \<open>In SQL mode a mutation can fail and still be in force. When the speaker refuses the new
  routes, the caller gets an error, but the database keeps the row, so the next reconciliation
  applies what was reported as failed.\<close>

theorem sql_failed_mutation_persists:
  assumes "ct_sql c = Some d" "\<not> ct_dryRun c" "parse_canonical (pm_Prefix m) = Some p"
    and "pm_Action m = ''add''" "ce_sql_write env = None"
    and "Apply an wd env m c = (Some x, c')"
  shows "\<exists>d'. ct_sql c' = Some d' \<and> policy_at d' (pm_Prefix m) (pm_List m) \<noteq> None \<and>
     ct_published c' = ct_published c"
proof -
  obtain d1 where add: "AddPolicy None (ce_stamp env) (pm_Prefix m) (pm_List m) ''Manual'' [] (pm_ExpiresAt m) d = (None, d1)"
    "policy_at d1 (pm_Prefix m) (pm_List m) \<noteq> None"
    by (simp add: AddPolicy_def exec_one_def merge_policy_def row_at_upsert [of pkey _ merge_policy])
  let ?d2 = "snd (RecordAudit (ce_sql_audit env) (ce_stamp env) (pm_Action m) (pm_List m) (pm_Prefix m) d1)"
  have d2: "t_policies ?d2 = t_policies d1" by (simp add: RecordAudit_def exec_one_def)
  let ?c = "c\<lparr>ct_sql := Some ?d2\<rparr>"
  obtain y c2 where delta: "applyDelta an wd (routes env (ce_now env) ?c) ?c = (y, c2)" by fastforce
  have "c' = c2"
    using assms add(1) delta by (simp add: Apply_def Let_def split: option.splits)
  with applyDelta_frame [OF delta] add(2) d2 show ?thesis by simp
qed

definition block_mutation :: "time option \<Rightarrow> policy_mutation" where
  "block_mutation t = \<lparr>pm_Action = ''add'', pm_List = ''blocklist'', pm_Prefix = ''192.0.2.0/24'', pm_ExpiresAt = t\<rparr>"

lemma doc_net_text [simp]: "parse_canonical ''192.0.2.0/24'' = Some doc_net" "ParsePrefix ''192.0.2.0/24'' = Some doc_net"
proof -
  show p: "parse_canonical ''192.0.2.0/24'' = Some doc_net"
    using parse_canonical_print [OF doc_net_canonical] by (simp add: sample_change_text)
  then show "ParsePrefix ''192.0.2.0/24'' = Some doc_net"
    by (auto simp: parse_canonical_def split: option.splits if_splits)
qed

definition stopped_ctl :: "(mem_state, prefix, mem_attr) viewed controller" where
  "stopped_ctl = sample_ctl\<lparr>ct_sql := Some (sample_db\<lparr>t_policies := []\<rparr>), ct_engine := (mem_view, sample_engine)\<rparr>"

theorem sql_failed_mutation_persists_witness:
  "\<exists>d'. ct_sql (snd (Apply announce_viewed withdraw_viewed sample_env (block_mutation None) stopped_ctl)) = Some d' \<and>
     policy_at d' ''192.0.2.0/24'' ''blocklist'' \<noteq> None"
proof -
  let ?r = "Apply announce_viewed withdraw_viewed sample_env (block_mutation None) stopped_ctl"
  have "lookup (effectiveRoutes [doc_net] [] [] t a b) doc_net = Some (route_for a b doc_net)" for t a b
    by (simp add: effectiveRoutes_lookup wanted_def expired_def)
  have e: "effectiveRoutes [doc_net] [] [] t a b = [(doc_net, route_for a b doc_net)]" for t a b
    by (simp add: effectiveRoutes_def expired_def)
  have "fst ?r = Some (AnnounceFailed doc_net EngineNotRunning)"
    by (simp add: Apply_def block_mutation_def stopped_ctl_def sample_ctl_def AddPolicy_def exec_one_def
        RecordAudit_def routes_def AllPrefixes_def List.map_filter_simps sample_env_def sample_db_def e
        applyDelta_def announce_viewed_def Announce_def sample_engine_def)
  then have run: "?r = (Some (AnnounceFailed doc_net EngineNotRunning), snd ?r)" by (simp add: prod_eq_iff)
  have "ct_sql stopped_ctl = Some (sample_db\<lparr>t_policies := []\<rparr>)" "\<not> ct_dryRun stopped_ctl"
    by (simp_all add: stopped_ctl_def)
  from sql_failed_mutation_persists [OF this _ _ _ run, of doc_net] show ?thesis
    by (auto simp: block_mutation_def sample_env_def)
qed

text \<open>The feed path does not look at the policy. \<open>ApplyBatch\<close> announces a blocklist prefix of a
  feed even when the effective policy excludes it, because it is whitelisted or because it is not
  in the store at all; the next reconciliation withdraws it again.\<close>

theorem ApplyBatch_ignores_policy:
  assumes "\<not> ct_dryRun c" "ct_sql c = None" "ParsePrefix raw = Some p" "lookup (ct_active c) p = None"
    and "lookup (routes env now c) p = None"
    and "fst (an (route_for (ct_nextHopV4 c) (ct_nextHopV6 c) p) (ct_engine c)) = None"
    and "ApplyBatch an wd ''blocklist'' [raw] [] c = (x, c')"
  shows "x = None \<and> lookup (ct_active c') p = Some (route_for (ct_nextHopV4 c) (ct_nextHopV6 c) p) \<and>
     lookup (routes env now c') p = None \<and>
     (\<forall>c''. Reconcile an wd env now c' = (None, c'') \<longrightarrow> lookup (ct_active c'') p = None)"
proof -
  obtain e where e: "an (route_for (ct_nextHopV4 c) (ct_nextHopV6 c) p) (ct_engine c) = (None, e)"
    using assms(6) by (metis prod.collapse)
  have c': "c' = c\<lparr>ct_engine := e, ct_active := AList.update p (route_for (ct_nextHopV4 c) (ct_nextHopV6 c) p) (ct_active c)\<rparr>"
    "x = None"
    using assms(1,3,4,7) e by (simp_all add: ApplyBatch_def)
  then have routes: "routes env now c' = routes env now c" using assms(2) by (simp add: routes_file)
  have "lookup (ct_active c'') p = None" if "Reconcile an wd env now c' = (None, c'')" for c''
  proof -
    have "applyDelta an wd (routes env now c') c' = (None, c'')"
      using that assms(1) c' by (simp add: Reconcile_def)
    then have "ct_active c'' = routes env now c'"
      by (auto simp: applyDelta_def split: prod.splits option.splits)
    then show ?thesis using routes assms(5) by simp
  qed
  with c' routes assms(5) show ?thesis by simp
qed

definition allowing_ctl :: "(mem_state, prefix, mem_attr) viewed controller" where
  "allowing_ctl = sample_ctl\<lparr>ct_store := (ct_store sample_ctl)\<lparr>whitelist := [doc_net]\<rparr>\<rparr>"

theorem ApplyBatch_ignores_policy_witness:
  "lookup (ct_active (snd (ApplyBatch announce_viewed withdraw_viewed ''blocklist'' [''192.0.2.0/24''] [] allowing_ctl)))
     doc_net = Some (route_for (Addr4 1) (Addr6 1 []) doc_net)"
proof -
  obtain x c' where run: "ApplyBatch announce_viewed withdraw_viewed ''blocklist'' [''192.0.2.0/24''] [] allowing_ctl = (x, c')"
    by fastforce
  have "Contains doc_net (pfx_addr doc_net)" by (simp add: Contains_base)
  then have "lookup (routes sample_env 5 allowing_ctl) doc_net = None"
    by (simp add: allowing_ctl_def routes_file effectiveRoutes_lookup wanted_def)
  moreover have "fst (announce_viewed (route_for (Addr4 1) (Addr6 1 []) doc_net) (ct_engine allowing_ctl)) = None"
    by (simp add: allowing_ctl_def sample_ctl_def sample_viewed_def announce_viewed_def Announce_def sample_engine_def)
      (simp add: mem_gobgp_def)
  moreover have "ct_nextHopV4 allowing_ctl = Addr4 1" "ct_nextHopV6 allowing_ctl = Addr6 1 []"
    "\<not> ct_dryRun allowing_ctl" "ct_sql allowing_ctl = None" "ct_active allowing_ctl = []"
    by (simp_all add: allowing_ctl_def sample_ctl_def)
  ultimately show ?thesis
    using ApplyBatch_ignores_policy [OF _ _ doc_net_text(2) _ _ _ run, of sample_env 5] run by simp
qed

text \<open>A withdrawal that fails in \<open>ApplyBatch\<close> is forgotten. The controller drops the prefix from
  its table and reports success although the speaker still announces it; not being listed, it is
  not withdrawn later either.\<close>

theorem ApplyBatch_forgets_route:
  assumes "\<not> ct_dryRun c" "contract_viewed (ct_engine c)" "ParsePrefix raw = Some p"
    and "lookup (ct_active c) p = Some r" "fst (withdraw_viewed r (ct_engine c)) = Some y"
    and "ApplyBatch announce_viewed withdraw_viewed ''blocklist'' [] [raw] c = (x, c')"
  shows "x = None \<and> lookup (ct_active c') p = None \<and>
     rib_viewed (ct_engine c') p = rib_viewed (ct_engine c) p"
proof -
  obtain e where e: "withdraw_viewed r (ct_engine c) = (Some y, e)"
    using assms(5) by (metis prod.collapse)
  have "rib_viewed e = rib_viewed (ct_engine c)"
    using bgp_engine.withdraw_err [OF assms(2) e] by blast
  with assms(1,3,4,6) e show ?thesis by (auto simp: ApplyBatch_def)
qed

theorem ApplyBatch_forgets_route_witness:
  "lookup (ct_active (snd (ApplyBatch announce_viewed withdraw_viewed ''blocklist'' [] [''192.0.2.0/24'']
     (lost_ctl\<lparr>ct_engine := (mem_view, sample_engine)\<rparr>)))) doc_net = None"
proof -
  let ?c = "lost_ctl\<lparr>ct_engine := (mem_view, sample_engine)\<rparr>"
  obtain x c' where run: "ApplyBatch announce_viewed withdraw_viewed ''blocklist'' [] [''192.0.2.0/24''] ?c = (x, c')"
    by fastforce
  have "\<not> ct_dryRun ?c" "contract_viewed (ct_engine ?c)"
    "lookup (ct_active ?c) doc_net = Some (route_for (Addr4 1) (Addr6 1 []) doc_net)"
    "fst (withdraw_viewed (route_for (Addr4 1) (Addr6 1 []) doc_net) (ct_engine ?c)) = Some EngineNotRunning"
    by (simp_all add: lost_ctl_def contract_viewed_def sample_engine_def withdraw_viewed_def Withdraw_def)
  from ApplyBatch_forgets_route [OF this(1,2) doc_net_text(2) this(3,4) run] run show ?thesis by simp
qed

text \<open>Extending a block that has already expired does not announce it. The proposed routes use
  the old expiries, so the store says the block is in force again while the speaker does not carry
  it until something else triggers a reconciliation.\<close>

theorem extended_block_not_announced:
  assumes "ct_sql c = None" "store_inv (ct_store c)" "\<not> ct_dryRun c" "ce_stamp env \<noteq> 0"
    and "m = \<lparr>pm_Action = ''add'', pm_List = ''blocklist'', pm_Prefix = prefix_String p, pm_ExpiresAt = Some t\<rparr>"
    and "p \<in> set (blocklist (ct_store c))" "\<not> suppressed (whitelist (ct_store c)) p"
    and "lookup (expirations (ct_store c)) p = Some t0" "t0 \<le> ce_now2 env" "ce_now2 env < t"
    and "Apply an wd env m c = (None, c')"
  shows "lookup (ct_active c') p = None \<and> Expiry (ct_store c') p = Some t \<and>
     lookup (routes env (ce_now2 env) c') p \<noteq> None"
proof -
  have can: "canonical p" using store_inv_parts(3) [OF assms(2)] assms(6) by blast
  have p: "parse_canonical (pm_Prefix m) = Some p" using parse_canonical_print [OF can] assms(5) by simp
  have run: "applyLocked an wd env m c = (None, c')"
    using assms(1,3,11) p by (simp add: Apply_def)
  have pr: "propose m p Blocklist (ct_store c) = Some (blocklist (ct_store c), whitelist (ct_store c), True)"
    using assms(5,6,8-10) by (simp add: propose_def Let_def Expiry_def canonical_fix [OF can])
  from run show ?thesis
  proof (cases rule: applyLocked_cases)
    case (idle q list bl wl)
    with p pr assms(5) show ?thesis by (simp add: policyList_def)
  next
    case (commit q list bl wl s d c1)
    have q: "q = p" "list = Blocklist" "bl = blocklist (ct_store c)" "wl = whitelist (ct_store c)"
      using commit(1-3) p pr assms(5) by (auto simp: policyList_def)
    note f = applyDelta_frame [OF commit(4)]
    have act: "ct_active c1 = effectiveRoutes bl wl (expirations (ct_store c)) (ce_now2 env) (ct_nextHopV4 c) (ct_nextHopV6 c)"
      using commit(4) by (auto simp: applyDelta_def split: prod.splits option.splits)
    have "sound_mutation m" using assms(5) by (simp add: sound_mutation_def)
    then have s: "blocklist s = bl" "whitelist s = wl" "lookup (expirations s) = (lookup (expirations (ct_store c)))(p \<mapsto> t)"
      using persist_mutation_lists [OF assms(2,4) _ commit(1-3)] commit(5) f q assms(5) by auto
    have "ct_store c' = s" "ct_active c' = ct_active c1" "ct_sql c' = None"
      using commit(7) f assms(1) by (simp_all add: publish_mutation_def)
    then show ?thesis
      using act s q assms(6-10)
      by (simp add: effectiveRoutes_lookup wanted_def expired_def routes_file Expiry_def canonical_fix [OF can])
  qed simp_all
qed

theorem extended_block_not_announced_witness:
  "lookup (ct_active (snd (Apply announce_viewed withdraw_viewed sample_env (block_mutation (Some 9)) expired_ctl)))
     doc_net = None"
proof -
  let ?r = "Apply announce_viewed withdraw_viewed sample_env (block_mutation (Some 9)) expired_ctl"
  have "effectiveRoutes [doc_net] [] [(doc_net, 3)] 5 a b = []" for a b
    by (simp add: effectiveRoutes_def expired_def)
  then have "fst ?r = None"
    by (simp add: Apply_def applyLocked_def block_mutation_def policyList_def propose_def Let_def Expiry_def
        Expirations_def applyDelta_def persist_mutation_def AddUntil_def commit_store_def
        result_error_def publish_mutation_def expired_ctl_def sample_ctl_def
        sample_stored_def sample_store_def sample_env_def)
  then have run: "?r = (None, snd ?r)" by (simp add: prod_eq_iff)
  note expired_ctl_inv
  moreover have "block_mutation (Some 9) = \<lparr>pm_Action = ''add'', pm_List = ''blocklist'',
      pm_Prefix = prefix_String doc_net, pm_ExpiresAt = Some 9\<rparr>"
    by (simp add: block_mutation_def sample_change_text)
  ultimately show ?thesis
    using extended_block_not_announced [OF _ _ _ _ _ _ _ _ _ _ run, of doc_net 9 3]
    by (simp add: expired_ctl_def sample_env_def)
qed

end
