(* ===== verification/Agent_Rpc.thy ===== *)
theory Agent_Rpc
  imports Adapter
begin

text \<open>
  \<open>internal/agentrpc/session.go\<close>: the policy-sync transport. A session holds the two cursors, the
  next sequence number and the sequences in flight, all 64-bit, and one connection. A connection
  is the bytes still to arrive, the bytes sent, and how many more bytes the peer takes before a
  write fails. Frames are a big-endian 32-bit length and a JSON text; the JSON codec is an
  argument, with the law that a marshalled message decodes to itself as \<open>codec_ok\<close>. Deadlines and
  cancellation appear as the end of the bytes.
\<close>

section \<open>Data\<close>

definition TypePolicy :: string where "TypePolicy = ''policy''"
definition TypeACK :: string where "TypeACK = ''ack''"

record rpc_config =
  MaxMessageBytes :: int
  MaxInFlight :: int

record resume =
  rs_AppliedCursor :: "64 word"
  rs_PeerCursor :: "64 word"
  rs_NextSequence :: "64 word"

record message =
  ms_Type :: string
  ms_Sequence :: "64 word"
  ms_Cursor :: "64 word"
  ms_Policy :: "policy_change option"

definition policy_message :: "64 word \<Rightarrow> policy_change \<Rightarrow> message" where
  "policy_message n change =
     \<lparr>ms_Type = TypePolicy, ms_Sequence = n, ms_Cursor = 0, ms_Policy = Some change\<rparr>"

definition ack_message :: "64 word \<Rightarrow> message" where
  "ack_message n = \<lparr>ms_Type = TypeACK, ms_Sequence = 0, ms_Cursor = n, ms_Policy = None\<rparr>"

type_synonym byte = "8 word"

text \<open>What decoding a payload gives: nothing, a message followed by more input, one message.\<close>

datatype decoded = BadJSON | MoreJSON message | OneJSON message

record json_codec =
  marshal :: "message \<Rightarrow> byte list option"
  decode :: "byte list \<Rightarrow> decoded"

record conn =
  cn_in :: "byte list"
  cn_out :: "byte list"
  cn_room :: "nat option"

record session =
  ss_conn :: conn
  ss_config :: rpc_config
  ss_next :: "64 word"
  ss_applied :: "64 word"
  ss_peer :: "64 word"
  ss_pending :: "(64 word, unit) gomap"

datatype rpc_error =
    ConnRequired | LimitsNotPositive | NextNotAfterPeer
  | PolicyIdentity | PolicyOperation | PolicyListInvalid | PolicyExpiry | PolicyPrefix
  | ErrBackpressure | ErrMessageTooLarge
  | EncodeMessage | WriteHeader | WritePayload
  | ReadHeader | ReadPayload | EmptyMessage | DecodeMessage | ExtraJSON
  | ZeroAckCursor | IncompletePolicy | SequenceGap "64 word" "64 word" | UnknownType string
  | AckNotNext "64 word"

section \<open>Validation\<close>

definition validatePolicy :: "policy_change \<Rightarrow> rpc_error option" where
  "validatePolicy c =
     (if pc_ID c = [] \<or> pc_IdempotencyKey c = [] then Some PolicyIdentity
      else if pc_Operation c \<noteq> ''add'' \<and> pc_Operation c \<noteq> ''remove'' \<and>
              pc_Operation c \<noteq> ''replace'' \<and> pc_Operation c \<noteq> ''delete'' then Some PolicyOperation
      else if pc_List c \<noteq> ''blocklist'' \<and> pc_List c \<noteq> ''whitelist'' then Some PolicyListInvalid
      else if pc_ExpiresAt c \<noteq> None \<and> (pc_Operation c \<noteq> ''add'' \<or> pc_List c \<noteq> ''blocklist'')
        then Some PolicyExpiry
      else if parse_canonical (pc_Prefix c) = None then Some PolicyPrefix
      else None)"

section \<open>Frames\<close>

definition be32 :: "32 word \<Rightarrow> byte list" where
  "be32 w = map (\<lambda>k. ucast (drop_bit k w)) [24, 16, 8, 0]"

definition be32_val :: "byte list \<Rightarrow> 32 word" where
  "be32_val bs = foldl (\<lambda>acc b. push_bit 8 acc OR ucast b) 0 bs"

definition frame :: "byte list \<Rightarrow> byte list" where
  "frame data = be32 (of_nat (length data)) @ data"

text \<open>Writing all bytes, or as many as the peer takes and then an error.\<close>

definition writeFull :: "byte list \<Rightarrow> conn \<Rightarrow> bool \<times> conn" where
  "writeFull data c =
     (case cn_room c of
        None \<Rightarrow> (True, c\<lparr>cn_out := cn_out c @ data\<rparr>)
      | Some n \<Rightarrow>
          if length data \<le> n
          then (True, c\<lparr>cn_out := cn_out c @ data, cn_room := Some (n - length data)\<rparr>)
          else (False, c\<lparr>cn_out := cn_out c @ take n data, cn_room := Some 0\<rparr>))"

definition session_write :: "json_codec \<Rightarrow> message \<Rightarrow> session \<Rightarrow> rpc_error option \<times> session" where
  "session_write C m s =
     (case marshal C m of
        None \<Rightarrow> (Some EncodeMessage, s)
      | Some data \<Rightarrow>
          if int (length data) > MaxMessageBytes (ss_config s) then (Some ErrMessageTooLarge, s)
          else
            (case writeFull (be32 (of_nat (length data))) (ss_conn s) of
               (False, c) \<Rightarrow> (Some WriteHeader, s\<lparr>ss_conn := c\<rparr>)
             | (True, c) \<Rightarrow>
                 (case writeFull data c of
                    (False, c) \<Rightarrow> (Some WritePayload, s\<lparr>ss_conn := c\<rparr>)
                  | (True, c) \<Rightarrow> (None, s\<lparr>ss_conn := c\<rparr>))))"

definition session_read :: "json_codec \<Rightarrow> session \<Rightarrow> (rpc_error + message) \<times> session" where
  "session_read C s =
     (let inp = cn_in (ss_conn s);
          rest = (\<lambda>k. s\<lparr>ss_conn := (ss_conn s)\<lparr>cn_in := drop k inp\<rparr>\<rparr>)
      in if length inp < 4 then (Inl ReadHeader, rest 4)
         else
           let size = be32_val (take 4 inp) in
           if size = 0 then (Inl EmptyMessage, rest 4)
           else if int (unat size) > MaxMessageBytes (ss_config s) then (Inl ErrMessageTooLarge, rest 4)
           else if length inp < 4 + unat size then (Inl ReadPayload, rest (4 + unat size))
           else
             (case decode C (take (unat size) (drop 4 inp)) of
                BadJSON \<Rightarrow> (Inl DecodeMessage, rest (4 + unat size))
              | MoreJSON _ \<Rightarrow> (Inl ExtraJSON, rest (4 + unat size))
              | OneJSON m \<Rightarrow> (Inr m, rest (4 + unat size))))"

section \<open>Sessions\<close>

definition NewSession :: "conn option \<Rightarrow> rpc_config \<Rightarrow> resume \<Rightarrow> rpc_error + session" where
  "NewSession connection cfg r =
     (case connection of
        None \<Rightarrow> Inl ConnRequired
      | Some c \<Rightarrow>
          if MaxMessageBytes cfg < 1 \<or> MaxInFlight cfg < 1 then Inl LimitsNotPositive
          else
            let n = (if rs_NextSequence r = 0 then rs_PeerCursor r + 1 else rs_NextSequence r)
            in if n \<le> rs_PeerCursor r then Inl NextNotAfterPeer
               else Inr \<lparr>ss_conn = c, ss_config = cfg, ss_next = n, ss_applied = rs_AppliedCursor r,
                         ss_peer = rs_PeerCursor r, ss_pending = []\<rparr>)"

definition SendPolicy :: "json_codec \<Rightarrow> policy_change \<Rightarrow> session \<Rightarrow> (rpc_error + 64 word) \<times> session" where
  "SendPolicy C change s =
     (case validatePolicy change of
        Some e \<Rightarrow> (Inl e, s)
      | None \<Rightarrow>
          if int (length (ss_pending s)) \<ge> MaxInFlight (ss_config s) then (Inl ErrBackpressure, s)
          else
            let n = ss_next s;
                s = s\<lparr>ss_next := ss_next s + 1, ss_pending := AList.update n () (ss_pending s)\<rparr>
            in case session_write C (policy_message n change) s of
                 (Some e, s) \<Rightarrow> (Inl e, s\<lparr>ss_pending := AList.delete n (ss_pending s)\<rparr>)
               | (None, s) \<Rightarrow> (Inr n, s))"

text \<open>An ACK moves the peer cursor forward and settles the sequences it covers.\<close>

definition take_ack :: "64 word \<Rightarrow> session \<Rightarrow> session" where
  "take_ack cursor s =
     (if cursor > ss_peer s
      then s\<lparr>ss_peer := cursor,
             ss_pending := filter (\<lambda>(n, _). \<not> n \<le> cursor) (ss_pending s)\<rparr>
      else s)"

lemma take_ack_frame [simp]:
  "ss_applied (take_ack n s) = ss_applied s" "ss_next (take_ack n s) = ss_next s"
  "ss_config (take_ack n s) = ss_config s" "ss_conn (take_ack n s) = ss_conn s"
  by (simp_all add: take_ack_def)

lemma session_write_in: "session_write C m s = (x, s') \<Longrightarrow> cn_in (ss_conn s') = cn_in (ss_conn s)"
  by (auto simp: session_write_def writeFull_def split: option.splits if_splits prod.splits)

text \<open>A message takes at least its four-byte header and one byte of payload off the connection.\<close>

lemma session_read_shorter:
  "session_read C s = (Inr m, s') \<Longrightarrow> length (cn_in (ss_conn s')) + 5 \<le> length (cn_in (ss_conn s))"
proof -
  assume r: "session_read C s = (Inr m, s')"
  let ?inp = "cn_in (ss_conn s)"
  let ?size = "be32_val (take 4 ?inp)"
  have s: "?size \<noteq> 0" "4 + unat ?size \<le> length ?inp" "length (cn_in (ss_conn s')) = length ?inp - (4 + unat ?size)"
    using r by (auto simp: session_read_def Let_def split: if_splits decoded.splits)
  have "0 < unat ?size" using s(1) by (simp add: unat_gt_0)
  with s(2,3) show ?thesis by linarith
qed

lemma Receive_shrinks:
  assumes "(x, s1) = session_read C s" "x = Inr m" "(y, s2) = session_write C k s1"
  shows "length (cn_in (ss_conn s2)) < length (cn_in (ss_conn s))"
  using session_read_shorter [of C s m s1] session_write_in [of C k s1 y s2] assms by simp

function Receive :: "json_codec \<Rightarrow> session \<Rightarrow> (rpc_error + message) \<times> session" where
  "Receive C s =
     (case session_read C s of
        (Inl e, s1) \<Rightarrow> (Inl e, s1)
      | (Inr m, s1) \<Rightarrow>
          if ms_Type m = TypeACK then
            if ms_Cursor m = 0 then (Inl ZeroAckCursor, s1) else (Inr m, take_ack (ms_Cursor m) s1)
          else if ms_Type m = TypePolicy then
            (case ms_Policy m of
               None \<Rightarrow> (Inl IncompletePolicy, s1)
             | Some change \<Rightarrow>
                 if ms_Sequence m = 0 then (Inl IncompletePolicy, s1)
                 else (case validatePolicy change of
                   Some e \<Rightarrow> (Inl e, s1)
                 | None \<Rightarrow>
                     if ms_Sequence m \<le> ss_applied s1 then
                       (case session_write C (ack_message (ss_applied s1)) s1 of
                          (Some e, s2) \<Rightarrow> (Inl e, s2)
                        | (None, s2) \<Rightarrow> Receive C s2)
                     else if ms_Sequence m \<noteq> ss_applied s1 + 1
                       then (Inl (SequenceGap (ms_Sequence m) (ss_applied s1)), s1)
                     else (Inr m, s1)))
          else (Inl (UnknownType (ms_Type m)), s1))"
  by pat_completeness auto
termination
proof (relation "measure (\<lambda>(C, s). length (cn_in (ss_conn s)))", goal_cases)
  case 1
  show ?case by simp
next
  case 2
  then show ?case using Receive_shrinks by (simp only: in_measure prod.case)
qed

declare Receive.simps [simp del]

definition Ack :: "json_codec \<Rightarrow> 64 word \<Rightarrow> session \<Rightarrow> rpc_error option \<times> session" where
  "Ack C n s =
     (if n \<noteq> ss_applied s + 1 then (Some (AckNotNext n), s)
      else session_write C (ack_message n) (s\<lparr>ss_applied := n\<rparr>))"

section \<open>Frames round trip\<close>

text \<open>What the session relies on of the JSON codec.\<close>

definition codec_ok :: "json_codec \<Rightarrow> bool" where
  "codec_ok C = (\<forall>m data. marshal C m = Some data \<longrightarrow> data \<noteq> [] \<and> decode C data = OneJSON m)"

lemma length_be32 [simp]: "length (be32 w) = 4"
  by (simp add: be32_def)

lemma be32_val_bytes:
  "be32_val [a, b, c, d] = push_bit 24 (ucast a) OR push_bit 16 (ucast b) OR push_bit 8 (ucast c) OR ucast d"
  by (simp add: be32_val_def push_bit_or or.assoc)

lemma byte_bit:
  "bit (push_bit k (ucast (ucast (drop_bit k w) :: byte)) :: 32 word) n \<longleftrightarrow>
    k \<le> n \<and> n < k + 8 \<and> n < 32 \<and> bit w n"
  for w :: "32 word"
  using bit_imp_le_length [of w n]
  by (auto simp: bit_push_bit_iff bit_ucast_iff bit_drop_bit_eq)

lemma be32_val_be32 [simp]: "be32_val (be32 w) = w"
proof (rule bit_word_eqI)
  fix n :: nat
  assume n: "n < LENGTH(32)"
  have e: "be32_val (be32 w) =
      push_bit 24 (ucast (ucast (drop_bit 24 w) :: byte)) OR
      push_bit 16 (ucast (ucast (drop_bit 16 w) :: byte)) OR
      push_bit 8 (ucast (ucast (drop_bit 8 w) :: byte)) OR
      push_bit 0 (ucast (ucast (drop_bit 0 w) :: byte))"
    by (simp add: be32_def be32_val_bytes)
  show "bit (be32_val (be32 w)) n = bit w n"
    unfolding e bit_or_iff byte_bit using n by auto
qed
lemma of_nat_32_unat: "n < 2 ^ 32 \<Longrightarrow> unat (of_nat n :: 32 word) = n"
  by (simp only: unat_of_nat) simp

lemma of_nat_32_zero: "n < 2 ^ 32 \<Longrightarrow> (of_nat n :: 32 word) = 0 \<longleftrightarrow> n = 0"
  using of_nat_32_unat [of n] unat_eq_zero [of "of_nat n :: 32 word"] by (simp only:)

lemma read_frame:
  assumes "decode C data = OneJSON m" "data \<noteq> []" "length data < 2 ^ 32"
    and "int (length data) \<le> MaxMessageBytes (ss_config s)" "cn_in (ss_conn s) = frame data @ rest"
  shows "session_read C s = (Inr m, s\<lparr>ss_conn := (ss_conn s)\<lparr>cn_in := rest\<rparr>\<rparr>)"
proof -
  have "take 4 (frame data @ rest) = be32 (of_nat (length data))"
    "drop 4 (frame data @ rest) = data @ rest"
    "drop (4 + length data) (frame data @ rest) = rest"
    by (simp_all add: frame_def)
  then show ?thesis
    using assms by (simp add: session_read_def Let_def of_nat_32_unat of_nat_32_zero frame_def)
qed

lemma write_frame:
  assumes "session_write C m s = (None, s')"
  shows "\<exists>data. marshal C m = Some data \<and> int (length data) \<le> MaxMessageBytes (ss_config s) \<and>
     cn_out (ss_conn s') = cn_out (ss_conn s) @ frame data \<and>
     (\<exists>c. s' = s\<lparr>ss_conn := c\<rparr> \<and> cn_in c = cn_in (ss_conn s))"
  using assms
  by (auto simp: session_write_def writeFull_def frame_def split: option.splits if_splits)

lemma session_write_frame [frame_simps]:
  assumes "session_write C m s = (x, s')"
  shows "ss_config s' = ss_config s" "ss_next s' = ss_next s" "ss_applied s' = ss_applied s"
    "ss_peer s' = ss_peer s" "ss_pending s' = ss_pending s"
  using assms by (auto simp: session_write_def split: option.splits if_splits prod.splits bool.splits)

lemma session_read_frame [frame_simps]:
  assumes "session_read C s = (x, s')"
  shows "ss_config s' = ss_config s" "ss_next s' = ss_next s" "ss_applied s' = ss_applied s"
    "ss_peer s' = ss_peer s" "ss_pending s' = ss_pending s" "cn_out (ss_conn s') = cn_out (ss_conn s)"
  using assms by (auto simp: session_read_def Let_def split: decoded.splits if_splits)

section \<open>What a session receives\<close>

lemma validatePolicy_ok:
  assumes "validatePolicy c = None"
  shows "\<exists>k. change_command c = Some k"
  using assms by (auto simp: validatePolicy_def change_command_def split: if_splits option.splits)

text \<open>The outcomes of \<open>Receive\<close> that deliver a message.\<close>

lemma Receive_ok:
  assumes "Receive C s = (Inr m, s')"
  shows "ss_applied s' = ss_applied s \<and> ss_next s' = ss_next s \<and> ss_config s' = ss_config s \<and>
     ((ms_Type m = TypeACK \<and> ms_Cursor m \<noteq> 0 \<and>
         (\<exists>s1. ss_peer s1 = ss_peer s \<and> ss_pending s1 = ss_pending s \<and> s' = take_ack (ms_Cursor m) s1)) \<or>
      (ms_Type m = TypePolicy \<and> ms_Sequence m = ss_applied s + 1 \<and> ms_Sequence m \<noteq> 0 \<and>
         ss_peer s' = ss_peer s \<and> ss_pending s' = ss_pending s \<and>
         (\<exists>ch. ms_Policy m = Some ch \<and> validatePolicy ch = None)))"
  using assms
proof (induction C s rule: Receive.induct)
  case (1 C s)
  obtain x s1 where r: "session_read C s = (x, s1)" by (cases "session_read C s")
  note f = session_read_frame [OF r]
  show ?case
  proof (cases x)
    case (Inl e)
    with "1.prems" r show ?thesis by (subst (asm) Receive.simps) simp
  next
    case (Inr m1)
    note step = "1.prems" [unfolded Receive.simps [of C s] r prod.case Inr sum.case]
    show ?thesis
    proof (cases "ms_Type m1 = TypeACK")
      case True
      with step have "m1 = m" "ms_Cursor m1 \<noteq> 0" "s' = take_ack (ms_Cursor m1) s1"
        by (auto split: if_splits)
      with True f show ?thesis by (intro conjI disjI1 exI [of _ s1]) simp_all
    next
      case not_ack: False
      show ?thesis
      proof (cases "\<exists>ch. ms_Type m1 = TypePolicy \<and> ms_Policy m1 = Some ch \<and> ms_Sequence m1 \<noteq> 0 \<and>
          validatePolicy ch = None")
        case False
        with step not_ack show ?thesis by (auto split: if_splits option.splits)
      next
        case True
        then obtain ch where m1: "ms_Type m1 = TypePolicy" "ms_Policy m1 = Some ch" "ms_Sequence m1 \<noteq> 0"
          "validatePolicy ch = None" by blast
        show ?thesis
        proof (cases "ms_Sequence m1 \<le> ss_applied s1")
          case old: True
          obtain y s2 where w: "session_write C (ack_message (ss_applied s1)) s1 = (y, s2)"
            by (cases "session_write C (ack_message (ss_applied s1)) s1")
          with step not_ack m1 old have "y = None" and rec: "Receive C s2 = (Inr m, s')"
            by (auto split: option.splits)
          from "1.IH" [OF r [symmetric] Inr not_ack m1(1,2,3,4) old w [symmetric] this(1) rec]
          show ?thesis using f session_write_frame [OF w] by simp
        next
          case False
          with step not_ack m1 f show ?thesis by (auto split: if_splits)
        qed
      qed
    qed
  qed
qed

section \<open>Reachable sessions\<close>

inductive session_step :: "json_codec \<Rightarrow> session \<Rightarrow> session \<Rightarrow> bool" for C where
  step_Send: "SendPolicy C change s = (x, s') \<Longrightarrow> session_step C s s'"
| step_Receive: "Receive C s = (Inr m, s') \<Longrightarrow> session_step C s s'"
| step_Ack: "Ack C n s = (x, s') \<Longrightarrow> session_step C s s'"

inductive session_reachable :: "json_codec \<Rightarrow> session \<Rightarrow> session \<Rightarrow> bool" for C s0 where
  session_init: "session_reachable C s0 s0"
| session_more: "session_reachable C s0 s \<Longrightarrow> session_step C s s' \<Longrightarrow> session_reachable C s0 s'"

definition in_flight_inv :: "session \<Rightarrow> bool" where
  "in_flight_inv s = (wf_map (ss_pending s) \<and> int (length (ss_pending s)) \<le> MaxInFlight (ss_config s))"

lemma distinct_filter_keys: "wf_map m \<Longrightarrow> wf_map (filter P m)"
  by (rule distinct_map_filter)

lemma in_flight_take_ack: "in_flight_inv s \<Longrightarrow> in_flight_inv (take_ack n s)"
  unfolding in_flight_inv_def take_ack_def
  by (auto simp: distinct_filter_keys intro: order_trans [OF iffD2 [OF of_nat_le_iff length_filter_le]])

lemma in_flight_send:
  assumes "in_flight_inv s" "SendPolicy C change s = (x, s')"
  shows "in_flight_inv s' \<and> ss_config s' = ss_config s"
proof -
  let ?n = "ss_next s"
  let ?s1 = "s\<lparr>ss_next := ss_next s + 1, ss_pending := AList.update ?n () (ss_pending s)\<rparr>"
  obtain y s2 where w: "session_write C (policy_message ?n change) ?s1 = (y, s2)"
    by (cases "session_write C (policy_message ?n change) ?s1")
  note f = session_write_frame [OF w]
  show ?thesis
  proof (cases "validatePolicy change = None \<and> int (length (ss_pending s)) < MaxInFlight (ss_config s)")
    case True
    then have "in_flight_inv ?s1" using assms(1) by (simp add: in_flight_inv_def length_update)
    then have s2: "in_flight_inv s2" using f by (simp add: in_flight_inv_def)
    moreover have "in_flight_inv (s2\<lparr>ss_pending := AList.delete ?n (ss_pending s2)\<rparr>)"
      using s2 length_delete_le [of ?n "ss_pending s2"] by (simp add: in_flight_inv_def)
    ultimately show ?thesis
      using True assms(2) w f by (auto simp: SendPolicy_def Let_def split: option.splits)
  qed (use assms in \<open>auto simp: SendPolicy_def split: option.splits\<close>)
qed

lemma in_flight_step:
  assumes "session_step C s s'" "in_flight_inv s"
  shows "in_flight_inv s' \<and> ss_config s' = ss_config s"
  using assms(1)
proof cases
  case (step_Send change x)
  then show ?thesis using in_flight_send [OF assms(2)] by blast
next
  case (step_Receive m)
  note r = Receive_ok [OF step_Receive]
  then consider s1 where "ss_peer s1 = ss_peer s" "ss_pending s1 = ss_pending s" "s' = take_ack (ms_Cursor m) s1"
    | "ss_pending s' = ss_pending s" by blast
  then show ?thesis
  proof cases
    case (1 s1)
    then have "ss_config s1 = ss_config s" using r by (simp add: take_ack_def split: if_splits)
    with 1 assms(2) have "in_flight_inv s1" by (simp add: in_flight_inv_def)
    with 1 r in_flight_take_ack show ?thesis by blast
  next
    case 2
    with r assms(2) show ?thesis by (simp add: in_flight_inv_def)
  qed
next
  case (step_Ack n x)
  show ?thesis
  proof (cases "n = ss_applied s + 1")
    case True
    with step_Ack have "session_write C (ack_message n) (s\<lparr>ss_applied := n\<rparr>) = (x, s')"
      by (simp add: Ack_def)
    from session_write_frame [OF this] assms(2) show ?thesis by (simp add: in_flight_inv_def)
  qed (use step_Ack assms(2) in \<open>simp add: Ack_def\<close>)
qed

lemma in_flight_reachable:
  assumes "session_reachable C s0 s" "in_flight_inv s0"
  shows "in_flight_inv s \<and> ss_config s = ss_config s0"
  using assms by induction (auto dest: in_flight_step)

text \<open>
  A run of the receiving side: policies received and acknowledged, with the sequence numbers in
  order, between sends, other receives and reconnections that keep the cursor. The write of the
  ACK may fail.
\<close>

inductive delivered :: "json_codec \<Rightarrow> session \<Rightarrow> 64 word list \<Rightarrow> session \<Rightarrow> bool" for C s0 where
  delivered_none: "delivered C s0 [] s0"
| delivered_policy: "delivered C s0 ns s \<Longrightarrow> Receive C s = (Inr m, s1) \<Longrightarrow> ms_Type m = TypePolicy \<Longrightarrow>
    Ack C (ms_Sequence m) s1 = (x, s2) \<Longrightarrow> delivered C s0 (ns @ [ms_Sequence m]) s2"
| delivered_receive: "delivered C s0 ns s \<Longrightarrow> Receive C s = (Inr m, s1) \<Longrightarrow> delivered C s0 ns s1"
| delivered_send: "delivered C s0 ns s \<Longrightarrow> SendPolicy C ch s = (x, s1) \<Longrightarrow> delivered C s0 ns s1"
| delivered_reconnect: "delivered C s0 ns s \<Longrightarrow> delivered C s0 ns (s\<lparr>ss_conn := c\<rparr>)"

lemma SendPolicy_applied: "SendPolicy C ch s = (x, s1) \<Longrightarrow> ss_applied s1 = ss_applied s"
  by (auto simp: SendPolicy_def Let_def split: option.splits if_splits prod.splits
      dest!: session_write_frame(3))

lemma Ack_applied:
  assumes "Ack C n s = (x, s1)"
  shows "ss_applied s1 = (if n = ss_applied s + 1 then n else ss_applied s)"
  using assms by (auto simp: Ack_def split: if_splits dest: session_write_frame(3))

lemma unat_next: "n + 1 \<noteq> (0 :: 64 word) \<Longrightarrow> unat (n + 1) = unat n + 1"
  by (metis Suc_eq_plus1 add.commute unatSuc)

lemma delivered_next:
  assumes "delivered C s0 ns s"
  shows "map unat ns = [unat (ss_applied s0) + 1 ..< unat (ss_applied s) + 1] \<and>
    ss_applied s0 \<le> ss_applied s"
  using assms
proof induction
  case (delivered_policy ns s m s1 x s2)
  have "TypePolicy \<noteq> TypeACK" by (simp add: TypePolicy_def TypeACK_def)
  with Receive_ok [OF delivered_policy.hyps(2)] delivered_policy.hyps(3)
  have r: "ms_Sequence m = ss_applied s + 1" "ms_Sequence m \<noteq> 0" "ss_applied s1 = ss_applied s" by auto
  then have "ss_applied s2 = ss_applied s + 1" using Ack_applied [OF delivered_policy.hyps(4)] by simp
  moreover have "unat (ss_applied s + 1) = unat (ss_applied s) + 1" using r unat_next by metis
  ultimately show ?case using delivered_policy.IH r by (simp add: word_le_nat_alt)
next
  case (delivered_receive ns s m s1)
  then show ?case using Receive_ok by simp
next
  case (delivered_send ns s ch x s1)
  then show ?case using SendPolicy_applied by simp
qed simp_all

section \<open>Properties\<close>

text \<open>A codec of two messages, for the witnesses.\<close>

definition sample_codec :: json_codec where
  "sample_codec = \<lparr>marshal = (\<lambda>m. if m = policy_message 1 sample_change then Some [1]
       else if m = ack_message 1 then Some [2] else None),
     decode = (\<lambda>data. if data = [1] then OneJSON (policy_message 1 sample_change)
       else if data = [2] then OneJSON (ack_message 1) else BadJSON)\<rparr>"

definition sample_session :: "byte list \<Rightarrow> session" where
  "sample_session bs = \<lparr>ss_conn = \<lparr>cn_in = bs, cn_out = [], cn_room = None\<rparr>,
     ss_config = \<lparr>MaxMessageBytes = 1024, MaxInFlight = 1\<rparr>, ss_next = 1, ss_applied = 0, ss_peer = 0,
     ss_pending = []\<rparr>"

lemma messages_differ [simp]: "ack_message n \<noteq> policy_message k ch" "policy_message k ch \<noteq> ack_message n"
  by (simp_all add: ack_message_def policy_message_def TypeACK_def TypePolicy_def)

lemma sample_codec_ok: "codec_ok sample_codec"
  by (simp add: codec_ok_def sample_codec_def)

text \<open>C22: A frame survives the wire: what one session writes without error, another session whose limit
  is no smaller reads as the same message, and consumes exactly the bytes written, whatever follows
  them.\<close>

theorem frame_roundtrip:
  assumes "codec_ok C" "session_write C m s = (None, s')" "MaxMessageBytes (ss_config s) < 2 ^ 32"
    and "MaxMessageBytes (ss_config s) \<le> MaxMessageBytes (ss_config r)"
    and "cn_in (ss_conn r) = drop (length (cn_out (ss_conn s))) (cn_out (ss_conn s')) @ rest"
  shows "session_read C r = (Inr m, r\<lparr>ss_conn := (ss_conn r)\<lparr>cn_in := rest\<rparr>\<rparr>)"
proof -
  obtain data where d: "marshal C m = Some data" "int (length data) \<le> MaxMessageBytes (ss_config s)"
      "cn_out (ss_conn s') = cn_out (ss_conn s) @ frame data"
    using write_frame [OF assms(2)] by blast
  moreover have "int (length data) < int (2 ^ 32)" using d(2) assms(3) by simp
  then have "length data < 2 ^ 32" by (simp only: of_nat_less_iff)
  moreover have "decode C data = OneJSON m" "data \<noteq> []" using assms(1) d(1) by (auto simp: codec_ok_def)
  ultimately show ?thesis using assms(4,5) by (intro read_frame) auto
qed

theorem frame_roundtrip_witness:
  "session_read sample_codec (sample_session [0, 0, 0, 1, 1, 7]) =
     (Inr (policy_message 1 sample_change), sample_session [7])"
proof -
  have w: "session_write sample_codec (policy_message 1 sample_change) (sample_session []) =
      (None, (sample_session [])\<lparr>ss_conn := \<lparr>cn_in = [], cn_out = [0, 0, 0, 1, 1], cn_room = None\<rparr>\<rparr>)"
    by (simp add: session_write_def sample_codec_def sample_session_def writeFull_def be32_def)
  have "session_read sample_codec (sample_session [0, 0, 0, 1, 1, 7]) =
      (Inr (policy_message 1 sample_change), (sample_session [0, 0, 0, 1, 1, 7])
        \<lparr>ss_conn := (ss_conn (sample_session [0, 0, 0, 1, 1, 7]))\<lparr>cn_in := [7]\<rparr>\<rparr>)"
    by (rule frame_roundtrip [OF sample_codec_ok w]) (simp_all add: sample_session_def)
  then show ?thesis by (simp add: sample_session_def)
qed

text \<open>C21: A session delivers the peer's policies in order, each once: over any run of receives, sends,
  acknowledgements (written or not) and reconnections, the sequence numbers acknowledged are
  exactly the successive numbers after the starting cursor, with no gap and no repetition.\<close>

theorem delivered_in_order:
  assumes "delivered C s0 ns s"
  shows "map unat ns = [unat (ss_applied s0) + 1 ..< unat (ss_applied s0) + 1 + length ns]"
proof -
  have e: "map unat ns = [unat (ss_applied s0) + 1 ..< unat (ss_applied s) + 1]"
    using delivered_next [OF assms] by blast
  have "unat (ss_applied s0) \<le> unat (ss_applied s)"
    using delivered_next [OF assms] by (simp add: word_le_nat_alt)
  then have "unat (ss_applied s) + 1 = unat (ss_applied s0) + 1 + length ns"
    using arg_cong [OF e, of length] by simp
  with e show ?thesis by (simp only:)
qed

lemma sample_valid: "validatePolicy sample_change = None"
proof -
  have "parse_canonical (pc_Prefix sample_change) \<noteq> None"
    using parse_canonical_print [OF doc_net_canonical] by (simp add: sample_change_text sample_change_def)
  then show ?thesis by (auto simp: validatePolicy_def sample_change_def)
qed

lemma sample_receive:
  "Receive sample_codec (sample_session [0, 0, 0, 1, 1]) = (Inr (policy_message 1 sample_change), sample_session [])"
proof -
  have "session_read sample_codec (sample_session [0, 0, 0, 1, 1]) =
      (Inr (policy_message 1 sample_change), sample_session [])"
    by (simp add: session_read_def sample_session_def be32_val_def sample_codec_def)
  then show ?thesis
    by (simp add: sample_valid Receive.simps [of sample_codec] policy_message_def TypePolicy_def TypeACK_def sample_session_def)
qed

theorem delivered_in_order_witness:
  "\<exists>s. delivered sample_codec (sample_session [0, 0, 0, 1, 1]) [1] s \<and> map unat [1 :: 64 word] = [0 + 1 ..< 0 + 1 + 1]"
proof -
  obtain x s where a: "Ack sample_codec 1 (sample_session []) = (x, s)" by fastforce
  have "delivered sample_codec (sample_session [0, 0, 0, 1, 1]) ([] @ [ms_Sequence (policy_message 1 sample_change)]) s"
    by (rule delivered_policy [OF delivered_none sample_receive, where x = x])
      (simp_all add: policy_message_def a)
  then have d: "delivered sample_codec (sample_session [0, 0, 0, 1, 1]) [1] s" by (simp add: policy_message_def)
  show ?thesis using d delivered_in_order [OF d] by (intro exI [of _ s]) (simp add: sample_session_def)
qed

text \<open>C23: Backpressure holds: in every session reached from a new one by sends, receives and
  acknowledgements, failed writes included, no more than \<open>MaxInFlight\<close> sequences await an ACK.\<close>

theorem in_flight_bounded:
  assumes "NewSession c cfg r = Inr s0" "session_reachable C s0 s"
  shows "int (length (ss_pending s)) \<le> MaxInFlight cfg \<and> distinct (map fst (ss_pending s))"
proof -
  have "in_flight_inv s0" "ss_config s0 = cfg"
    using assms(1) by (auto simp: NewSession_def Let_def in_flight_inv_def split: option.splits if_splits)
  then show ?thesis using in_flight_reachable [OF assms(2)] by (auto simp: in_flight_inv_def)
qed

theorem in_flight_bounded_witness:
  "\<exists>s. session_reachable sample_codec (sample_session []) s \<and> ss_pending s = [(1, ())] \<and>
     int (length (ss_pending s)) \<le> 1"
proof -
  have n: "NewSession (Some \<lparr>cn_in = [], cn_out = [], cn_room = None\<rparr>)
      \<lparr>MaxMessageBytes = 1024, MaxInFlight = 1\<rparr> \<lparr>rs_AppliedCursor = 0, rs_PeerCursor = 0, rs_NextSequence = 0\<rparr> =
      Inr (sample_session [])"
    by (simp add: NewSession_def sample_session_def)
  obtain x s where send: "SendPolicy sample_codec sample_change (sample_session []) = (x, s)" by fastforce
  then have "ss_pending s = [(1, ())]"
    by (auto simp: SendPolicy_def sample_valid Let_def session_write_def sample_codec_def sample_session_def
        writeFull_def be32_def)
  moreover have r: "session_reachable sample_codec (sample_session []) s"
    by (rule session_more [OF session_init step_Send [OF send]])
  ultimately show ?thesis using in_flight_bounded [OF n r] by auto
qed

end
