(* ===== verification/Policy_Queue.thy ===== *)
theory Policy_Queue
  imports Api_Types
begin

text \<open>
  \<open>internal/runtime/queue.go\<close>: the queue between the mutations of the dashboard and the sync
  session. The mutex makes each method atomic. \<open>next\<close> waits on a one-place channel; the model
  returns \<open>Waiting\<close> where the code blocks and \<open>Cancelled\<close> where the context has ended. The locale
  \<open>keyed_fifo\<close> is what the sync loop relies on: the head a peek returned stays the head whatever is
  published meanwhile, so that its commit removes exactly it.
\<close>

record policy_queue =
  pq_pending :: "policy_change list"
  pq_notify :: bool
  pq_nextID :: "64 word"

definition newPolicyQueue :: policy_queue where
  "newPolicyQueue = \<lparr>pq_pending = [], pq_notify = False, pq_nextID = 0\<rparr>"

definition queue_key :: "nat \<Rightarrow> string" where
  "queue_key n = ''dashboard-'' @ dec n"

definition queue_change :: "64 word \<Rightarrow> policy_mutation \<Rightarrow> policy_change" where
  "queue_change n m =
     \<lparr>pc_ID = queue_key (unat n), pc_IdempotencyKey = queue_key (unat n),
      pc_Operation = pm_Action m, pc_List = pm_List m, pc_Prefix = pm_Prefix m,
      pc_ExpiresAt = pm_ExpiresAt m\<rparr>"

definition publish :: "policy_mutation \<Rightarrow> policy_queue \<Rightarrow> policy_queue" where
  "publish m q =
     (let q = q\<lparr>pq_nextID := pq_nextID q + 1\<rparr>;
          q = q\<lparr>pq_pending := pq_pending q @ [queue_change (pq_nextID q) m]\<rparr>
      in q\<lparr>pq_notify := True\<rparr>)"

datatype next_result = Next policy_change | Waiting | Cancelled

text \<open>\<open>ended\<close>: the context has ended; \<open>lucky\<close>: with both channels ready, \<open>select\<close> picks the context.\<close>

definition queue_next :: "bool \<Rightarrow> bool \<Rightarrow> policy_queue \<Rightarrow> next_result \<times> policy_queue" where
  "queue_next ended lucky q =
     (case pq_pending q of
        change # _ \<Rightarrow> (Next change, q)
      | [] \<Rightarrow>
          if ended \<and> (lucky \<or> \<not> pq_notify q) then (Cancelled, q)
          else let q = q\<lparr>pq_notify := False\<rparr> in (if ended then Cancelled else Waiting, q))"

definition queue_commit :: "policy_change \<Rightarrow> policy_queue \<Rightarrow> policy_queue" where
  "queue_commit change q =
     (case pq_pending q of
        head # rest \<Rightarrow>
          if pc_IdempotencyKey head = pc_IdempotencyKey change then q\<lparr>pq_pending := rest\<rparr> else q
      | [] \<Rightarrow> q)"

section \<open>The queue as a FIFO with keys\<close>

locale keyed_fifo =
  fixes view :: "'q \<Rightarrow> 'a list"
    and put :: "'m \<Rightarrow> 'q \<Rightarrow> 'q"
    and item :: "'m \<Rightarrow> 'q \<Rightarrow> 'a"
    and remove :: "'a \<Rightarrow> 'q \<Rightarrow> 'q"
    and key :: "'a \<Rightarrow> 'k"
  assumes put_view: "view (put m q) = view q @ [item m q]"
    and remove_view: "view (remove x q) =
      (case view q of [] \<Rightarrow> [] | y # ys \<Rightarrow> if key y = key x then ys else y # ys)"
begin

fun items :: "'m list \<Rightarrow> 'q \<Rightarrow> 'a list" where
  "items [] q = []"
| "items (m # ms) q = item m q # items ms (put m q)"

lemma fold_put_view: "view (fold put ms q) = view q @ items ms q"
  by (induction ms arbitrary: q) (simp_all add: put_view)

lemma length_items [simp]: "length (items ms q) = length ms"
  by (induction ms arbitrary: q) simp_all

lemma remove_peeked:
  assumes "view q = x # xs"
  shows "view (remove x (fold put ms q)) = xs @ items ms q"
  using assms by (simp add: remove_view fold_put_view)

lemma remove_stale:
  assumes "\<And>y ys. view q = y # ys \<Longrightarrow> key y \<noteq> key x"
  shows "view (remove x q) = view q"
  using assms by (simp add: remove_view split: list.split)

end

interpretation dashboard_queue: keyed_fifo pq_pending publish
    "\<lambda>m q. queue_change (pq_nextID q + 1) m" queue_commit pc_IdempotencyKey
  by unfold_locales (auto simp: publish_def queue_commit_def Let_def split: list.split)

lemma queue_items_cong:
  "pq_nextID q = pq_nextID q' \<Longrightarrow> dashboard_queue.items ms q = dashboard_queue.items ms q'"
  by (induction ms arbitrary: q q') (simp_all add: publish_def Let_def)

lemma queue_next_head:
  "fst (queue_next ended lucky q) = Next change \<longleftrightarrow> (\<exists>rest. pq_pending q = change # rest)"
  "pq_pending (snd (queue_next ended lucky q)) = pq_pending q"
  "pq_nextID (snd (queue_next ended lucky q)) = pq_nextID q"
  by (auto simp: queue_next_def Let_def split: list.split)

lemma queue_next_published:
  assumes "queue_next ended lucky q = (r, q')"
  shows "pq_pending (fold publish ms q') = pq_pending q @ dashboard_queue.items ms q"
  using queue_next_head(2,3) [of ended lucky q] queue_items_cong [of q' q ms] assms
  by (simp add: dashboard_queue.fold_put_view)

lemma queue_next_Next: "queue_next ended lucky q = (Next change, q') \<Longrightarrow>
   q' = q \<and> (\<exists>rest. pq_pending q = change # rest)"
  by (auto simp: queue_next_def Let_def split: list.splits if_splits)

section \<open>Keys\<close>

text \<open>Until the 64-bit counter wraps, the keys in the queue are distinct and at most the counter.\<close>

definition queue_inv :: "policy_queue \<Rightarrow> bool" where
  "queue_inv q = (\<exists>ns. map pc_IdempotencyKey (pq_pending q) = map queue_key ns \<and>
     sorted_wrt (<) ns \<and> (\<forall>n \<in> set ns. n \<le> unat (pq_nextID q)))"

lemma dec_inject [simp]: "dec a = dec b \<longleftrightarrow> a = b"
  by (metis dec_val_dec)

lemma queue_key_inject [simp]: "queue_key a = queue_key b \<longleftrightarrow> a = b"
  by (simp add: queue_key_def)

lemma queue_inv_distinct: "queue_inv q \<Longrightarrow> distinct (map pc_IdempotencyKey (pq_pending q))"
  unfolding queue_inv_def by (metis distinct_map inj_onI queue_key_inject strict_sorted_iff)

lemma queue_inv_new: "queue_inv newPolicyQueue"
  by (simp add: queue_inv_def newPolicyQueue_def)

lemma queue_inv_publish:
  assumes "queue_inv q" "pq_nextID q + 1 \<noteq> 0"
  shows "queue_inv (publish m q)"
proof -
  obtain ns where ns: "map pc_IdempotencyKey (pq_pending q) = map queue_key ns"
    "sorted_wrt (<) ns" "\<forall>n \<in> set ns. n \<le> unat (pq_nextID q)"
    using assms(1) by (auto simp: queue_inv_def)
  let ?k = "unat (pq_nextID q + 1)"
  have k: "?k = Suc (unat (pq_nextID q))" using assms(2) by (rule unat_Suc_no_wrap)
  have "map pc_IdempotencyKey (pq_pending (publish m q)) = map queue_key (ns @ [?k])"
    using ns(1) by (simp add: publish_def queue_change_def Let_def)
  moreover have "sorted_wrt (<) (ns @ [?k])" using ns k by (auto simp: sorted_wrt_append)
  moreover have "\<forall>n \<in> set (ns @ [?k]). n \<le> unat (pq_nextID (publish m q))"
    using ns k by (auto simp: publish_def Let_def)
  ultimately show ?thesis unfolding queue_inv_def by blast
qed

lemma queue_inv_commit:
  assumes "queue_inv q"
  shows "queue_inv (queue_commit change q)"
proof (cases "pq_pending (queue_commit change q) = pq_pending q")
  case True
  moreover have "pq_nextID (queue_commit change q) = pq_nextID q"
    by (simp add: queue_commit_def split: list.split)
  ultimately show ?thesis using assms by (simp add: queue_inv_def)
next
  case False
  then obtain head rest where q: "pq_pending q = head # rest"
      "queue_commit change q = q\<lparr>pq_pending := rest\<rparr>"
    by (auto simp: queue_commit_def split: list.splits if_splits)
  obtain ns where ns: "map pc_IdempotencyKey (pq_pending q) = map queue_key ns"
      "sorted_wrt (<) ns" "\<forall>n \<in> set ns. n \<le> unat (pq_nextID q)"
    using assms by (auto simp: queue_inv_def)
  then obtain n ns' where "ns = n # ns'" using q(1) by (cases ns) auto
  with ns q show ?thesis unfolding queue_inv_def by (intro exI [of _ ns']) simp
qed

end
