(* ===== verification/Cursor_File.thy ===== *)
theory Cursor_File
  imports Go_Text
begin

text \<open>
  \<open>internal/runtime/cursor.go\<close>: the sequence cursor of server and agent on disk. A cursor disk maps
  paths to file contents. An environment says whether the read fails, at which step of the write
  a failure occurs and what name the temporary file gets; \<open>crash_cursor\<close> is the disk a process
  leaves that dies after the first \<open>k\<close> steps.
\<close>

type_synonym cursor_disk = "string \<rightharpoonup> string"

datatype cursor_step =
    CreateDirectory | CreateTemporary | SecureTemporary | WriteCursor | SyncCursor | CloseCursor
  | ReplaceCursor | OpenDirectory | SyncDirectory

datatype cursor_error =
    ReadCursor | ParseCursor | CursorRollback "64 word" "64 word" | CursorStep cursor_step

record cursor_io =
  cio_unreadable :: bool
  cio_fault :: "cursor_step option"
  cio_temporary :: string

definition loadCursor :: "cursor_io \<Rightarrow> string \<Rightarrow> cursor_disk \<Rightarrow> cursor_error + 64 word" where
  "loadCursor io path d =
     (if path = [] then Inr 0
      else if cio_unreadable io then Inl ReadCursor
      else case d path of
        None \<Rightarrow> Inr 0
      | Some data \<Rightarrow>
          (case ParseUint10 64 (TrimSpace data) of
             None \<Rightarrow> Inl ParseCursor
           | Some n \<Rightarrow> Inr (of_nat n)))"

definition cursor_text :: "64 word \<Rightarrow> string" where
  "cursor_text cursor = dec (unat cursor) @ bytes [10]"

fun cursor_effect :: "string \<Rightarrow> string \<Rightarrow> 64 word \<Rightarrow> cursor_step \<Rightarrow> cursor_disk \<Rightarrow> cursor_disk" where
  "cursor_effect tmp path cursor CreateTemporary d = d(tmp \<mapsto> [])"
| "cursor_effect tmp path cursor WriteCursor d = d(tmp \<mapsto> cursor_text cursor)"
| "cursor_effect tmp path cursor ReplaceCursor d = d(path := d tmp, tmp := None)"
| "cursor_effect tmp path cursor _ d = d"

definition cursor_steps :: "cursor_step list" where
  "cursor_steps = [CreateDirectory, CreateTemporary, SecureTemporary, WriteCursor, SyncCursor,
     CloseCursor, ReplaceCursor, OpenDirectory, SyncDirectory]"

fun run_cursor_steps :: "cursor_step option \<Rightarrow> string \<Rightarrow> string \<Rightarrow> 64 word \<Rightarrow> cursor_step list
    \<Rightarrow> cursor_disk \<Rightarrow> cursor_error option \<times> cursor_disk" where
  "run_cursor_steps flt tmp path cursor [] d = (None, d)"
| "run_cursor_steps flt tmp path cursor (s # ss) d =
     (if flt = Some s then (Some (CursorStep s), d)
      else run_cursor_steps flt tmp path cursor ss (cursor_effect tmp path cursor s d))"

text \<open>The temporary file is removed on return, once it has been created.\<close>

definition saveCursor :: "cursor_io \<Rightarrow> string \<Rightarrow> 64 word \<Rightarrow> cursor_disk \<Rightarrow> cursor_error option \<times> cursor_disk" where
  "saveCursor io path cursor d =
     (if path = [] then (None, d)
      else case loadCursor io path d of
        Inl e \<Rightarrow> (Some e, d)
      | Inr current \<Rightarrow>
          if cursor < current then (Some (CursorRollback current cursor), d)
          else
            let (e, d') = run_cursor_steps (cio_fault io) (cio_temporary io) path cursor cursor_steps d
            in (e, if cio_fault io = Some CreateDirectory \<or> cio_fault io = Some CreateTemporary then d'
                   else d'(cio_temporary io := None)))"

definition crash_cursor :: "nat \<Rightarrow> cursor_io \<Rightarrow> string \<Rightarrow> 64 word \<Rightarrow> cursor_disk \<Rightarrow> cursor_disk" where
  "crash_cursor k io path cursor d =
     (case loadCursor io path d of
        Inl e \<Rightarrow> d
      | Inr current \<Rightarrow>
          if path = [] \<or> cursor < current then d
          else snd (run_cursor_steps None (cio_temporary io) path cursor (take k cursor_steps) d))"

section \<open>The text of a cursor\<close>

lemma strip_digit:
  assumes "is_digit c" "\<And>e. e \<in> set encs \<Longrightarrow> e \<noteq> [] \<and> \<not> is_digit (hd e)"
  shows "strip encs n (c # t) = c # t"
proof -
  have "\<not> HasPrefix (c # t) e" if "e \<in> set encs" for e
    using assms(1) assms(2) [OF that] by (cases e) (auto simp: HasPrefix_def)
  then have "find (\<lambda>e. HasPrefix (c # t) e) encs = None" by (auto simp: find_None_iff)
  then show ?thesis by (cases n) simp_all
qed

lemma spaces_no_digit:
  "e \<in> set space_encodings \<Longrightarrow> e \<noteq> [] \<and> \<not> is_digit (hd e)"
  "e \<in> set (map rev space_encodings) \<Longrightarrow> e \<noteq> [] \<and> \<not> is_digit (hd e)"
  by (auto simp: space_encodings_def bytes_def is_digit_def)

lemma strip_newline:
  assumes "is_digit c"
  shows "strip (map rev space_encodings) (Suc n) (char_of (10 :: nat) # c # t) = c # t"
proof -
  have "find (\<lambda>e. HasPrefix (char_of (10 :: nat) # c # t) e) (map rev space_encodings) = Some [char_of (10 :: nat)]"
    by (simp add: space_encodings_def bytes_def HasPrefix_def)
  moreover have "strip (map rev space_encodings) n (c # t) = c # t"
    by (rule strip_digit [OF assms spaces_no_digit(2)])
  ultimately show ?thesis by simp
qed

lemma TrimSpace_cursor_text [simp]: "TrimSpace (cursor_text w) = dec (unat w)"
proof -
  obtain c t where f: "dec (unat w) = c # t" by (cases "dec (unat w)") auto
  obtain e u where r: "rev (dec (unat w)) = e # u" by (cases "rev (dec (unat w))") auto
  have c: "is_digit c" using f dec_no_sign by blast
  have "e \<in> set (dec (unat w))" using r by (metis list.set_intros(1) set_rev)
  then have e: "is_digit e" by (rule dec_digits)
  have l: "strip space_encodings n (cursor_text w) = cursor_text w" for n
    using strip_digit [OF c spaces_no_digit(1)] f by (simp add: cursor_text_def)
  have "rev (cursor_text w) = char_of (10 :: nat) # e # u" using r by (simp add: cursor_text_def bytes_def)
  moreover have "length (cursor_text w) = Suc (length (dec (unat w)))" by (simp add: cursor_text_def bytes_def)
  ultimately show ?thesis
    using strip_newline [OF e] r unfolding TrimSpace_def l Let_def by (metis rev_rev_ident)
qed

lemma ParseUint10_unat: "ParseUint10 64 (dec (unat w)) = Some (unat w)" for w :: "64 word"
  using unsigned_less [of w] by (intro ParseUint10_dec) simp

lemma loadCursor_saved [simp]:
  "d path = Some (cursor_text w) \<Longrightarrow> path \<noteq> [] \<Longrightarrow> \<not> cio_unreadable io \<Longrightarrow> loadCursor io path d = Inr w"
  by (simp add: loadCursor_def ParseUint10_unat)

lemma loadCursor_cong: "d' path = d path \<Longrightarrow> loadCursor io path d' = loadCursor io path d"
  by (simp add: loadCursor_def)

section \<open>Saving\<close>

lemma run_cursor_file:
  assumes "tmp \<noteq> path"
  shows "fst (run_cursor_steps flt tmp path w cursor_steps d) = map_option CursorStep flt \<and>
    snd (run_cursor_steps flt tmp path w cursor_steps d) path =
      (if flt \<in> {None, Some OpenDirectory, Some SyncDirectory} then Some (cursor_text w) else d path)"
proof (cases flt)
  case None
  with assms show ?thesis by (simp add: cursor_steps_def)
next
  case (Some f)
  with assms show ?thesis by (cases f) (simp_all add: cursor_steps_def)
qed

lemma saveCursor_file:
  assumes "path \<noteq> []" "loadCursor io path d = Inr old" "cio_temporary io \<noteq> path"
  shows "saveCursor io path w d = (e, d') \<Longrightarrow>
     d' path = (if old \<le> w \<and> cio_fault io \<in> {None, Some OpenDirectory, Some SyncDirectory}
                then Some (cursor_text w) else d path) \<and>
     (e = None \<longleftrightarrow> old \<le> w \<and> cio_fault io = None)"
  using assms run_cursor_file [OF assms(3), of "cio_fault io" w d]
  by (cases "run_cursor_steps (cio_fault io) (cio_temporary io) path w cursor_steps d")
    (auto simp: saveCursor_def split: if_splits)

lemma crash_cursor_file:
  assumes "path \<noteq> []" "loadCursor io path d = Inr old" "cio_temporary io \<noteq> path"
  shows "crash_cursor k io path w d path = (if old \<le> w \<and> 7 \<le> k then Some (cursor_text w) else d path)"
proof (cases "k < 9")
  case True
  then consider "k = 0" | "k = 1" | "k = 2" | "k = 3" | "k = 4" | "k = 5" | "k = 6" | "k = 7" | "k = 8"
    by linarith
  then show ?thesis
    using assms by cases (simp_all add: crash_cursor_def cursor_steps_def not_less [symmetric])
next
  case False
  then have "take k cursor_steps = cursor_steps" by (simp add: cursor_steps_def)
  then show ?thesis
    using False assms by (simp add: crash_cursor_def cursor_steps_def not_less [symmetric])
qed

section \<open>Properties\<close>

text \<open>C25: A saved cursor never rolls back. Whatever step of \<open>saveCursor\<close> fails and wherever the process
  dies, the file loads to the previous cursor or the saved one, never to a smaller one; without an
  error it loads to the saved one.\<close>

theorem cursor_never_rolls_back:
  assumes "path \<noteq> []" "loadCursor io path d = Inr old" "cio_temporary io \<noteq> path"
    and "saveCursor io path w d = (e, d')"
  shows "(\<exists>new. loadCursor io path d' = Inr new \<and> old \<le> new \<and> (new = old \<or> new = w) \<and> (e = None \<longrightarrow> new = w)) \<and>
     (\<exists>new. loadCursor io path (crash_cursor k io path w d) = Inr new \<and> old \<le> new \<and> (new = old \<or> new = w))"
proof -
  have r: "\<not> cio_unreadable io" using assms(1,2) by (auto simp: loadCursor_def)
  have l: "loadCursor io path d1 = (if b then Inr w else Inr old)"
    if "d1 path = (if b then Some (cursor_text w) else d path)" for d1 b
    using that loadCursor_saved [of d1 path w io] loadCursor_cong [of d1 path d io] assms(1,2) r by simp
  note f = saveCursor_file [OF assms]
  note s = l [of d' "old \<le> w \<and> cio_fault io \<in> {None, Some OpenDirectory, Some SyncDirectory}",
      OF conjunct1 [OF f]]
    and c = l [of "crash_cursor k io path w d" "old \<le> w \<and> 7 \<le> k", OF crash_cursor_file [OF assms(1-3), of k w]]
  show ?thesis
    using f by (auto simp: s c)
qed

definition sample_cursor_io :: cursor_io where
  "sample_cursor_io = \<lparr>cio_unreadable = False, cio_fault = None, cio_temporary = ''.c''\<rparr>"

theorem cursor_never_rolls_back_witness:
  "\<exists>new. loadCursor sample_cursor_io ''c'' (snd (saveCursor sample_cursor_io ''c'' 7 Map.empty)) = Inr new \<and> 0 \<le> new"
proof -
  have l: "loadCursor sample_cursor_io ''c'' Map.empty = Inr 0"
    by (simp add: loadCursor_def sample_cursor_io_def)
  have t: "cio_temporary sample_cursor_io \<noteq> ''c''" by (simp add: sample_cursor_io_def)
  obtain e d' where s: "saveCursor sample_cursor_io ''c'' 7 Map.empty = (e, d')" by fastforce
  show ?thesis using cursor_never_rolls_back [OF _ l t s, of 0] s by auto
qed

end
