(* ===== verification/Policy_Sync.thy ===== *)
theory Policy_Sync
  imports Agent_Rpc Policy_Queue Cursor_File
begin

text \<open>
  The two ends of the policy synchronisation: \<open>handleSync\<close> of \<open>internal/runtime/server.go\<close> sends
  the queued changes one at a time and commits each when its ACK is saved; \<open>consume\<close> and \<open>Run\<close> of
  \<open>internal/runtime/agent.go\<close> apply the changes received, save the sequence and acknowledge it. One
  iteration of each loop is a function of its own (\<open>sync_round\<close>, \<open>consume_round\<close>); the loops run
  them on the bytes the connection delivers before it ends, after which a read fails. While the queue
  is empty \<open>handleSync\<close> waits in \<open>queue.next\<close>, where only a publication or the end of its context
  wakes it, never the end of the connection; a round can say that it waits. The last sections show
  what is on the wire between the two ends, and that both loops come to rest.
\<close>

datatype sync_error =
    SyncQueue next_result | SyncSession rpc_error | SendSynced rpc_error | ReceiveACK rpc_error
  | InvalidACK "64 word" | SaveCursorFailed cursor_error | ApplyPolicy adapter_error
  | DryRunPolicy | AcknowledgePolicy rpc_error | CloseFailed

section \<open>The server's loop\<close>

record sync_server =
  sv_queue :: policy_queue
  sv_cursor :: "64 word"
  sv_session :: session
  sv_disk :: cursor_disk

text \<open>An iteration commits its change, waits in \<open>queue.next\<close>, or ends the loop.\<close>

datatype round_result = Committed | Waits | Ends sync_error

definition goes_on :: "round_result \<Rightarrow> bool" where
  "goes_on r = (case r of Ends _ \<Rightarrow> False | _ \<Rightarrow> True)"

lemma goes_on_simps [simp]: "goes_on Committed" "goes_on Waits" "\<not> goes_on (Ends e)"
  by (simp_all add: goes_on_def)

text \<open>One iteration; \<open>ms\<close> are the mutations published while it waits, for the ACK or for a change.\<close>

definition sync_round :: "json_codec \<Rightarrow> string \<Rightarrow> cursor_io \<Rightarrow> policy_mutation list \<Rightarrow> sync_server
    \<Rightarrow> round_result \<times> sync_server" where
  "sync_round C cursorFile io ms sv =
     (case queue_next False False (sv_queue sv) of
        (Next change, q) \<Rightarrow>
          let q = fold publish ms q in
          (case SendPolicy C change (sv_session sv) of
             (Inl e, s) \<Rightarrow> (Ends (SendSynced e), sv\<lparr>sv_queue := q, sv_session := s\<rparr>)
           | (Inr n, s) \<Rightarrow>
               (case Receive C s of
                  (Inl e, s) \<Rightarrow> (Ends (ReceiveACK e), sv\<lparr>sv_queue := q, sv_session := s\<rparr>)
                | (Inr m, s) \<Rightarrow>
                    let sv = sv\<lparr>sv_queue := q, sv_session := s\<rparr> in
                    if ms_Type m \<noteq> TypeACK \<or> ms_Cursor m < n then (Ends (InvalidACK n), sv)
                    else
                      (case saveCursor io cursorFile (ms_Cursor m) (sv_disk sv) of
                         (Some e, d) \<Rightarrow> (Ends (SaveCursorFailed e), sv\<lparr>sv_disk := d\<rparr>)
                       | (None, d) \<Rightarrow>
                           (Committed, sv\<lparr>sv_disk := d, sv_cursor := ms_Cursor m,
                              sv_queue := queue_commit change q\<rparr>))))
      | (Waiting, q) \<Rightarrow> (Waits, sv\<lparr>sv_queue := fold publish ms q\<rparr>)
      | (r, q) \<Rightarrow> (Ends (SyncQueue r), sv\<lparr>sv_queue := fold publish ms q\<rparr>))"

lemma Receive_shorter:
  "Receive C s = (Inr m, s') \<Longrightarrow> length (cn_in (ss_conn s')) + 5 \<le> length (cn_in (ss_conn s))"
proof (induction C s rule: Receive.induct)
  case (1 C s)
  obtain x s1 where r: "session_read C s = (x, s1)" by (cases "session_read C s")
  show ?case
  proof (cases x)
    case (Inl e)
    with "1.prems" r show ?thesis by (subst (asm) Receive.simps) simp
  next
    case (Inr m1)
    note short = session_read_shorter [of C s m1 s1] r Inr
    note step = "1.prems" [unfolded Receive.simps [of C s] r prod.case Inr sum.case]
    show ?thesis
    proof (cases "\<exists>s2. session_write C (ack_message (ss_applied s1)) s1 = (None, s2) \<and> Receive C s2 = (Inr m, s')")
      case True
      then obtain s2 where w: "session_write C (ack_message (ss_applied s1)) s1 = (None, s2)"
          "Receive C s2 = (Inr m, s')" by blast
      show ?thesis
      proof (cases "ms_Type m1 = TypePolicy \<and> ms_Type m1 \<noteq> TypeACK \<and> ms_Sequence m1 \<noteq> 0 \<and>
          ms_Sequence m1 \<le> ss_applied s1 \<and> (\<exists>ch. ms_Policy m1 = Some ch \<and> validatePolicy ch = None)")
        case True
        then have "length (cn_in (ss_conn s')) + 5 \<le> length (cn_in (ss_conn s2))"
          using "1.IH" [OF r [symmetric] Inr, of _ None s2] w by auto
        then show ?thesis using session_write_in [OF w(1)] short by simp
      next
        case False
        with step short show ?thesis by (auto split: if_splits option.splits)
      qed
    next
      case False
      with step short show ?thesis by (auto split: if_splits option.splits prod.splits)
    qed
  qed
qed

lemma SendPolicy_in: "SendPolicy C ch s = (x, s') \<Longrightarrow> cn_in (ss_conn s') = cn_in (ss_conn s)"
  by (auto simp: SendPolicy_def Let_def split: option.splits if_splits prod.splits dest: session_write_in)

lemma sync_round_shorter:
  assumes "sync_round C f io ms sv = (Committed, sv')"
  shows "length (cn_in (ss_conn (sv_session sv'))) + 5 \<le> length (cn_in (ss_conn (sv_session sv)))"
  using assms
  by (auto simp: sync_round_def Let_def split: prod.splits next_result.splits sum.splits if_splits option.splits
      dest!: Receive_shorter SendPolicy_in)

text \<open>A round waits exactly when the queue is empty, whatever the connection holds.\<close>

lemma sync_round_waits:
  "fst (sync_round C f io ms sv) = Waits \<longleftrightarrow> pq_pending (sv_queue sv) = []"
  by (auto simp: sync_round_def queue_next_def Let_def split: list.splits prod.splits sum.splits if_splits option.splits)

lemma sync_round_waiting:
  assumes "sync_round C f io ms sv = (Waits, sv')"
  shows "pq_pending (sv_queue sv) = [] \<and> sv_session sv' = sv_session sv \<and> sv_cursor sv' = sv_cursor sv \<and>
    sv_queue sv' = fold publish ms ((sv_queue sv)\<lparr>pq_notify := False\<rparr>)"
  using assms sync_round_waits [of C f io ms sv] by (auto simp: sync_round_def queue_next_def)

text \<open>The loop from round \<open>i\<close> on, with the environment of each round. A round that waits and sees a
  publication goes on; with nothing published the loop stays in \<open>queue.next\<close>, until its context
  ends, if it does.\<close>

datatype loop_result = LoopReturns sync_error | LoopWaits

function sync_loop :: "json_codec \<Rightarrow> string \<Rightarrow> (nat \<Rightarrow> cursor_io \<times> policy_mutation list) \<Rightarrow> bool \<Rightarrow> nat
    \<Rightarrow> sync_server \<Rightarrow> loop_result \<times> sync_server" where
  "sync_loop C cursorFile env cancelled i sv =
     (case sync_round C cursorFile (fst (env i)) (snd (env i)) sv of
        (Ends e, sv') \<Rightarrow> (LoopReturns e, sv')
      | (Committed, sv') \<Rightarrow> sync_loop C cursorFile env cancelled (Suc i) sv'
      | (Waits, sv') \<Rightarrow>
          if pq_pending (sv_queue sv') \<noteq> [] then sync_loop C cursorFile env cancelled (Suc i) sv'
          else (if cancelled then LoopReturns (SyncQueue Cancelled) else LoopWaits, sv'))"
  by pat_completeness auto
termination
  by (relation "measure (\<lambda>(C, f, env, cancelled, i, sv).
      2 * length (cn_in (ss_conn (sv_session sv))) + (if pq_pending (sv_queue sv) = [] then 1 else 0))")
    (auto dest!: sync_round_shorter [OF sym] sync_round_waiting [OF sym])

declare sync_loop.simps [simp del]

definition handleSync :: "json_codec \<Rightarrow> string \<Rightarrow> (nat \<Rightarrow> cursor_io \<times> policy_mutation list) \<Rightarrow> bool \<Rightarrow> rpc_config
    \<Rightarrow> conn \<Rightarrow> sync_server \<Rightarrow> loop_result \<times> sync_server" where
  "handleSync C cursorFile env cancelled cfg connection sv =
     (case NewSession (Some connection) cfg
         \<lparr>rs_AppliedCursor = 0, rs_PeerCursor = sv_cursor sv, rs_NextSequence = 0\<rparr> of
        Inl e \<Rightarrow> (LoopReturns (SyncSession e), sv)
      | Inr s \<Rightarrow> sync_loop C cursorFile env cancelled 0 (sv\<lparr>sv_session := s\<rparr>))"

section \<open>The agent's loop\<close>

record agent =
  ag_adapter :: policy_adapter
  ag_policyDisk :: disk
  ag_cursorDisk :: cursor_disk
  ag_cursor :: "64 word"

record agent_env =
  ae_io :: io
  ae_now :: time
  ae_cursorIO :: cursor_io

definition consume_round :: "json_codec \<Rightarrow> string \<Rightarrow> bool \<Rightarrow> agent_env \<Rightarrow> session \<Rightarrow> agent
    \<Rightarrow> sync_error option \<times> session \<times> agent" where
  "consume_round C cursorFile dryRun env s a =
     (case Receive C s of
        (Inl e, s) \<Rightarrow> (Some (ReceiveACK e), s, a)
      | (Inr m, s) \<Rightarrow>
          (case (if ms_Type m \<noteq> TypePolicy then None else ms_Policy m) of
             None \<Rightarrow> (None, s, a)
           | Some change \<Rightarrow>
               let (e, ad, d) = adapter_Apply (ae_io env) (ae_now env) change (ag_adapter a) (ag_policyDisk a);
                   a = a\<lparr>ag_adapter := ad, ag_policyDisk := d\<rparr>
               in (case e of
                     Some e \<Rightarrow> (Some (ApplyPolicy e), s, a)
                   | None \<Rightarrow>
                       if dryRun then (Some DryRunPolicy, s, a)
                       else
                         (case saveCursor (ae_cursorIO env) cursorFile (ms_Sequence m) (ag_cursorDisk a) of
                            (Some e, d) \<Rightarrow> (Some (SaveCursorFailed e), s, a\<lparr>ag_cursorDisk := d\<rparr>)
                          | (None, d) \<Rightarrow>
                              let (e, s) = Ack C (ms_Sequence m) s;
                                  a = a\<lparr>ag_cursorDisk := d, ag_cursor := ss_applied s\<rparr>
                              in (map_option AcknowledgePolicy e, s, a)))))"

lemma Ack_in: "Ack C n s = (x, s') \<Longrightarrow> cn_in (ss_conn s') = cn_in (ss_conn s)"
  by (auto simp: Ack_def split: if_splits dest: session_write_in)

lemma consume_round_shorter:
  assumes "consume_round C f dry env s a = (None, s', a')"
  shows "length (cn_in (ss_conn s')) + 5 \<le> length (cn_in (ss_conn s))"
  using assms
  by (auto simp: consume_round_def Let_def split: prod.splits sum.splits option.splits if_splits
      dest!: Receive_shorter Ack_in)

function consume :: "json_codec \<Rightarrow> string \<Rightarrow> bool \<Rightarrow> (64 word \<Rightarrow> agent_env) \<Rightarrow> session \<Rightarrow> agent
    \<Rightarrow> sync_error \<times> session \<times> agent" where
  "consume C cursorFile dryRun env s a =
     (case consume_round C cursorFile dryRun (env (ss_applied s)) s a of
        (Some e, s', a') \<Rightarrow> (e, s', a')
      | (None, s', a') \<Rightarrow> consume C cursorFile dryRun env s' a')"
  by pat_completeness auto
termination
  by (relation "measure (\<lambda>(C, f, dry, env, s, a). length (cn_in (ss_conn s)))")
    (auto dest!: consume_round_shorter [OF sym])

declare consume.simps [simp del]

text \<open>\<open>Run\<close>: one dial per element of the list, with what it gives, whether closing the connection
  fails and the environment of its session. The delays slept are returned with the agent; the
  random part of each is given by the element. A cursor file that does not load is an error.\<close>

record dial =
  dl_conn :: "conn option"
  dl_closeFails :: bool
  dl_random :: int
  dl_env :: "64 word \<Rightarrow> agent_env"

text \<open>\<open>rand.Int64N n\<close> returns a number below \<open>n\<close>; durations divide towards zero.\<close>

definition jitter :: "int \<Rightarrow> int \<Rightarrow> int" where
  "jitter r delay =
     (if delay \<le> 1000000 then delay
      else let half = delay div 2 in half + r mod (delay - half + 1))"

record agent_config =
  ac_cursorFile :: string
  ac_dryRun :: bool
  ac_session :: rpc_config
  ac_reconnectMin :: int
  ac_reconnectMax :: int

fun run_dials :: "json_codec \<Rightarrow> agent_config \<Rightarrow> dial list \<Rightarrow> int \<Rightarrow> agent \<Rightarrow> int list \<times> agent" where
  "run_dials C cfg [] delay a = ([], a)"
| "run_dials C cfg (dl # dls) delay a =
     (case dl_conn dl of
        None \<Rightarrow>
          (let (slept, a') = run_dials C cfg dls (min (wrap64 (delay * 2)) (ac_reconnectMax cfg)) a
           in (jitter (dl_random dl) delay # slept, a'))
      | Some c \<Rightarrow>
          (let delay = ac_reconnectMin cfg;
               (err, a) =
                 (case NewSession (Some c) (ac_session cfg)
                      \<lparr>rs_AppliedCursor = ag_cursor a, rs_PeerCursor = 0, rs_NextSequence = 0\<rparr> of
                    Inl e \<Rightarrow> (Some (SyncSession e), a)
                  | Inr s \<Rightarrow>
                      (case consume C (ac_cursorFile cfg) (ac_dryRun cfg) (dl_env dl) s a of
                         (e, s, a) \<Rightarrow> (Some e, a)));
               err = (if err = None \<and> dl_closeFails dl then Some CloseFailed else err);
               (slept, a') = run_dials C cfg dls (min (wrap64 (delay * 2)) (ac_reconnectMax cfg)) a
           in (if err = None then slept else jitter (dl_random dl) delay # slept, a')))"

definition agent_Run :: "json_codec \<Rightarrow> agent_config \<Rightarrow> cursor_io \<Rightarrow> dial list \<Rightarrow> agent
    \<Rightarrow> cursor_error + int list \<times> agent" where
  "agent_Run C cfg io dls a =
     (case loadCursor io (ac_cursorFile cfg) (ag_cursorDisk a) of
        Inl e \<Rightarrow> Inl e
      | Inr cursor \<Rightarrow> Inr (run_dials C cfg dls (ac_reconnectMin cfg) (a\<lparr>ag_cursor := cursor\<rparr>)))"

section \<open>Reconnecting\<close>

lemma jitter_bounds:
  assumes "0 \<le> delay"
  shows "delay div 2 \<le> jitter r delay \<and> jitter r delay \<le> delay"
proof -
  let ?w = "delay - delay div 2 + 1"
  obtain x where x: "x = r mod ?w" by blast
  have w: "0 < ?w" "delay div 2 \<le> delay" using assms by linarith+
  have "0 \<le> x" "x < ?w"
    unfolding x by (rule pos_mod_sign [OF w(1)], rule pos_mod_bound [OF w(1)])
  then show ?thesis using w unfolding jitter_def Let_def x [symmetric] by auto
qed

text \<open>Every delay lies between half the least and the greatest configured one.\<close>

lemma run_dials_delays:
  assumes "0 \<le> ac_reconnectMin cfg" "ac_reconnectMin cfg \<le> ac_reconnectMax cfg"
    and "ac_reconnectMax cfg < 2 ^ 62"
  shows "ac_reconnectMin cfg \<le> delay \<Longrightarrow> delay \<le> ac_reconnectMax cfg \<Longrightarrow>
    \<forall>d \<in> set (fst (run_dials C cfg dls delay a)). ac_reconnectMin cfg div 2 \<le> d \<and> d \<le> ac_reconnectMax cfg"
proof (induction dls arbitrary: delay a)
  case (Cons dl dls)
  have slept: "ac_reconnectMin cfg div 2 \<le> jitter r d \<and> jitter r d \<le> ac_reconnectMax cfg"
    if "ac_reconnectMin cfg \<le> d" "d \<le> ac_reconnectMax cfg" for r d
    using jitter_bounds [of d r] that assms zdiv_mono1 [of "ac_reconnectMin cfg" d 2] by linarith
  have next_delay: "ac_reconnectMin cfg \<le> min (wrap64 (d * 2)) (ac_reconnectMax cfg)"
    if "ac_reconnectMin cfg \<le> d" "d \<le> ac_reconnectMax cfg" for d
    using that assms wrap64_id [of "d * 2"] by simp
  show ?case
  proof (cases "dl_conn dl")
    case None
    then show ?thesis
      using Cons.IH [OF next_delay [OF Cons.prems], of a] slept [OF Cons.prems]
      by (simp split: prod.splits)
  next
    case (Some c)
    then show ?thesis
      using Cons.IH [OF next_delay [OF order_refl assms(2)]] slept [OF order_refl assms(2)]
      by (simp add: Let_def split: prod.splits)
        (metis (lifting) fst_conv min.cobounded2)
  qed
qed simp


section \<open>What is on the wire\<close>

text \<open>A part of the frame of one message: what a reader may see when the connection breaks.\<close>

definition wire :: "json_codec \<Rightarrow> message \<Rightarrow> byte list \<Rightarrow> bool" where
  "wire C m bs = (\<exists>data k. marshal C m = Some data \<and> length data < 2 ^ 32 \<and> bs = take k (frame data))"

lemma wire_take: "wire C m bs \<Longrightarrow> wire C m (take k bs)"
  by (auto simp: wire_def)

lemma read_empty: "cn_in (ss_conn s) = [] \<Longrightarrow> session_read C s = (Inl ReadHeader, s)"
  by (simp add: session_read_def)

lemma Receive_empty: "cn_in (ss_conn s) = [] \<Longrightarrow> Receive C s = (Inl ReadHeader, s)"
  by (simp add: Receive.simps [of C s] read_empty)

text \<open>A message read from part of one frame is that frame's message, and the frame was whole.\<close>

lemma read_wire:
  assumes "codec_ok C" "wire C m (cn_in (ss_conn s))" "session_read C s = (Inr m', s')"
  shows "m' = m \<and> s' = s\<lparr>ss_conn := (ss_conn s)\<lparr>cn_in := []\<rparr>\<rparr>"
proof -
  obtain data k where d: "marshal C m = Some data" "length data < 2 ^ 32" "cn_in (ss_conn s) = take k (frame data)"
    using assms(2) by (auto simp: wire_def)
  have c: "decode C data = OneJSON m" "data \<noteq> []" using assms(1) d(1) by (auto simp: codec_ok_def)
  have h: "take 4 (frame data) = be32 (of_nat (length data))" "length (frame data) = 4 + length data"
    by (simp_all add: frame_def)
  have k: "length (frame data) \<le> k"
  proof (rule ccontr)
    assume k: "\<not> length (frame data) \<le> k"
    show False
    proof (cases "k < 4")
      case True
      with assms(3) d(3) h show False by (simp add: session_read_def Let_def)
    next
      case False
      then have "take 4 (cn_in (ss_conn s)) = be32 (of_nat (length data))" using d(3) h by (simp add: min_def)
      with assms(3) d(2,3) h k show False
        by (simp add: session_read_def Let_def of_nat_32_unat split: if_splits)
    qed
  qed
  then have f: "cn_in (ss_conn s) = frame data @ []" using d(3) by simp
  have "take 4 (cn_in (ss_conn s)) = be32 (of_nat (length data))" using f h by simp
  then have "int (length data) \<le> MaxMessageBytes (ss_config s)"
    using assms(3) d(2) h f by (simp add: session_read_def Let_def of_nat_32_unat split: if_splits)
  from read_frame [OF c d(2) this f] assms(3) show ?thesis by simp
qed

text \<open>A write, complete or not, leaves part of the message's frame behind what was written before.\<close>

lemma write_wire:
  assumes "session_write C m s = (x, s')" "MaxMessageBytes (ss_config s) < 2 ^ 32"
  shows "\<exists>bs. cn_out (ss_conn s') = cn_out (ss_conn s) @ bs \<and> (bs = [] \<or> wire C m bs)"
proof (cases "\<exists>data. marshal C m = Some data \<and> int (length data) \<le> MaxMessageBytes (ss_config s)")
  case True
  then obtain data where d: "marshal C m = Some data" "int (length data) \<le> MaxMessageBytes (ss_config s)" by blast
  have "int (length data) < int (2 ^ 32)" using d(2) assms(2) by simp
  then have l: "length data < 2 ^ 32" by (simp only: of_nat_less_iff)
  have "\<exists>k. cn_out (ss_conn s') = cn_out (ss_conn s) @ take k (frame data)"
  proof (cases "cn_room (ss_conn s)")
    case None
    with assms(1) d have "cn_out (ss_conn s') = cn_out (ss_conn s) @ take (length (frame data)) (frame data)"
      by (auto simp: session_write_def writeFull_def frame_def)
    then show ?thesis by blast
  next
    case (Some n)
    with assms(1) d have "cn_out (ss_conn s') = cn_out (ss_conn s) @ take n (frame data)"
      by (auto simp: session_write_def writeFull_def frame_def split: if_splits)
    then show ?thesis by blast
  qed
  with d(1) l show ?thesis unfolding wire_def by blast
next
  case False
  with assms(1) have "cn_out (ss_conn s') = cn_out (ss_conn s)"
    by (auto simp: session_write_def split: option.splits if_splits)
  then show ?thesis by simp
qed

text \<open>The server reads nothing but an ACK from part of an ACK's frame.\<close>

lemma Receive_ack:
  assumes "codec_ok C" "cn_in (ss_conn s) = [] \<or> wire C (ack_message n) (cn_in (ss_conn s))" "Receive C s = (x, s')"
  shows "(case x of Inl _ \<Rightarrow> True | Inr m \<Rightarrow> m = ack_message n \<and> n \<noteq> 0) \<and> ss_next s' = ss_next s \<and>
     ss_config s' = ss_config s \<and> cn_out (ss_conn s') = cn_out (ss_conn s)"
proof -
  obtain y s1 where r: "session_read C s = (y, s1)" by (cases "session_read C s")
  note f = session_read_frame [OF r]
  show ?thesis
  proof (cases y)
    case (Inl e)
    with assms(3) r f show ?thesis by (simp add: Receive.simps [of C s]) auto
  next
    case (Inr m)
    then have "wire C (ack_message n) (cn_in (ss_conn s))" using assms(2) r by (auto simp: read_empty)
    then have m: "m = ack_message n" using read_wire [OF assms(1)] r Inr by blast
    have "x = (if n = 0 then Inl ZeroAckCursor else Inr m)" "s' = (if n = 0 then s1 else take_ack n s1)"
      using assms(3) r Inr m by (auto simp: Receive.simps [of C s] ack_message_def TypeACK_def split: if_splits)
    with f m show ?thesis by simp
  qed
qed


text \<open>The agent either stops, perhaps after repeating its ACK, or gets the next policy.\<close>

lemma Receive_policy:
  assumes "codec_ok C" "cn_in (ss_conn s) = [] \<or> wire C (policy_message w ch) (cn_in (ss_conn s))"
    and "cn_out (ss_conn s) = []" "MaxMessageBytes (ss_config s) < 2 ^ 32" "Receive C s = (x, s')"
  shows "ss_applied s' = ss_applied s \<and> ss_config s' = ss_config s \<and>
    ((\<exists>e. x = Inl e) \<and>
       (cn_out (ss_conn s') = [] \<or>
        w \<noteq> 0 \<and> w \<le> ss_applied s \<and> wire C (ack_message (ss_applied s)) (cn_out (ss_conn s'))) \<or>
     x = Inr (policy_message w ch) \<and> w = ss_applied s + 1 \<and> w \<noteq> 0 \<and> cn_in (ss_conn s') = [] \<and>
       cn_out (ss_conn s') = [])"
proof -
  obtain y s1 where r: "session_read C s = (y, s1)" by (cases "session_read C s")
  note f = session_read_frame [OF r]
  show ?thesis
  proof (cases y)
    case (Inl e)
    with assms(3,5) r f show ?thesis by (auto simp: Receive.simps [of C s])
  next
    case (Inr m)
    then have "wire C (policy_message w ch) (cn_in (ss_conn s))" using assms(2) r by (auto simp: read_empty)
    then have "m = policy_message w ch \<and> s1 = s\<lparr>ss_conn := (ss_conn s)\<lparr>cn_in := []\<rparr>\<rparr>"
      using read_wire [OF assms(1)] r Inr by blast
    then have m: "m = policy_message w ch" and s1: "cn_in (ss_conn s1) = []" by simp_all
    have pm: "ms_Type m = TypePolicy" "TypePolicy \<noteq> TypeACK" "ms_Policy m = Some ch" "ms_Sequence m = w"
      by (simp_all add: m policy_message_def TypePolicy_def TypeACK_def)
    note step = assms(5) [unfolded Receive.simps [of C s] r prod.case Inr sum.case]
    obtain z s2 where a: "session_write C (ack_message (ss_applied s1)) s1 = (z, s2)"
      by (cases "session_write C (ack_message (ss_applied s1)) s1")
    have out: "cn_out (ss_conn s2) = [] \<or> wire C (ack_message (ss_applied s)) (cn_out (ss_conn s2))"
      using write_wire [OF a] assms(3,4) f by auto
    have s2: "cn_in (ss_conn s2) = []" using session_write_in [OF a] s1 by simp
    note g = session_write_frame [OF a]
    show ?thesis
    proof (cases "w \<noteq> 0 \<and> validatePolicy ch = None \<and> w \<le> ss_applied s1")
      case True
      with step pm a s2 have "s' = s2 \<and> (\<exists>e. x = Inl e)"
        by (cases z) (auto simp: Receive_empty)
      with True f g out show ?thesis by auto
    next
      case False
      with step pm m s1 f assms(3) show ?thesis by (auto split: if_splits option.splits)
    qed
  qed
qed

lemma consume_empty:
  "cn_in (ss_conn s) = [] \<Longrightarrow> consume C f dry env s a = (ReceiveACK ReadHeader, s, a)"
  by (simp add: consume.simps [of C f dry env s a] consume_round_def Receive_empty)

text \<open>What a session of the agent does with part of the frame of one policy.\<close>

lemma consume_outcome:
  assumes "codec_ok C" "cn_in (ss_conn s) = [] \<or> wire C (policy_message w ch) (cn_in (ss_conn s))"
    and "cn_out (ss_conn s) = []" "MaxMessageBytes (ss_config s) < 2 ^ 32"
    and "consume C f False env s a = (e, s', a')"
  shows "ss_config s' = ss_config s \<and>
    (a' = a \<and> ss_applied s' = ss_applied s \<and>
       (cn_out (ss_conn s') = [] \<or>
        w \<noteq> 0 \<and> w \<le> ss_applied s \<and> wire C (ack_message (ss_applied s)) (cn_out (ss_conn s'))) \<or>
     w = ss_applied s + 1 \<and> w \<noteq> 0 \<and>
       (\<exists>err. adapter_Apply (ae_io (env (ss_applied s))) (ae_now (env (ss_applied s))) ch
                (ag_adapter a) (ag_policyDisk a) = (err, ag_adapter a', ag_policyDisk a') \<and>
          (ag_cursor a' = ag_cursor a \<and> ss_applied s' = ss_applied s \<and> cn_out (ss_conn s') = [] \<or>
           err = None \<and> ag_cursor a' = w \<and> ss_applied s' = w \<and>
             (cn_out (ss_conn s') = [] \<or> wire C (ack_message w) (cn_out (ss_conn s'))))))"
proof -
  let ?env = "env (ss_applied s)"
  obtain x s1 where r: "Receive C s = (x, s1)" by (cases "Receive C s")
  note R = Receive_policy [OF assms(1-4) r]
  show ?thesis
  proof (cases x)
    case (Inl err)
    with r assms(5) have "s' = s1" "a' = a" by (auto simp: consume.simps [of C f False env s a] consume_round_def)
    with R Inl show ?thesis by auto
  next
    case (Inr m)
    with R have m: "m = policy_message w ch" "w = ss_applied s + 1" "w \<noteq> 0"
      and s1: "cn_in (ss_conn s1) = []" "cn_out (ss_conn s1) = []" "ss_applied s1 = ss_applied s" "ss_config s1 = ss_config s"
      by auto
    obtain err ad d where ap: "adapter_Apply (ae_io ?env) (ae_now ?env) ch (ag_adapter a) (ag_policyDisk a) = (err, ad, d)"
      by (metis prod_cases3)
    let ?a1 = "a\<lparr>ag_adapter := ad, ag_policyDisk := d\<rparr>"
    obtain se cd where sv: "saveCursor (ae_cursorIO ?env) f w (ag_cursorDisk a) = (se, cd)" by fastforce
    obtain ae s2 where ak: "Ack C w s1 = (ae, s2)" by fastforce
    have wr: "session_write C (ack_message w) (s1\<lparr>ss_applied := w\<rparr>) = (ae, s2)"
      using ak m s1 by (simp add: Ack_def)
    note g = session_write_frame [OF wr]
    have out: "cn_out (ss_conn s2) = [] \<or> wire C (ack_message w) (cn_out (ss_conn s2))"
      using write_wire [OF wr] s1 assms(4) by auto
    have s2: "cn_in (ss_conn s2) = []" using session_write_in [OF wr] s1 by simp
    have pm: "ms_Type m = TypePolicy" "ms_Policy m = Some ch" "ms_Sequence m = w"
      by (simp_all add: m policy_message_def)
    consider (rejected) e1 where "err = Some e1" | (unsaved) e1 where "err = None" "se = Some e1"
      | (acked) "err = None" "se = None" by (cases err; cases se) auto
    then show ?thesis
    proof cases
      case rejected
      with assms(5) r Inr pm ap have "s' = s1" "a' = ?a1"
        by (auto simp: consume.simps [of C f False env s a] consume_round_def)
      with m s1 ap show ?thesis by simp
    next
      case unsaved
      with assms(5) r Inr pm ap sv have "s' = s1" "a' = ?a1\<lparr>ag_cursorDisk := cd\<rparr>"
        by (auto simp: consume.simps [of C f False env s a] consume_round_def)
      with m s1 ap show ?thesis by simp
    next
      case acked
      let ?a2 = "?a1\<lparr>ag_cursorDisk := cd, ag_cursor := ss_applied s2\<rparr>"
      have "consume_round C f False ?env s a = (map_option AcknowledgePolicy ae, s2, ?a2)"
        using acked r Inr pm ap sv ak by (simp add: consume_round_def)
      with assms(5) s2 have "s' = s2" "a' = ?a2"
        by (cases ae; auto simp: consume.simps [of C f False env s a] consume_empty)+
      with m s1 ap acked g out show ?thesis by simp
    qed
  qed
qed

section \<open>Both loops come to rest\<close>

text \<open>The loops with a bound on their rounds; \<open>None\<close> is a loop cut short.\<close>

fun consume_bounded :: "nat \<Rightarrow> json_codec \<Rightarrow> string \<Rightarrow> bool \<Rightarrow> (64 word \<Rightarrow> agent_env) \<Rightarrow> session \<Rightarrow> agent
    \<Rightarrow> (sync_error \<times> session \<times> agent) option" where
  "consume_bounded 0 C cursorFile dryRun env s a = None"
| "consume_bounded (Suc n) C cursorFile dryRun env s a =
     (case consume_round C cursorFile dryRun (env (ss_applied s)) s a of
        (Some e, s', a') \<Rightarrow> Some (e, s', a')
      | (None, s', a') \<Rightarrow> consume_bounded n C cursorFile dryRun env s' a')"

fun sync_bounded :: "nat \<Rightarrow> json_codec \<Rightarrow> string \<Rightarrow> (nat \<Rightarrow> cursor_io \<times> policy_mutation list) \<Rightarrow> bool \<Rightarrow> nat
    \<Rightarrow> sync_server \<Rightarrow> (loop_result \<times> sync_server) option" where
  "sync_bounded 0 C cursorFile env cancelled i sv = None"
| "sync_bounded (Suc n) C cursorFile env cancelled i sv =
     (case sync_round C cursorFile (fst (env i)) (snd (env i)) sv of
        (Ends e, sv') \<Rightarrow> Some (LoopReturns e, sv')
      | (Committed, sv') \<Rightarrow> sync_bounded n C cursorFile env cancelled (Suc i) sv'
      | (Waits, sv') \<Rightarrow>
          if pq_pending (sv_queue sv') \<noteq> [] then sync_bounded n C cursorFile env cancelled (Suc i) sv'
          else Some (if cancelled then LoopReturns (SyncQueue Cancelled) else LoopWaits, sv'))"

lemma consume_bounded_enough:
  "length (cn_in (ss_conn s)) < 5 * n \<Longrightarrow> consume_bounded n C f dry env s a = Some (consume C f dry env s a)"
proof (induction n arbitrary: s a)
  case (Suc n)
  obtain x s' a' where r: "consume_round C f dry (env (ss_applied s)) s a = (x, s', a')" by (metis prod_cases3)
  show ?case
  proof (cases x)
    case None
    with consume_round_shorter [OF r [unfolded None]] Suc.prems have "length (cn_in (ss_conn s')) < 5 * n" by simp
    from Suc.IH [OF this] r None show ?thesis by (simp add: consume.simps [of C f dry env s a])
  qed (simp add: consume.simps [of C f dry env s a] r)
qed simp

lemma sync_bounded_enough:
  "2 * (length (cn_in (ss_conn (sv_session sv))) div 5) + (if pq_pending (sv_queue sv) = [] then 1 else 0) < n \<Longrightarrow>
   sync_bounded n C f env cancelled i sv = Some (sync_loop C f env cancelled i sv)"
proof (induction n arbitrary: i sv)
  case (Suc n)
  obtain x sv' where r: "sync_round C f (fst (env i)) (snd (env i)) sv = (x, sv')" by fastforce
  show ?case
  proof (cases x)
    case Committed
    with sync_round_shorter [OF r [unfolded Committed]]
    have "length (cn_in (ss_conn (sv_session sv'))) div 5 + 1 \<le> length (cn_in (ss_conn (sv_session sv))) div 5"
      using div_le_mono [of "length (cn_in (ss_conn (sv_session sv'))) + 5" _ 5] by simp
    with Suc.prems have "2 * (length (cn_in (ss_conn (sv_session sv'))) div 5) +
        (if pq_pending (sv_queue sv') = [] then 1 else 0) < n"
      by (simp split: if_splits)
    from Suc.IH [OF this] r Committed show ?thesis by (simp add: sync_loop.simps [of C f env cancelled i sv])
  next
    case Waits
    with Suc.prems sync_round_waiting [OF r [unfolded Waits]] Suc.IH [of sv' "Suc i"] r
    show ?thesis by (simp add: sync_loop.simps [of C f env cancelled i sv])
  qed (simp add: sync_loop.simps [of C f env cancelled i sv] r)
qed simp

text \<open>The loop of the server rests in \<open>queue.next\<close> only with an empty queue and a context that lives.\<close>

lemma sync_loop_waits:
  "sync_loop C f env cancelled i sv = (LoopWaits, sv') \<Longrightarrow> \<not> cancelled \<and> pq_pending (sv_queue sv') = []"
proof (induction C f env cancelled i sv rule: sync_loop.induct)
  case (1 C f env cancelled i sv)
  obtain x sv1 where r: "sync_round C f (fst (env i)) (snd (env i)) sv = (x, sv1)" by fastforce
  note step = "1.prems" [unfolded sync_loop.simps [of C f env cancelled i sv] r prod.case]
  show ?case
  proof (cases x)
    case Committed
    with step "1.IH"(1) [OF r [symmetric]] show ?thesis by simp
  next
    case Waits
    with step "1.IH"(2) [OF r [symmetric]] show ?thesis by (auto split: if_splits)
  qed (use step in simp)
qed

text \<open>C24: both ends of a session come to rest. Given all the bytes a connection delivers before it
  ends, the agent's loop returns after at most one round for every five bytes and one more, since each
  round that goes on has taken a whole message off the connection. The server's loop needs at most
  two rounds for every five bytes and two more; it then has returned, or waits in \<open>queue.next\<close> with
  nothing left to send, which it does for ever unless its context ends: with an empty queue it does
  not look at the connection at all.\<close>

theorem session_loops_end:
  "consume_bounded (Suc (length (cn_in (ss_conn s)) div 5)) C f dry env s a = Some (consume C f dry env s a) \<and>
   sync_bounded (2 * (length (cn_in (ss_conn (sv_session sv))) div 5) + 2) C f senv cancelled i sv =
     Some (sync_loop C f senv cancelled i sv) \<and>
   (fst (sync_loop C f senv cancelled i sv) = LoopWaits \<longrightarrow>
     \<not> cancelled \<and> pq_pending (sv_queue (snd (sync_loop C f senv cancelled i sv))) = []) \<and>
   (pq_pending (sv_queue sv) = [] \<and> snd (senv i) = [] \<longrightarrow>
     fst (sync_loop C f senv cancelled i sv) = (if cancelled then LoopReturns (SyncQueue Cancelled) else LoopWaits))"
proof (intro conjI impI)
  have "k < 5 * Suc (k div 5)" for k :: nat
    using dividend_less_times_div [of 5 k] by simp
  then show "consume_bounded (Suc (length (cn_in (ss_conn s)) div 5)) C f dry env s a = Some (consume C f dry env s a)"
    by (rule consume_bounded_enough)
next
  assume e: "pq_pending (sv_queue sv) = [] \<and> snd (senv i) = []"
  obtain sv' where r: "sync_round C f (fst (senv i)) (snd (senv i)) sv = (Waits, sv')"
    using sync_round_waits [of C f "fst (senv i)" "snd (senv i)" sv] e by (metis prod.collapse)
  then have "pq_pending (sv_queue sv') = []" using sync_round_waiting [OF r] e by simp
  with r show "fst (sync_loop C f senv cancelled i sv) =
      (if cancelled then LoopReturns (SyncQueue Cancelled) else LoopWaits)"
    by (simp add: sync_loop.simps [of C f senv cancelled i sv])
next
  show "sync_bounded (2 * (length (cn_in (ss_conn (sv_session sv))) div 5) + 2) C f senv cancelled i sv =
      Some (sync_loop C f senv cancelled i sv)"
    by (rule sync_bounded_enough) simp
qed (metis sync_loop_waits prod.collapse)+

text \<open>A server that has sent everything, and one with a change left, over a connection that has ended.\<close>

definition quiet_disk :: cursor_io where
  "quiet_disk = \<lparr>cio_unreadable = False, cio_fault = None, cio_temporary = ''t''\<rparr>"

definition resting_server :: "policy_change list \<Rightarrow> sync_server" where
  "resting_server chs = \<lparr>sv_queue = \<lparr>pq_pending = chs, pq_notify = True, pq_nextID = 1\<rparr>, sv_cursor = 0,
     sv_session = sample_session [], sv_disk = \<lambda>_. None\<rparr>"

theorem session_loops_end_witness:
  "fst (sync_loop sample_codec ''c'' (\<lambda>_. (quiet_disk, [])) False 0 (resting_server [])) = LoopWaits \<and>
   sync_bounded 2 sample_codec ''c'' (\<lambda>_. (quiet_disk, [])) False 0 (resting_server [sample_change]) =
     Some (sync_loop sample_codec ''c'' (\<lambda>_. (quiet_disk, [])) False 0 (resting_server [sample_change]))"
proof -
  let ?env = "\<lambda>_ :: nat. (quiet_disk, [] :: policy_mutation list)"
  note e = session_loops_end [where C = sample_codec and f = "''c''" and senv = ?env and cancelled = False and i = 0]
  have server: "pq_pending (sv_queue (resting_server chs)) = chs"
    "2 * (length (cn_in (ss_conn (sv_session (resting_server chs)))) div 5) + 2 = 2" for chs
    by (simp_all add: resting_server_def sample_session_def)
  have "snd (?env 0) = []" by simp
  with e [where sv = "resting_server []"] e [where sv = "resting_server [sample_change]"] server
  show ?thesis by metis
qed

end
