(* ===== verification/Sync_Accept.thy ===== *)
theory Sync_Accept
  imports Policy_Sync
begin

text \<open>
  \<open>acceptSync\<close> of \<open>internal/runtime/server.go\<close>: the loop that accepts agents, beside the goroutines
  that serve them. A worker is a connection's number and its session; the steps of the loop and of the
  workers interleave as the scheduler likes. \<open>closeActive\<close> cancels the active worker and waits for
  it, so that no two sessions ever work on the queue and the cursor, which is what \<open>Sync_System\<close> builds
  on.
\<close>

section \<open>State\<close>

text \<open>Where the loop stands: in \<open>Accept\<close>, in \<open>closeActive\<close> with the next connection in hand, in the
  deferred \<open>closeActive\<close> after an error of \<open>Accept\<close> that is reported or not, or returned.\<close>

datatype accept_phase = Accepting | Replacing conn | Leaving bool | Returned bool

record acceptor =
  ac_phase :: accept_phase
  ac_active :: "nat option"
  ac_workers :: "(nat, session) gomap"
  ac_next :: nat
  ac_server :: sync_server

definition accept_start :: "sync_server \<Rightarrow> acceptor" where
  "accept_start sv = \<lparr>ac_phase = Accepting, ac_active = None, ac_workers = [], ac_next = 0, ac_server = sv\<rparr>"

text \<open>A worker begins with the cursor of the server; when no session can be made it is done at once.\<close>

definition start_worker :: "rpc_config \<Rightarrow> conn \<Rightarrow> acceptor \<Rightarrow> acceptor" where
  "start_worker limits connection a =
     (let a = a\<lparr>ac_phase := Accepting, ac_active := Some (ac_next a), ac_next := Suc (ac_next a)\<rparr> in
      case NewSession (Some connection) limits
          \<lparr>rs_AppliedCursor = 0, rs_PeerCursor = sv_cursor (ac_server a), rs_NextSequence = 0\<rparr> of
        Inl e \<Rightarrow> a
      | Inr s \<Rightarrow> a\<lparr>ac_workers := AList.update (ac_next a - 1) s (ac_workers a)\<rparr>)"

text \<open>One round of a worker; a round that does not go on ends it, one that waits leaves it in
  \<open>queue.next\<close>.\<close>

definition worker_round :: "json_codec \<Rightarrow> string \<Rightarrow> cursor_io \<Rightarrow> policy_mutation list \<Rightarrow> nat \<Rightarrow> session
    \<Rightarrow> acceptor \<Rightarrow> acceptor" where
  "worker_round C cursorFile io ms i s a =
     (case sync_round C cursorFile io ms ((ac_server a)\<lparr>sv_session := s\<rparr>) of
        (Ends e, sv) \<Rightarrow> a\<lparr>ac_server := sv, ac_workers := AList.delete i (ac_workers a)\<rparr>
      | (_, sv) \<Rightarrow> a\<lparr>ac_server := sv, ac_workers := AList.update i (sv_session sv) (ac_workers a)\<rparr>)"

section \<open>Steps\<close>

text \<open>\<open>closed\<close> says whether the failed \<open>Accept\<close> comes from the end of the run, which is no error.\<close>

inductive accept_step :: "json_codec \<Rightarrow> string \<Rightarrow> rpc_config \<Rightarrow> acceptor \<Rightarrow> acceptor \<Rightarrow> bool"
  for C cursorFile limits where
  accept_first: "ac_phase a = Accepting \<Longrightarrow> ac_active a = None \<Longrightarrow>
    accept_step C cursorFile limits a (start_worker limits connection a)"
| accept_next: "ac_phase a = Accepting \<Longrightarrow> ac_active a = Some i \<Longrightarrow>
    accept_step C cursorFile limits a (a\<lparr>ac_phase := Replacing connection\<rparr>)"
| accept_replaced: "ac_phase a = Replacing connection \<Longrightarrow> ac_active a = Some i \<Longrightarrow> lookup (ac_workers a) i = None \<Longrightarrow>
    accept_step C cursorFile limits a (start_worker limits connection a)"
| accept_error: "ac_phase a = Accepting \<Longrightarrow>
    accept_step C cursorFile limits a (a\<lparr>ac_phase := Leaving closed\<rparr>)"
| accept_return: "ac_phase a = Leaving closed \<Longrightarrow> (\<forall>i. ac_active a = Some i \<longrightarrow> lookup (ac_workers a) i = None) \<Longrightarrow>
    accept_step C cursorFile limits a (a\<lparr>ac_phase := Returned closed, ac_active := None\<rparr>)"
| accept_round: "lookup (ac_workers a) i = Some s \<Longrightarrow>
    accept_step C cursorFile limits a (worker_round C cursorFile io ms i s a)"
| accept_bytes: "lookup (ac_workers a) i = Some s \<Longrightarrow>
    accept_step C cursorFile limits a
      (a\<lparr>ac_workers := AList.update i (s\<lparr>ss_conn := (ss_conn s)\<lparr>cn_in := cn_in (ss_conn s) @ bs\<rparr>\<rparr>) (ac_workers a)\<rparr>)"
| accept_cancelled: "lookup (ac_workers a) i = Some s \<Longrightarrow>
    accept_step C cursorFile limits a (a\<lparr>ac_workers := AList.delete i (ac_workers a)\<rparr>)"
| accept_publish: "accept_step C cursorFile limits a
    (a\<lparr>ac_server := (ac_server a)\<lparr>sv_queue := fold publish ms (sv_queue (ac_server a))\<rparr>\<rparr>)"

inductive_cases accept_stepE: "accept_step C cursorFile limits a a'"

inductive accept_reachable :: "json_codec \<Rightarrow> string \<Rightarrow> rpc_config \<Rightarrow> acceptor \<Rightarrow> acceptor \<Rightarrow> bool"
  for C cursorFile limits a0 where
  accept_here: "accept_reachable C cursorFile limits a0 a0"
| accept_more: "accept_reachable C cursorFile limits a0 a \<Longrightarrow> accept_step C cursorFile limits a a' \<Longrightarrow>
    accept_reachable C cursorFile limits a0 a'"

section \<open>One worker\<close>

definition accept_inv :: "acceptor \<Rightarrow> bool" where
  "accept_inv a = (wf_map (ac_workers a) \<and> set (keys (ac_workers a)) \<subseteq> set_option (ac_active a) \<and>
     ((\<exists>connection. ac_phase a = Replacing connection) \<longrightarrow> ac_active a \<noteq> None) \<and>
     ((\<exists>closed. ac_phase a = Returned closed) \<longrightarrow> ac_active a = None))"

lemma accept_inv_start: "accept_inv (accept_start sv)"
  by (simp add: accept_inv_def accept_start_def)

lemma keys_lookup_Some: "lookup m k = Some v \<Longrightarrow> k \<in> set (keys m)"
  using lookup_None_iff [of m k] by auto

lemma start_worker_inv:
  assumes "accept_inv a" "\<forall>i. ac_active a = Some i \<longrightarrow> lookup (ac_workers a) i = None"
  shows "accept_inv (start_worker limits connection a)"
proof -
  have "ac_workers a = []"
  proof (rule ccontr)
    assume "ac_workers a \<noteq> []"
    then obtain i where i: "i \<in> set (keys (ac_workers a))" by (cases "ac_workers a") auto
    then have "ac_active a = Some i" using assms(1) by (auto simp: accept_inv_def)
    with assms(2) i show False by (simp add: lookup_None_iff)
  qed
  then show ?thesis by (simp add: accept_inv_def start_worker_def Let_def split: sum.split)
qed

lemma worker_round_inv:
  assumes "accept_inv a" "lookup (ac_workers a) i = Some s"
  shows "accept_inv (worker_round C cursorFile io ms i s a)"
  using assms keys_lookup_Some [OF assms(2)]
  by (auto simp: accept_inv_def worker_round_def split: prod.split round_result.split)

lemma accept_inv_step: "accept_step C cursorFile limits a a' \<Longrightarrow> accept_inv a \<Longrightarrow> accept_inv a'"
proof (induction rule: accept_step.induct)
  case (accept_first a connection)
  then show ?case by (intro start_worker_inv) simp_all
next
  case (accept_replaced a connection i)
  then show ?case by (intro start_worker_inv) simp_all
next
  case (accept_round a i s io ms)
  then show ?case by (intro worker_round_inv)
next
  case (accept_return a closed)
  have "i \<notin> set (keys (ac_workers a))" for i
    using accept_return(2,3) lookup_None_iff [of "ac_workers a" i] by (auto simp: accept_inv_def)
  then have "ac_workers a = []" by (metis list.map_disc_iff list.set_intros(1) neq_Nil_conv)
  then show ?case by (simp add: accept_inv_def)
next
  case (accept_bytes a i s bs)
  then show ?case using keys_lookup_Some [OF accept_bytes(1)] by (auto simp: accept_inv_def)
qed (auto simp: accept_inv_def)

lemma accept_inv_reachable: "accept_reachable C cursorFile limits a0 a \<Longrightarrow> accept_inv a0 \<Longrightarrow> accept_inv a"
  by (induction rule: accept_reachable.induct) (auto intro: accept_inv_step)

section \<open>Properties\<close>

text \<open>C5: one agent at a time. However connections arrive, are replaced, end and fail, at most one session
  works on the queue and the cursor, that of the connection accepted last, and none is left when
  \<open>acceptSync\<close> has returned.\<close>

theorem acceptSync_exclusive:
  assumes "accept_reachable C cursorFile limits (accept_start sv) a"
  shows "length (ac_workers a) \<le> 1 \<and> set (keys (ac_workers a)) \<subseteq> set_option (ac_active a) \<and>
    (ac_phase a = Returned closed \<longrightarrow> ac_workers a = [])"
proof -
  have inv: "accept_inv a" using accept_inv_reachable [OF assms accept_inv_start] .
  then have "card (set (keys (ac_workers a))) \<le> card (set_option (ac_active a))"
    by (intro card_mono) (simp_all add: accept_inv_def)
  moreover have "card (set_option (ac_active a)) \<le> 1" by (cases "ac_active a") simp_all
  moreover have "length (ac_workers a) = card (set (keys (ac_workers a)))"
    using inv by (metis accept_inv_def distinct_card length_map)
  ultimately show ?thesis using inv by (auto simp: accept_inv_def)
qed

text \<open>A second agent takes over from the first.\<close>

definition idle_conn :: conn where
  "idle_conn = \<lparr>cn_in = [], cn_out = [], cn_room = None\<rparr>"

definition idle_server :: sync_server where
  "idle_server = \<lparr>sv_queue = newPolicyQueue, sv_cursor = 0,
     sv_session = \<lparr>ss_conn = idle_conn, ss_config = \<lparr>MaxMessageBytes = 100, MaxInFlight = 1\<rparr>, ss_next = 1,
       ss_applied = 0, ss_peer = 0, ss_pending = []\<rparr>, sv_disk = Map.empty\<rparr>"

theorem acceptSync_exclusive_witness:
  "\<exists>a. accept_reachable sample_codec [] \<lparr>MaxMessageBytes = 100, MaxInFlight = 1\<rparr> (accept_start idle_server) a \<and>
     keys (ac_workers a) = [1] \<and> length (ac_workers a) \<le> 1"
proof -
  let ?R = "accept_reachable sample_codec [] \<lparr>MaxMessageBytes = 100, MaxInFlight = 1\<rparr> (accept_start idle_server)"
  let ?w = "start_worker \<lparr>MaxMessageBytes = 100, MaxInFlight = 1\<rparr> idle_conn"
  let ?a1 = "?w (accept_start idle_server)"
  let ?a2 = "?a1\<lparr>ac_phase := Replacing idle_conn\<rparr>"
  let ?a3 = "?a2\<lparr>ac_workers := AList.delete 0 (ac_workers ?a2)\<rparr>"
  have 1: "?R ?a1"
    by (rule accept_more [OF accept_here accept_first]) (simp_all add: accept_start_def)
  have 2: "?R ?a2"
    by (rule accept_more [OF 1 accept_next [where i = 0]])
      (simp_all add: accept_start_def start_worker_def NewSession_def idle_server_def)
  obtain s where "lookup (ac_workers ?a2) 0 = Some s"
    by (simp add: accept_start_def start_worker_def NewSession_def idle_server_def)
  then have 3: "?R ?a3" by (rule accept_more [OF 2 accept_cancelled])
  have 4: "?R (?w ?a3)"
    by (rule accept_more [OF 3 accept_replaced [where i = 0]])
      (simp_all add: accept_start_def start_worker_def NewSession_def idle_server_def)
  have k: "keys (ac_workers (?w ?a3)) = [1]"
    by (simp add: accept_start_def start_worker_def NewSession_def idle_server_def)
  obtain a where a: "?R a" "keys (ac_workers a) = [1]" by (rule that [OF 4 k])
  have "length (ac_workers a) \<le> 1" by (rule conjunct1 [OF acceptSync_exclusive [OF a(1)]])
  with a show ?thesis by (intro exI [of _ a] conjI)
qed

end
