(* ===== verification/Feed.thy ===== *)
theory Feed
  imports Netip_Text
begin

text \<open>
  \<open>internal/feed/feed.go\<close>: parsing of prefix lists, expansion of IPv4 blocks into hosts, and the
  guarded download. The URL parser, the resolver, the HTTP exchange and the files are arguments:
  what a URL parses to, what a host name resolves to (at each step of a download, once when the URL
  is checked and once when it is dialled), what a server answers and what a file holds.
\<close>

section \<open>Expansion\<close>

definition Bits :: "prefix \<Rightarrow> int" where
  "Bits p = (case pfx_bits p of None \<Rightarrow> -1 | Some b \<Rightarrow> int b)"

fun As4 :: "addr \<Rightarrow> 32 word" where
  "As4 (Addr4 w) = w"
| "As4 _ = 0"

definition ExpandIPv4ToSlash32 :: "prefix \<Rightarrow> prefix list" where
  "ExpandIPv4ToSlash32 p0 =
     (let p = Masked p0 in
      if \<not> Is4 (pfx_addr p) \<or> Bits p < 16 \<or> Bits p = 32 then [p]
      else
        let n = 2 ^ nat (32 - Bits p);
            baseInt = As4 (pfx_addr p)
        in map (\<lambda>i. PrefixFrom (Addr4 (baseInt + of_nat i)) 32) [0 ..< n])"

section \<open>Parsing\<close>

text \<open>\<open>bufio.Scanner\<close>: lines without their line feed and one carriage return before it; a last line
  that is empty is none. A line that fills the buffer of 65536 bytes stops the scan with an error.\<close>

definition scan_raw :: "string \<Rightarrow> string list" where
  "scan_raw bs = (let ls = split_byte (char_of (10 :: nat)) bs in if last ls = [] then butlast ls else ls)"

definition drop_cr :: "string \<Rightarrow> string" where
  "drop_cr l = (if l \<noteq> [] \<and> last l = char_of (13 :: nat) then butlast l else l)"

definition too_long :: "string \<Rightarrow> bool" where
  "too_long l = (65536 \<le> length l)"

definition parse_line :: "string \<Rightarrow> prefix option" where
  "parse_line text =
     (let line = TrimSpace text in
      if line = [] \<or> HasPrefix line ''#'' \<or> HasPrefix line ''//'' then None
      else
        let line = (case cut_byte CHR ''#'' line of None \<Rightarrow> line | Some (a, _) \<Rightarrow> TrimSpace a);
            parsed =
              (if \<not> Contains_str line ''/'' then
                 (case ParseAddr line of
                    None \<Rightarrow> None
                  | Some ip \<Rightarrow> Some (PrefixFrom ip (if Is6 ip then 128 else 32)))
               else ParsePrefix line)
        in map_option Masked parsed)"

definition addPrefix :: "prefix list \<Rightarrow> prefix \<Rightarrow> prefix list" where
  "addPrefix acc p0 = (let p = Masked p0 in if p \<in> set acc then acc else acc @ [p])"

definition line_prefixes :: "bool \<Rightarrow> prefix \<Rightarrow> prefix list" where
  "line_prefixes expandSlash24 p =
     (if expandSlash24 \<and> Is4 (pfx_addr p) \<and> Bits p \<ge> 16 \<and> Bits p < 32 then ExpandIPv4ToSlash32 p else [p])"

datatype feed_error =
    FeedRead | Download string | DownloadStatus int | NotURLOrFile | OpenFeed string
  | PublicURLRequired | ResolveHost | NoAddresses | NonPublicAddress addr | InvalidDestination

text \<open>\<open>failed\<close>: the reader ends with an error other than the end of the input.\<close>

definition ParseList :: "string \<Rightarrow> bool \<Rightarrow> bool \<Rightarrow> feed_error + prefix list" where
  "ParseList bs failed expandSlash24 =
     (if failed \<or> list_ex too_long (scan_raw bs) then Inl FeedRead
      else Inr (foldl (\<lambda>acc text. case parse_line text of
                  None \<Rightarrow> acc
                | Some p \<Rightarrow> foldl addPrefix acc (line_prefixes expandSlash24 p))
              [] (map drop_cr (scan_raw bs))))"

section \<open>Public addresses\<close>

definition blockedPrefixes :: "prefix list" where
  "blockedPrefixes = List.map_filter ParsePrefix
    [''0.0.0.0/8'',
     ''10.0.0.0/8'',
     ''100.64.0.0/10'',
     ''127.0.0.0/8'',
     ''169.254.0.0/16'',
     ''172.16.0.0/12'',
     ''192.0.0.0/24'',
     ''192.88.99.0/24'',
     ''192.0.2.0/24'',
     ''192.168.0.0/16'',
     ''198.18.0.0/15'',
     ''198.51.100.0/24'',
     ''203.0.113.0/24'',
     ''240.0.0.0/4'',
     ''100::/64'',
     ''64:ff9b::/96'',
     ''64:ff9b:1::/48'',
     ''2001::/23'',
     ''2001:db8::/32'',
     ''2002::/16'',
     ''fc00::/7'']"

definition isPublicIP :: "addr \<Rightarrow> bool" where
  "isPublicIP address0 =
     (let address = Unmap address0 in
      addr_IsValid address \<and> IsGlobalUnicast address \<and> \<not> IsPrivate address \<and> \<not> IsLoopback address \<and>
      \<not> IsLinkLocalUnicast address \<and> \<not> list_ex (\<lambda>p. Contains p address) blockedPrefixes)"

section \<open>Downloading\<close>

record parsed_url =
  url_Scheme :: string
  url_Hostname :: string
  url_User :: bool

datatype answer = ConnectFailed | Redirect string | Answer int string bool

text \<open>The outside world: the URL parser, the host and port a URL's request dials, the addresses a
  host resolves to when it is checked and when it is dialled, the server's answers and the files.\<close>

record net_env =
  ne_parse :: "string \<Rightarrow> parsed_url option"
  ne_split :: "string \<Rightarrow> (string \<times> string) option"
  ne_checked :: "nat \<Rightarrow> string \<Rightarrow> addr list option"
  ne_dialled :: "nat \<Rightarrow> string \<Rightarrow> addr list option"
  ne_answer :: "nat \<Rightarrow> string \<Rightarrow> answer"
  ne_file :: "string \<Rightarrow> (string \<times> bool) option"

definition is_http :: "parsed_url \<Rightarrow> bool" where
  "is_http u = (url_Scheme u = ''http'' \<or> url_Scheme u = ''https'')"

definition validateURLFormat :: "net_env \<Rightarrow> string \<Rightarrow> feed_error + string" where
  "validateURLFormat E raw =
     (let normalized = TrimSpace raw in
      case ne_parse E normalized of
        None \<Rightarrow> Inl PublicURLRequired
      | Some u \<Rightarrow> if \<not> is_http u \<or> url_Hostname u = [] \<or> url_User u then Inl PublicURLRequired else Inr normalized)"

fun first_private :: "addr list \<Rightarrow> feed_error option" where
  "first_private [] = None"
| "first_private (a # as) = (if isPublicIP a then first_private as else Some (NonPublicAddress a))"

definition check_addresses :: "addr list option \<Rightarrow> feed_error option" where
  "check_addresses r =
     (case r of None \<Rightarrow> Some ResolveHost | Some [] \<Rightarrow> Some NoAddresses | Some as \<Rightarrow> first_private as)"

definition ValidatePublicURL :: "net_env \<Rightarrow> nat \<Rightarrow> string \<Rightarrow> feed_error option" where
  "ValidatePublicURL E n raw =
     (case validateURLFormat E raw of
        Inl e \<Rightarrow> Some e
      | Inr normalized \<Rightarrow>
          (case ne_parse E normalized of
             None \<Rightarrow> Some PublicURLRequired
           | Some u \<Rightarrow> check_addresses (ne_checked E n (url_Hostname u))))"

text \<open>\<open>DialContext\<close> of the client: the address connected to, or the error.\<close>

definition publicDial :: "net_env \<Rightarrow> nat \<Rightarrow> string \<Rightarrow> feed_error + addr \<times> string" where
  "publicDial E n source =
     (case ne_split E source of
        None \<Rightarrow> Inl InvalidDestination
      | Some (host, port) \<Rightarrow>
          (case check_addresses (ne_dialled E n host) of
             Some e \<Rightarrow> Inl e
           | None \<Rightarrow> (case ne_dialled E n host of Some (a # _) \<Rightarrow> Inr (a, port) | _ \<Rightarrow> Inl NoAddresses)))"

text \<open>\<open>client.Do\<close>: request \<open>n\<close>, after \<open>n\<close> redirects, with the addresses connected to. The tenth
  redirect is refused, every other one is validated first.\<close>

function client_Do :: "net_env \<Rightarrow> nat \<Rightarrow> string \<Rightarrow> (feed_error + int \<times> string \<times> bool) \<times> addr list" where
  "client_Do E n source =
     (case publicDial E n source of
        Inl e \<Rightarrow> (Inl (Download source), [])
      | Inr (a, port) \<Rightarrow>
          (case ne_answer E n source of
             ConnectFailed \<Rightarrow> (Inl (Download source), [a])
           | Answer status body failed \<Rightarrow> (Inr (status, body, failed), [a])
           | Redirect target \<Rightarrow>
               if Suc n \<ge> 10 then (Inl (Download source), [a])
               else if ValidatePublicURL E (Suc n) target \<noteq> None then (Inl (Download source), [a])
               else (case client_Do E (Suc n) target of (r, as) \<Rightarrow> (r, a # as))))"
  by pat_completeness auto
termination
  by (relation "measure (\<lambda>(E, n, source). 10 - n)") auto

declare client_Do.simps [simp del]

definition Fetch :: "net_env \<Rightarrow> string \<Rightarrow> bool \<Rightarrow> (feed_error + prefix list) \<times> addr list" where
  "Fetch E source0 expandSlash24 =
     (let source = TrimSpace source0 in
      if source = [] then (Inr [], [])
      else
        case ne_parse E source of
          None \<Rightarrow> (Inl NotURLOrFile, [])
        | Some u \<Rightarrow>
            if is_http u then
              (case ValidatePublicURL E 0 source of
                 Some e \<Rightarrow> (Inl e, [])
               | None \<Rightarrow>
                   (case client_Do E 0 source of
                      (Inl e, as) \<Rightarrow> (Inl e, as)
                    | (Inr (status, body, failed), as) \<Rightarrow>
                        if status \<noteq> 200 then (Inl (DownloadStatus status), as)
                        else (ParseList body failed expandSlash24, as)))
            else if url_Scheme u \<noteq> [] then (Inl NotURLOrFile, [])
            else
              (case ne_file E source of
                 None \<Rightarrow> (Inl (OpenFeed source), [])
               | Some (body, failed) \<Rightarrow> (ParseList body failed expandSlash24, [])))"

definition SlicesContains :: "prefix list \<Rightarrow> prefix \<Rightarrow> bool" where
  "SlicesContains list p = (Masked p \<in> set list)"

section \<open>Expansion is exact\<close>

lemma host_Contains: "Contains (Prefix (Addr4 w) (Some 32)) x \<longleftrightarrow> x = Addr4 w"
  by (auto simp: Contains_4)

lemma mask_split:
  fixes w :: "32 word"
  shows "drop_bit k a = drop_bit k w \<longleftrightarrow> (\<exists>i < 2 ^ k. a = (w AND NOT (mask k)) + of_nat i)"
proof
  have base: "(w AND NOT (mask k)) + take_bit k a = (w AND NOT (mask k)) OR take_bit k a" for a :: "32 word"
    by (rule disjunctive_add) (auto simp: bit_simps)
  {
    assume e: "drop_bit k a = drop_bit k w"
    have "a = (w AND NOT (mask k)) OR take_bit k a"
    proof (rule bit_word_eqI)
      fix n :: nat
      assume "n < LENGTH(32)"
      have "bit a n = bit w n" if "k \<le> n"
        using arg_cong [OF e, of "\<lambda>x. bit x (n - k)"] that by (simp add: bit_drop_bit_eq)
      then show "bit a n = bit ((w AND NOT (mask k)) OR take_bit k a) n"
        using \<open>n < LENGTH(32)\<close> by (auto simp: bit_simps not_less)
    qed
    then have "a = (w AND NOT (mask k)) + of_nat (unat (take_bit k a))" by (simp add: base)
    moreover have "unat (take_bit k a) < 2 ^ k" by (simp add: unsigned_take_bit_eq)
    ultimately show "\<exists>i < 2 ^ k. a = (w AND NOT (mask k)) + of_nat i" by blast
  }
  {
    assume "\<exists>i < 2 ^ k. a = (w AND NOT (mask k)) + of_nat i"
    then obtain i where i: "i < 2 ^ k" "a = (w AND NOT (mask k)) + of_nat i" by blast
    then have "take_bit k (of_nat i :: 32 word) = of_nat i"
      by (metis take_bit_nat_eq_self take_bit_of_nat)
    with i(2) have "a = (w AND NOT (mask k)) OR take_bit k (of_nat i)" using base [of "of_nat i"] by simp
    then show "drop_bit k a = drop_bit k w"
      by (simp add: drop_bit_or drop_bit_and_not_mask drop_bit_take_bit del: drop_bit_and)
  }
qed

lemma of_nat_offset_inj:
  fixes w :: "32 word"
  assumes "k \<le> 32" "i < 2 ^ k" "j < 2 ^ k" "w + of_nat i = w + of_nat j"
  shows "i = j"
proof -
  have "(2 :: nat) ^ k \<le> 2 ^ 32" using assms(1) by (rule power_increasing) simp
  then have "i < 2 ^ LENGTH(32)" "j < 2 ^ LENGTH(32)" using assms(2,3) by simp_all
  moreover have "unat (of_nat i :: 32 word) = unat (of_nat j :: 32 word)" using assms(4) by simp
  ultimately show ?thesis by (simp only: unat_of_nat mod_less)
qed

lemma Expand_v4:
  assumes "16 \<le> b" "b < 32"
  shows "ExpandIPv4ToSlash32 (Prefix (Addr4 w) (Some b)) =
    map (\<lambda>i. Prefix (Addr4 ((w AND NOT (mask (32 - b))) + of_nat i)) (Some 32)) [0 ..< 2 ^ (32 - b)]"
proof -
  have "nat (32 - int b) = 32 - b" by simp
  with assms show ?thesis
    by (simp add: ExpandIPv4ToSlash32_def Let_def Bits_def PrefixFrom_def)
qed

lemma Expand_other:
  "wf_prefix p \<Longrightarrow> prefix_IsValid p \<Longrightarrow> \<not> (Is4 (pfx_addr p) \<and> 16 \<le> Bits p \<and> Bits p < 32) \<Longrightarrow>
   ExpandIPv4ToSlash32 p = [Masked p]"
  by (erule wf_prefix_cases)
    (auto simp: ExpandIPv4ToSlash32_def Let_def Bits_def prefix_IsValid_def)

lemma Expand_hosts:
  assumes "16 \<le> b" "b < 32"
  shows "distinct (ExpandIPv4ToSlash32 (Prefix (Addr4 w) (Some b)))"
    and "length (ExpandIPv4ToSlash32 (Prefix (Addr4 w) (Some b))) = 2 ^ (32 - b)"
    and "q \<in> set (ExpandIPv4ToSlash32 (Prefix (Addr4 w) (Some b))) \<longleftrightarrow>
      (\<exists>a. q = Prefix (Addr4 a) (Some 32) \<and> drop_bit (32 - b) a = drop_bit (32 - b) w)"
proof -
  show "length (ExpandIPv4ToSlash32 (Prefix (Addr4 w) (Some b))) = 2 ^ (32 - b)"
    by (simp add: Expand_v4 [OF assms])
  show "distinct (ExpandIPv4ToSlash32 (Prefix (Addr4 w) (Some b)))"
    unfolding Expand_v4 [OF assms] distinct_map
    by (auto intro!: inj_onI dest: of_nat_offset_inj [of "32 - b", rotated 3])
  show "q \<in> set (ExpandIPv4ToSlash32 (Prefix (Addr4 w) (Some b))) \<longleftrightarrow>
      (\<exists>a. q = Prefix (Addr4 a) (Some 32) \<and> drop_bit (32 - b) a = drop_bit (32 - b) w)"
    unfolding Expand_v4 [OF assms] mask_split by auto
qed

lemma Expand_cover:
  assumes "16 \<le> b" "b < 32"
  shows "(\<exists>q \<in> set (ExpandIPv4ToSlash32 (Prefix (Addr4 w) (Some b))). Contains q x) \<longleftrightarrow>
    Contains (Prefix (Addr4 w) (Some b)) x"
  unfolding Contains_4 [of w b x] Bex_def Expand_hosts(3) [OF assms] by (auto simp: host_Contains)

lemma canonical_host: "canonical (Prefix (Addr4 a) (Some 32))"
proof -
  have "a AND NOT (mask 0) = a" by simp
  then show ?thesis by (simp add: canonical_def prefix_IsValid_def)
qed

section \<open>Parsed lists\<close>

lemma addPrefix_set: "set (addPrefix acc p) = insert (Masked p) (set acc)"
  by (auto simp: addPrefix_def Let_def)

lemma foldl_addPrefix_set: "set (foldl addPrefix acc ps) = set acc \<union> Masked ` set ps"
  by (induction ps arbitrary: acc) (auto simp: addPrefix_set)

lemma foldl_addPrefix_distinct: "distinct acc \<Longrightarrow> distinct (foldl addPrefix acc ps)"
  by (induction ps arbitrary: acc) (auto simp: addPrefix_def Let_def)

lemma parse_line_canonical: "parse_line text = Some p \<Longrightarrow> canonical p"
  by (auto simp: parse_line_def Let_def intro!: canonical_Masked PrefixFrom_valid
      dest: ParsePrefix_wf ParseAddr_valid split: if_splits option.splits)

lemma line_prefixes_canonical:
  assumes "canonical p" "q \<in> set (line_prefixes e p)"
  shows "canonical q"
proof (cases "e \<and> Is4 (pfx_addr p) \<and> Bits p \<ge> 16 \<and> Bits p < 32")
  case True
  then obtain w b where p: "p = Prefix (Addr4 w) (Some b)" "16 \<le> b" "b < 32"
    using canonical_wf [OF assms(1)] canonical_valid [OF assms(1)]
    by - (erule wf_prefix_cases, auto simp: prefix_IsValid_def Bits_def)
  with True assms(2) Expand_hosts(3) [OF p(2,3), of q w] show ?thesis
    by (auto simp: line_prefixes_def canonical_host)
next
  case False
  with assms show ?thesis by (auto simp: line_prefixes_def)
qed

text \<open>The prefixes the lines of a list stand for.\<close>

definition listed :: "bool \<Rightarrow> string list \<Rightarrow> prefix set" where
  "listed e ls = {q. \<exists>text p. text \<in> set ls \<and> parse_line text = Some p \<and> q \<in> set (line_prefixes e p)}"

lemma ParseList_fold:
  "distinct acc \<Longrightarrow>
   distinct (foldl (\<lambda>acc text. case parse_line text of None \<Rightarrow> acc
       | Some p \<Rightarrow> foldl addPrefix acc (line_prefixes e p)) acc ls) \<and>
   set (foldl (\<lambda>acc text. case parse_line text of None \<Rightarrow> acc
       | Some p \<Rightarrow> foldl addPrefix acc (line_prefixes e p)) acc ls) = set acc \<union> listed e ls"
proof (induction ls arbitrary: acc)
  case (Cons l ls)
  have step: "listed e (l # ls) =
      (case parse_line l of None \<Rightarrow> {} | Some p \<Rightarrow> set (line_prefixes e p)) \<union> listed e ls"
    by (auto simp: listed_def split: option.splits)
  show ?case
  proof (cases "parse_line l")
    case None
    with Cons step show ?thesis by simp
  next
    case (Some p)
    have "Masked q = q" if "q \<in> set (line_prefixes e p)" for q
      using line_prefixes_canonical [OF parse_line_canonical [OF Some] that] by (rule canonical_fix)
    then have "Masked ` set (line_prefixes e p) = set (line_prefixes e p)" by force
    with Some step Cons.IH [OF foldl_addPrefix_distinct [OF Cons.prems], of "line_prefixes e p"]
    show ?thesis by (simp add: foldl_addPrefix_set Un_assoc)
  qed
qed (simp add: listed_def)

section \<open>Public addresses\<close>

lemma hex_chars_code:
  "hex_char 0 = CHR ''0''" "hex_char 1 = CHR ''1''" "hex_char (Suc 0) = CHR ''1''" "hex_char 2 = CHR ''2''" "hex_char 4 = CHR ''4''" "hex_char 6 = CHR ''6''"
  "hex_char 8 = CHR ''8''" "hex_char 9 = CHR ''9''" "hex_char 11 = CHR ''b''" "hex_char 12 = CHR ''c''" "hex_char 13 = CHR ''d''"
  "hex_char 15 = CHR ''f''"
  by code_simp+

lemma blocked_dec:
  "dec 64 = ''64''" "dec 96 = ''96''" "dec 48 = ''48''" "dec 23 = ''23''" "dec 32 = ''32''" "dec 16 = ''16''" "dec 7 = ''7''"
  by code_simp+

lemma blocked_texts4:
  "prefix_String (Prefix (Addr4 0x0) (Some 8)) = ''0.0.0.0/8''"
  "prefix_String (Prefix (Addr4 0xa000000) (Some 8)) = ''10.0.0.0/8''"
  "prefix_String (Prefix (Addr4 0x64400000) (Some 10)) = ''100.64.0.0/10''"
  "prefix_String (Prefix (Addr4 0x7f000000) (Some 8)) = ''127.0.0.0/8''"
  "prefix_String (Prefix (Addr4 0xa9fe0000) (Some 16)) = ''169.254.0.0/16''"
  "prefix_String (Prefix (Addr4 0xac100000) (Some 12)) = ''172.16.0.0/12''"
  "prefix_String (Prefix (Addr4 0xc0000000) (Some 24)) = ''192.0.0.0/24''"
  "prefix_String (Prefix (Addr4 0xc0586300) (Some 24)) = ''192.88.99.0/24''"
  "prefix_String (Prefix (Addr4 0xc0000200) (Some 24)) = ''192.0.2.0/24''"
  "prefix_String (Prefix (Addr4 0xc0a80000) (Some 16)) = ''192.168.0.0/16''"
  "prefix_String (Prefix (Addr4 0xc6120000) (Some 15)) = ''198.18.0.0/15''"
  "prefix_String (Prefix (Addr4 0xc6336400) (Some 24)) = ''198.51.100.0/24''"
  "prefix_String (Prefix (Addr4 0xcb007100) (Some 24)) = ''203.0.113.0/24''"
  "prefix_String (Prefix (Addr4 0xf0000000) (Some 4)) = ''240.0.0.0/4''"
  by code_simp+

lemma blocked_texts6:
  "prefix_String (Prefix (Addr6 0x1000000000000000000000000000000 []) (Some 64)) = ''100::/64''"
  "prefix_String (Prefix (Addr6 0x64ff9b000000000000000000000000 []) (Some 96)) = ''64:ff9b::/96''"
  "prefix_String (Prefix (Addr6 0x64ff9b000100000000000000000000 []) (Some 48)) = ''64:ff9b:1::/48''"
  "prefix_String (Prefix (Addr6 0x20010000000000000000000000000000 []) (Some 23)) = ''2001::/23''"
  "prefix_String (Prefix (Addr6 0x20010db8000000000000000000000000 []) (Some 32)) = ''2001:db8::/32''"
  "prefix_String (Prefix (Addr6 0x20020000000000000000000000000000 []) (Some 16)) = ''2002::/16''"
  "prefix_String (Prefix (Addr6 0xfc000000000000000000000000000000 []) (Some 7)) = ''fc00::/7''"
  by (simp_all add: prefix_String_def string6_def groups_def v6u16_def hex_def hex_chars_code blocked_dec)

lemma parse_of_text: "prefix_String p = s \<Longrightarrow> wf_prefix p \<Longrightarrow> prefix_IsValid p \<Longrightarrow> ParsePrefix s = Some p"
  using prefix_text.parse_print by blast

lemma map_filter_parsed:
  "list_all2 (\<lambda>s p. prefix_String p = s \<and> wf_prefix p \<and> prefix_IsValid p) ss ps \<Longrightarrow>
   List.map_filter ParsePrefix ss = ps"
  by (induction rule: list_all2_induct) (simp_all add: parse_of_text List.map_filter_simps)

lemma blockedPrefixes_values: "blockedPrefixes =
    [Prefix (Addr4 0x0) (Some 8),
     Prefix (Addr4 0xa000000) (Some 8),
     Prefix (Addr4 0x64400000) (Some 10),
     Prefix (Addr4 0x7f000000) (Some 8),
     Prefix (Addr4 0xa9fe0000) (Some 16),
     Prefix (Addr4 0xac100000) (Some 12),
     Prefix (Addr4 0xc0000000) (Some 24),
     Prefix (Addr4 0xc0586300) (Some 24),
     Prefix (Addr4 0xc0000200) (Some 24),
     Prefix (Addr4 0xc0a80000) (Some 16),
     Prefix (Addr4 0xc6120000) (Some 15),
     Prefix (Addr4 0xc6336400) (Some 24),
     Prefix (Addr4 0xcb007100) (Some 24),
     Prefix (Addr4 0xf0000000) (Some 4),
     Prefix (Addr6 0x1000000000000000000000000000000 []) (Some 64),
     Prefix (Addr6 0x64ff9b000000000000000000000000 []) (Some 96),
     Prefix (Addr6 0x64ff9b000100000000000000000000 []) (Some 48),
     Prefix (Addr6 0x20010000000000000000000000000000 []) (Some 23),
     Prefix (Addr6 0x20010db8000000000000000000000000 []) (Some 32),
     Prefix (Addr6 0x20020000000000000000000000000000 []) (Some 16),
     Prefix (Addr6 0xfc000000000000000000000000000000 []) (Some 7)]"
  unfolding blockedPrefixes_def
  by (rule map_filter_parsed) (simp add: blocked_texts4 blocked_texts6 wf_prefix_def prefix_IsValid_def)

text \<open>A zone hides an address from every blocked prefix.\<close>

lemma zoned_not_contained: "z \<noteq> [] \<Longrightarrow> Contains p (Addr6 w z) = False"
  by (cases p; cases "pfx_addr p"; cases "pfx_bits p") auto

lemma isPublicIP_Unmap [simp]: "isPublicIP (Unmap a) = isPublicIP a"
proof -
  have "Unmap (Unmap a) = Unmap a" by (cases a) auto
  then show ?thesis by (simp add: isPublicIP_def)
qed

lemma isPublicIP_v4:
  "isPublicIP (Addr4 w) \<longleftrightarrow> \<not> multicast0 (Addr4 w) \<and> \<not> list_ex (\<lambda>p. Contains p (Addr4 w)) blockedPrefixes \<and>
     IsGlobalUnicast (Addr4 w) \<and> \<not> IsPrivate (Addr4 w)"
  by (auto simp: isPublicIP_def Let_def addr_IsValid_def IsGlobalUnicast_def IsMulticast_def)

lemma first_private_None: "first_private as = None \<longleftrightarrow> (\<forall>a \<in> set as. isPublicIP a)"
  by (induction as) auto

lemma check_addresses_None:
  "check_addresses r = None \<longleftrightarrow> (\<exists>a as. r = Some (a # as) \<and> (\<forall>b \<in> set (a # as). isPublicIP b))"
  unfolding check_addresses_def by (auto simp: first_private_None simp del: first_private.simps split: option.split list.split)

lemma publicDial_public: "publicDial E n source = Inr (a, port) \<Longrightarrow> isPublicIP a"
  by (auto simp: publicDial_def check_addresses_None split: option.splits list.splits)

lemma client_Do_public:
  "client_Do E n source = (r, as) \<Longrightarrow> n \<le> 9 \<Longrightarrow> (\<forall>a \<in> set as. isPublicIP a) \<and> length as \<le> 10 - n"
proof (induction E n source arbitrary: r as rule: client_Do.induct)
  case (1 E n source)
  show ?case
  proof (cases "publicDial E n source")
    case (Inl e)
    with "1.prems" show ?thesis by (subst (asm) client_Do.simps) simp
  next
    case (Inr ap)
    obtain a port where ap: "ap = (a, port)" by (cases ap)
    have a: "isPublicIP a" using Inr ap publicDial_public by simp
    show ?thesis
    proof (cases "\<exists>target. ne_answer E n source = Redirect target \<and> Suc n < 10 \<and> ValidatePublicURL E (Suc n) target = None")
      case True
      then obtain target where t: "ne_answer E n source = Redirect target" "\<not> 10 \<le> Suc n"
          "\<not> ValidatePublicURL E (Suc n) target \<noteq> None" by auto
      obtain r' as' where c: "client_Do E (Suc n) target = (r', as')" by fastforce
      with "1.prems" Inr ap t have "as = a # as'" by (subst (asm) client_Do.simps) simp
      moreover have "(\<forall>b \<in> set as'. isPublicIP b) \<and> length as' \<le> 10 - Suc n"
        using "1.IH" [OF Inr ap [symmetric] t c] t(2) by simp
      ultimately show ?thesis using a t(2) by auto
    next
      case False
      with "1.prems" Inr ap have "as = [a]"
        by (subst (asm) client_Do.simps) (auto split: answer.splits if_splits)
      with a "1.prems" show ?thesis by simp
    qed
  qed
qed

section \<open>Properties\<close>

text \<open>C35: Expansion is exact. The prefixes a block is expanded into are distinct and canonical, they cover
  the addresses of the block and no others, there are at most 65536 of them, and an IPv4 block from
  /16 to /31 gives nothing but hosts.\<close>

theorem expand_exact:
  assumes "wf_prefix p" "prefix_IsValid p"
  shows "distinct (ExpandIPv4ToSlash32 p) \<and> length (ExpandIPv4ToSlash32 p) \<le> 65536 \<and>
    (\<forall>q \<in> set (ExpandIPv4ToSlash32 p). canonical q) \<and>
    (\<forall>x. (\<exists>q \<in> set (ExpandIPv4ToSlash32 p). Contains q x) \<longleftrightarrow> Contains p x) \<and>
    (Is4 (pfx_addr p) \<and> 16 \<le> Bits p \<and> Bits p < 32 \<longrightarrow>
       (\<forall>q \<in> set (ExpandIPv4ToSlash32 p). Bits q = 32))"
proof (cases "Is4 (pfx_addr p) \<and> 16 \<le> Bits p \<and> Bits p < 32")
  case False
  show ?thesis
    unfolding Expand_other [OF assms False] using assms False by (auto simp: canonical_Masked Contains_Masked)
next
  case True
  then obtain w b where p: "p = Prefix (Addr4 w) (Some b)" "16 \<le> b" "b < 32"
    using assms by - (erule wf_prefix_cases, auto simp: prefix_IsValid_def Bits_def)
  note E = Expand_hosts(1,2) [OF p(2,3), of w] Expand_hosts(3) [OF p(2,3), where w = w]
  have "(2 :: nat) ^ (32 - b) \<le> 2 ^ 16" using p(2) by (intro power_increasing) auto
  moreover have "(\<exists>q \<in> set (ExpandIPv4ToSlash32 p). Contains q x) \<longleftrightarrow> Contains p x" for x
    unfolding p(1) by (rule Expand_cover [OF p(2,3)])
  ultimately show ?thesis
    using E by (auto simp: p(1) canonical_host Bits_def)
qed

theorem expand_exact_witness:
  "length (ExpandIPv4ToSlash32 (Prefix (Addr4 0xc0a80000) (Some 24))) \<le> 65536"
  using expand_exact [of "Prefix (Addr4 0xc0a80000) (Some 24)"]
  by (simp add: wf_prefix_def prefix_IsValid_def)

text \<open>C36: A parsed list holds exactly the prefixes its lines stand for, each once and canonical, and asking
  for the expansion does not change which addresses the list covers.\<close>

theorem ParseList_exact:
  assumes "ParseList bs failed e = Inr ps"
  shows "distinct ps \<and> (\<forall>p \<in> set ps. canonical p) \<and> set ps = listed e (map drop_cr (scan_raw bs)) \<and>
    (\<exists>qs. ParseList bs failed (\<not> e) = Inr qs \<and>
       (\<forall>x. (\<exists>q \<in> set qs. Contains q x) \<longleftrightarrow> (\<exists>p \<in> set ps. Contains p x)))"
proof -
  let ?ls = "map drop_cr (scan_raw bs)"
  obtain qs where qs: "ParseList bs failed (\<not> e) = Inr qs"
    using assms by (auto simp: ParseList_def split: if_splits)
  have ps: "distinct ps \<and> set ps = listed e ?ls" and qs': "set qs = listed (\<not> e) ?ls"
    using assms qs ParseList_fold [of "[]" _ ?ls] by (auto simp: ParseList_def split: if_splits)
  have "(\<exists>q \<in> set (line_prefixes e' p). Contains q x) \<longleftrightarrow> Contains p x" if can: "canonical p" for e' p x
  proof (cases "e' \<and> Is4 (pfx_addr p) \<and> Bits p \<ge> 16 \<and> Bits p < 32")
    case True
    then obtain w b where p: "p = Prefix (Addr4 w) (Some b)" "16 \<le> b" "b < 32"
      using canonical_wf [OF can] canonical_valid [OF can]
      by - (erule wf_prefix_cases, auto simp: prefix_IsValid_def Bits_def)
    have "line_prefixes e' p = ExpandIPv4ToSlash32 p" using True by (simp add: line_prefixes_def)
    then show ?thesis using Expand_cover [OF p(2,3)] by (simp only: p(1))
  qed (auto simp: line_prefixes_def)
  then have cover: "(\<exists>q \<in> listed e' ?ls. Contains q x) \<longleftrightarrow>
      (\<exists>text p. text \<in> set ?ls \<and> parse_line text = Some p \<and> Contains p x)" for e' x
    unfolding listed_def using parse_line_canonical by blast
  have "\<forall>p \<in> listed e ?ls. canonical p"
    unfolding listed_def using line_prefixes_canonical parse_line_canonical by blast
  then show ?thesis using ps qs qs' cover by auto
qed

theorem ParseList_exact_witness:
  "\<exists>qs. ParseList ''192.0.2.0/24'' False False = Inr [Prefix (Addr4 0xC0000200) (Some 24)] \<and>
     ParseList ''192.0.2.0/24'' False True = Inr qs \<and>
     (\<forall>x. (\<exists>q \<in> set qs. Contains q x) \<longleftrightarrow> Contains (Prefix (Addr4 0xC0000200) (Some 24)) x)"
proof -
  let ?t = "''192.0.2.0/24''" and ?p = "Prefix (Addr4 0xC0000200) (Some 24)"
  have "prefix_String ?p = ?t" by (simp add: blocked_texts4)
  then have p: "ParsePrefix ?t = Some ?p" by (rule parse_of_text) (simp_all add: wf_prefix_def prefix_IsValid_def)
  have t: "TrimSpace ?t = ?t" by code_simp
  have l: "parse_line ?t = Some ?p"
    by (simp add: parse_line_def t p HasPrefix_def mask_eq_exp_minus_1)
  have s: "scan_raw ?t = [?t]" "drop_cr ?t = ?t" by code_simp+
  have "ParseList ?t False False = Inr [?p]"
   using l by (simp add: ParseList_def s too_long_def line_prefixes_def addPrefix_def mask_eq_exp_minus_1)
  with ParseList_exact [OF this] show ?thesis by auto
qed

text \<open>The reserved blocks of the address registries, as ranges: those the checks refuse whatever the zone
  of an address, and those they refuse only without one.\<close>

definition reserved4 :: "(32 word \<times> 32 word) list" where
  "reserved4 =
    [(0x00000000, 0x00FFFFFF), (0x0A000000, 0x0AFFFFFF), (0x64400000, 0x647FFFFF), (0x7F000000, 0x7FFFFFFF),
     (0xA9FE0000, 0xA9FEFFFF), (0xAC100000, 0xAC1FFFFF), (0xC0000000, 0xC00000FF), (0xC0000200, 0xC00002FF),
     (0xC0586300, 0xC05863FF), (0xC0A80000, 0xC0A8FFFF), (0xC6120000, 0xC613FFFF), (0xC6336400, 0xC63364FF),
     (0xCB007100, 0xCB0071FF), (0xE0000000, 0xEFFFFFFF), (0xF0000000, 0xFFFFFFFF)]"

definition reserved6 :: "(128 word \<times> 128 word) list" where
  "reserved6 =
    [(1, 1),
     (0xFC000000000000000000000000000000, 0xFDFFFFFFFFFFFFFFFFFFFFFFFFFFFFFF),
     (0xFE800000000000000000000000000000, 0xFEBFFFFFFFFFFFFFFFFFFFFFFFFFFFFF),
     (0xFF000000000000000000000000000000, 0xFFFFFFFFFFFFFFFFFFFFFFFFFFFFFFFF)]"

definition reserved6_global :: "(128 word \<times> 128 word) list" where
  "reserved6_global =
    [(0, 0),
     (0x0064FF9B000000000000000000000000, 0x0064FF9B0000000000000000FFFFFFFF),
     (0x0064FF9B000100000000000000000000, 0x0064FF9B0001FFFFFFFFFFFFFFFFFFFF),
     (0x01000000000000000000000000000000, 0x0100000000000000FFFFFFFFFFFFFFFF),
     (0x20010000000000000000000000000000, 0x200101FFFFFFFFFFFFFFFFFFFFFFFFFF),
     (0x20010DB8000000000000000000000000, 0x20010DB8FFFFFFFFFFFFFFFFFFFFFFFF),
     (0x20020000000000000000000000000000, 0x2002FFFFFFFFFFFFFFFFFFFFFFFFFFFF)]"

definition in_ranges :: "('a::len word \<times> 'a word) list \<Rightarrow> 'a word \<Rightarrow> bool" where
  "in_ranges rs w = list_ex (\<lambda>(lo, hi). lo \<le> w \<and> w \<le> hi) rs"

fun unreserved :: "addr \<Rightarrow> bool" where
  "unreserved NoAddr = False"
| "unreserved (Addr4 w) = (\<not> in_ranges reserved4 w)"
| "unreserved (Addr6 w z) = (\<not> in_ranges reserved6 w \<and> (z = [] \<longrightarrow> \<not> in_ranges reserved6_global w))"

lemma drop_bit_squeeze:
  fixes w :: "'a::len word"
  assumes "lo \<le> w" "w \<le> hi" "drop_bit k lo = drop_bit k hi"
  shows "drop_bit k w = drop_bit k lo"
proof -
  have "unat lo div 2 ^ k \<le> unat w div 2 ^ k" "unat w div 2 ^ k \<le> unat hi div 2 ^ k"
    using assms(1,2) by (simp_all add: div_le_mono word_le_nat_alt)
  moreover have "unat lo div 2 ^ k = unat hi div 2 ^ k"
    using arg_cong [OF assms(3), of unat] by (simp only: unat_drop_bit_eq drop_bit_eq_div [where 'a = nat])
  ultimately have "unat (drop_bit k w) = unat (drop_bit k lo)"
    by (simp only: unat_drop_bit_eq drop_bit_eq_div [where 'a = nat] le_antisym)
  then show ?thesis by (rule word_unat_eq_iff [THEN iffD2])
qed

lemma and_push_bit:
  fixes w m :: "'a::len word"
  shows "w AND push_bit j m = push_bit j (drop_bit j w AND m)"
  by (intro bit_eqI) (auto simp: bit_simps)

text \<open>The class tests, decided by the leading bits.\<close>

lemma class_bits:
  "drop_bit 28 w = 0xe \<Longrightarrow> multicast0 (Addr4 w)"
  "drop_bit 120 x = 0xff \<Longrightarrow> multicast0 (Addr6 x z)"
  "drop_bit 121 x = 0x7e \<Longrightarrow> private0 (Addr6 x z)"
  "drop_bit 118 x = 0x3fa \<Longrightarrow> link_local0 (Addr6 x z)"
  using and_push_bit [where w = "drop_bit 24 w" and j = 4 and m = "0xf"]
    and_push_bit [where w = "drop_bit 120 x" and j = 1 and m = "0x7f"]
    and_push_bit [where w = "drop_bit 112 x" and j = 6 and m = "0x3ff"]
  by (simp_all add: v4_def v6_def v6u16_def and.assoc)

text \<open>A public address lies in no reserved block.\<close>

lemma public_unreserved4:
  assumes "isPublicIP (Addr4 w)"
  shows "\<not> in_ranges reserved4 w"
proof
  assume "in_ranges reserved4 w"
  then obtain lo hi where r: "(lo, hi) \<in> set reserved4" "lo \<le> w" "w \<le> hi" by (auto simp: in_ranges_def list_ex_iff)
  note squeeze = drop_bit_squeeze [OF r(2,3)]
  have "drop_bit 28 w \<noteq> 0xe" using assms class_bits(1) by (auto simp: isPublicIP_v4)
  with r(1) assms show False
    unfolding isPublicIP_v4 by (auto simp: reserved4_def blockedPrefixes_values Contains_4 squeeze)
qed

lemma public_unreserved6:
  assumes "isPublicIP (Addr6 w z)" "\<not> Is4In6 (Addr6 w z)"
  shows "unreserved (Addr6 w z)"
proof -
  have p: "w \<noteq> 1" "\<not> multicast0 (Addr6 w z)" "\<not> link_local0 (Addr6 w z)" "\<not> private0 (Addr6 w z)"
    "Addr6 w z \<noteq> Addr6 0 []" "\<not> list_ex (\<lambda>p. Contains p (Addr6 w z)) blockedPrefixes"
    using assms by (auto simp: isPublicIP_def Let_def IsGlobalUnicast_def IsMulticast_def IsLoopback_def
        IsLinkLocalUnicast_def IsPrivate_def)
  have "\<not> in_ranges reserved6 w"
  proof
    assume "in_ranges reserved6 w"
    then obtain lo hi where r: "(lo, hi) \<in> set reserved6" "lo \<le> w" "w \<le> hi" by (auto simp: in_ranges_def list_ex_iff)
    note squeeze = drop_bit_squeeze [OF r(2,3)]
    have "drop_bit 120 w \<noteq> 0xff" "drop_bit 121 w \<noteq> 0x7e" "drop_bit 118 w \<noteq> 0x3fa"
      using p(2-4) class_bits(2-4) by blast+
    with r p(1) show False by (auto simp: reserved6_def squeeze)
  qed
  moreover have "\<not> in_ranges reserved6_global w" if "z = []"
  proof
    assume "in_ranges reserved6_global w"
    then obtain lo hi where r: "(lo, hi) \<in> set reserved6_global" "lo \<le> w" "w \<le> hi"
      by (auto simp: in_ranges_def list_ex_iff)
    note squeeze = drop_bit_squeeze [OF r(2,3)]
    from r p(5,6) that show False
      by (auto simp: reserved6_global_def blockedPrefixes_values Contains_6 squeeze)
  qed
  ultimately show ?thesis by simp
qed

lemma public_unreserved: "isPublicIP a \<Longrightarrow> unreserved (Unmap a)"
proof -
  assume a: "isPublicIP a"
  then have u: "isPublicIP (Unmap a)" by simp
  show ?thesis
  proof (cases "Unmap a")
    case NoAddr
    with u show ?thesis by (simp add: isPublicIP_def addr_IsValid_def)
  next
    case (Addr4 w)
    with u public_unreserved4 show ?thesis by simp
  next
    case (Addr6 w z)
    then have "\<not> Is4In6 (Addr6 w z)" by (cases a) (auto split: if_splits)
    with u Addr6 public_unreserved6 show ?thesis by metis
  qed
qed

text \<open>C26: A download connects to no reserved address, but for the zones. Whatever the resolver answers,
  also when its answers change between the check of a URL and the connection, and whatever redirects
  the servers send, \<open>Fetch\<close> connects at most ten times, and each address, without its IPv4 mapping, is
  valid and outside the reserved blocks: the fifteen of IPv4, among them the private, loopback,
  link-local, shared, documentation and multicast ones, the loopback, unique-local, link-local and
  multicast addresses of IPv6, and, for an address without a zone, the unspecified address and the
  discard, translation, protocol, documentation and 6to4 blocks of IPv6.\<close>

theorem Fetch_only_public:
  assumes "Fetch E source e = (r, as)"
  shows "(\<forall>a \<in> set as. unreserved (Unmap a)) \<and> length as \<le> 10"
proof -
  obtain r' as' where c: "client_Do E 0 (TrimSpace source) = (r', as')" by fastforce
  have "as = as' \<or> as = []"
    using assms c by (auto simp: Fetch_def Let_def split: if_splits option.splits sum.splits prod.splits)
  with client_Do_public [OF c] public_unreserved show ?thesis by auto
qed

text \<open>One public server that answers at once.\<close>

definition sample_net :: net_env where
  "sample_net = \<lparr>ne_parse = (\<lambda>_. Some \<lparr>url_Scheme = ''http'', url_Hostname = ''h'', url_User = False\<rparr>),
     ne_split = (\<lambda>_. Some (''h'', ''80'')), ne_checked = (\<lambda>_ _. Some [Addr4 0x08080808]),
     ne_dialled = (\<lambda>_ _. Some [Addr4 0x08080808]), ne_answer = (\<lambda>_ _. Answer 200 [] False), ne_file = Map.empty\<rparr>"

lemma sample_public: "isPublicIP (Addr4 0x08080808)"
  by (simp add: isPublicIP_def addr_IsValid_def IsGlobalUnicast_def IsPrivate_def IsLoopback_def IsLinkLocalUnicast_def
      IsMulticast_def blockedPrefixes_values v4_def)

theorem Fetch_only_public_witness:
  "Fetch sample_net ''http://h/'' False = (Inr [], [Addr4 0x08080808]) \<and> unreserved (Addr4 0x08080808)"
proof -
  have t: "TrimSpace ''http://h/'' = ''http://h/''" by code_simp
  have "client_Do sample_net 0 ''http://h/'' = (Inr (200, [], False), [Addr4 0x08080808])"
    using sample_public
    by (subst client_Do.simps) (simp add: publicDial_def sample_net_def check_addresses_def)
  moreover have "ValidatePublicURL sample_net 0 ''http://h/'' = None"
    using sample_public t
    by (simp add: ValidatePublicURL_def validateURLFormat_def sample_net_def check_addresses_def is_http_def)
  moreover have "ne_parse sample_net ''http://h/'' = Some \<lparr>url_Scheme = ''http'', url_Hostname = ''h'', url_User = False\<rparr>"
    by (simp add: sample_net_def)
  ultimately have "Fetch sample_net ''http://h/'' False = (Inr [], [Addr4 0x08080808])"
    using t by (simp add: Fetch_def is_http_def ParseList_def scan_raw_def Let_def)
  with Fetch_only_public [OF this] show ?thesis by simp
qed

text \<open>A zone opens the guard. An IPv6 address with a zone matches none of the blocked prefixes, so that it
  counts as public as soon as it is global unicast and not unique-local, also inside the blocked
  translation and documentation prefixes whose addresses are refused without a zone.\<close>

theorem zoned_address_escapes:
  assumes "z \<noteq> []" "\<not> Is4In6 (Addr6 w z)" "IsGlobalUnicast (Addr6 w z)" "\<not> IsPrivate (Addr6 w z)"
  shows "isPublicIP (Addr6 w z)"
  using assms
  by (auto simp: isPublicIP_def Let_def addr_IsValid_def zoned_not_contained list_ex_iff IsGlobalUnicast_def)

text \<open>The translation of 127.0.0.1, with and without a zone: a reserved block of IPv6.\<close>

theorem zoned_address_escapes_witness:
  "isPublicIP (Addr6 0x64ff9b00000000000000007f000001 ''eth0'') \<and>
   \<not> isPublicIP (Addr6 0x64ff9b00000000000000007f000001 [])"
proof (rule conjI)
  let ?w = "0x64ff9b00000000000000007f000001 :: 128 word"
  have "\<not> Is4In6 (Addr6 ?w ''eth0'')" by simp
  moreover have "IsGlobalUnicast (Addr6 ?w ''eth0'')" "\<not> IsPrivate (Addr6 ?w ''eth0'')"
    by (simp_all add: IsGlobalUnicast_def IsPrivate_def IsLoopback_def IsLinkLocalUnicast_def IsMulticast_def
        v6_def v6u16_def)
  ultimately show "isPublicIP (Addr6 ?w ''eth0'')" by (intro zoned_address_escapes) simp_all
  show "\<not> isPublicIP (Addr6 ?w [])"
  proof -
    have "Contains (Prefix (Addr6 0x64ff9b000000000000000000000000 []) (Some 96)) (Addr6 ?w [])"
      by (simp add: Contains_6)
    moreover have "Prefix (Addr6 0x64ff9b000000000000000000000000 []) (Some 96) \<in> set blockedPrefixes"
      by (simp add: blockedPrefixes_values)
    moreover have "Unmap (Addr6 ?w []) = Addr6 ?w []" by simp
    ultimately show ?thesis unfolding isPublicIP_def list_ex_iff by metis
  qed
qed

end
