(* ===== verification/Dashboard.thy ===== *)
theory Dashboard
  imports Feed Api_Types Sql_Store Policystore
begin

text \<open>
  \<open>internal/dashboard/http.go\<close>: authorisation, routing and the handlers of the HTTP API. The backend is
  the record of operations that the interfaces of the source name, acting on a state of its own; the
  optional interfaces are options. A JSON body is what \<open>encoding/json\<close> makes of it, SHA-256 is an
  argument. A path is taken without percent-encoding. The locale \<open>backend_laws\<close> says what an
  invariant of the backend needs to survive every request.
\<close>

section \<open>Messages\<close>

record dash_item =
  di_Prefix :: string
  di_List :: string
  di_Source :: string

record dash_config =
  dc_LocalASN :: "32 word"
  dc_RouterID :: string
  dc_ListenRanges :: "string list"
  dc_PeerGroup :: string
  dc_AllowedASNs :: "32 word list"
  dc_MaxSessions :: int
  dc_DefaultPolicy :: string
  dc_DryRun :: bool
  dc_Blocklist :: "string list"
  dc_Whitelist :: "string list"
  dc_Policies :: "dash_item list"
  dc_BlocklistCount :: int
  dc_WhitelistCount :: int

record dash_peer =
  dp_Address :: string
  dp_ASN :: "32 word"
  dp_State :: string

record import_request =
  iq_List :: string
  iq_Source :: string
  iq_ExpandSubnets :: bool
  iq_Apply :: bool

record import_result =
  ir_Applied :: bool
  ir_DryRun :: bool
  ir_Count :: int
  ir_Prefixes :: "string list"

record source_feed =
  sf_ID :: string
  sf_Name :: string
  sf_List :: string
  sf_URL :: string
  sf_Interval :: int
  sf_Enabled :: bool
  sf_LastSync :: string
  sf_NextSync :: string
  sf_PrefixCount :: int
  sf_LastError :: string
  sf_ExpandSubnets :: bool
  sf_Status :: string

record paginated =
  pp_Items :: "dash_item list"
  pp_Total :: int
  pp_Page :: int
  pp_Limit :: int
  pp_TotalPages :: int

record mutate_request =
  mr_Action :: string
  mr_Prefix :: string
  mr_Apply :: bool
  mr_ExpiresAt :: "time option"

record bulk_request =
  br_List :: string
  br_Prefixes :: "string list"
  br_Apply :: bool

section \<open>Backend\<close>

text \<open>An error is its message. A request may mutate the policy several times: the first argument of
  \<open>bk_MutatePolicy\<close> is the number of the call. A paginator that panics returns \<open>None\<close>.\<close>

record 'b feed_backend =
  fb_ListFeeds :: "'b \<Rightarrow> string + source_feed list"
  fb_SaveFeed :: "source_feed \<Rightarrow> 'b \<Rightarrow> (string option \<times> source_feed) \<times> 'b"
  fb_DeleteFeed :: "string \<Rightarrow> 'b \<Rightarrow> string option \<times> 'b"
  fb_SyncFeed :: "string \<Rightarrow> 'b \<Rightarrow> (int \<times> string option) \<times> 'b"

record 'b backend =
  bk_Config :: "'b \<Rightarrow> string + dash_config"
  bk_UpdateConfig :: "dash_config \<Rightarrow> 'b \<Rightarrow> string option \<times> 'b"
  bk_EstablishedPeers :: "'b \<Rightarrow> string + dash_peer list"
  bk_MutatePolicy :: "nat \<Rightarrow> policy_mutation \<Rightarrow> 'b \<Rightarrow> string option \<times> 'b"
  bk_importer :: "(import_request \<Rightarrow> 'b \<Rightarrow> (string + import_result) \<times> 'b) option"
  bk_feeds :: "'b feed_backend option"
  bk_paginator :: "(string \<Rightarrow> string \<Rightarrow> int \<Rightarrow> int \<Rightarrow> 'b \<Rightarrow> (string + paginated) option) option"

section \<open>Requests and replies\<close>

record request =
  rq_Method :: string
  rq_Path :: string
  rq_Authorization :: string
  rq_Query :: "string \<Rightarrow> string"
  rq_Body :: string

record decoders =
  de_put :: "string \<Rightarrow> (bool \<times> dash_config) file_image"
  de_mutate :: "string \<Rightarrow> mutate_request file_image"
  de_import :: "string \<Rightarrow> import_request file_image"
  de_feed :: "string \<Rightarrow> source_feed file_image"
  de_id :: "string \<Rightarrow> string file_image"
  de_bulk :: "string \<Rightarrow> bulk_request file_image"

datatype reply =
    TextError int string
  | JsonError int string
  | JsonConfig dash_config
  | JsonPeers "dash_peer list"
  | JsonPut bool dash_config
  | JsonMutation bool policy_mutation
  | JsonImport import_result
  | JsonFeeds "source_feed list"
  | JsonFeed source_feed
  | JsonDeleted string
  | JsonSynced string int
  | JsonPolicies paginated
  | JsonBulk int string
  | StaticPage
  | StaticFile string
  | RedirectTo string
  | Panicked

text \<open>What a handler sees besides the request and the backend: the clock, the network, and whether
  embedded files are served and which exist.\<close>

record http_env =
  he_decoders :: decoders
  he_net :: net_env
  he_now :: time
  he_static :: bool
  he_exists :: "string \<Rightarrow> bool"

section \<open>Decoding\<close>

definition maxBodyBytes :: nat where
  "maxBodyBytes = 2 ^ 20"

definition decodeJSON :: "(string \<Rightarrow> 'a file_image) \<Rightarrow> request \<Rightarrow> string + 'a" where
  "decodeJSON decode r =
     (if length (rq_Body r) > maxBodyBytes then Inl ''invalid JSON body''
      else case decode (rq_Body r) of
        Undecodable \<Rightarrow> Inl ''invalid JSON body''
      | Trailing _ \<Rightarrow> Inl ''request must contain one JSON value''
      | Document x \<Rightarrow> Inr x)"

text \<open>The value \<open>strconv.Atoi\<close> returns beside its error: 0, or the nearest 64-bit integer.\<close>

definition Atoi_value :: "string \<Rightarrow> int" where
  "Atoi_value s =
     (case Atoi s of
        Some v \<Rightarrow> v
      | None \<Rightarrow>
          let (neg, t) = (case s of c # cs \<Rightarrow> if c = CHR ''-'' then (True, cs)
                                         else if c = CHR ''+'' then (False, cs) else (False, s)
                                  | [] \<Rightarrow> (False, []))
          in if t = [] \<or> \<not> list_all is_digit t then 0
             else if neg then - (2 ^ 63) else 2 ^ 63 - 1)"

section \<open>Authorisation\<close>

definition BearerTokenAuthorizer :: "(string \<Rightarrow> string) \<Rightarrow> string \<Rightarrow> request \<Rightarrow> bool" where
  "BearerTokenAuthorizer sha256 token r =
     (if token = [] then True
      else case cut_byte CHR '' '' (rq_Authorization r) of
        None \<Rightarrow> False
      | Some (scheme, provided) \<Rightarrow>
          if ToLower scheme \<noteq> ''bearer'' \<or> provided = [] \<or> CHR '' '' \<in> set provided then False
          else sha256 provided = sha256 token)"

section \<open>Handlers\<close>

fun ranges_canonical :: "string list \<Rightarrow> bool" where
  "ranges_canonical [] = True"
| "ranges_canonical (raw # raws) =
     (case ParsePrefix raw of
        None \<Rightarrow> False
      | Some p \<Rightarrow> if p \<noteq> Masked p then False else ranges_canonical raws)"

definition validate_dash :: "dash_config \<Rightarrow> string option" where
  "validate_dash c =
     (if dc_LocalASN c = 0 \<or> dc_MaxSessions c < 1 then Some ''local_asn and positive max_sessions are required''
      else if (case ParseAddr (dc_RouterID c) of None \<Rightarrow> True | Some a \<Rightarrow> \<not> Is4 a) then Some ''router_id must be IPv4''
      else if TrimSpace (dc_PeerGroup c) = [] \<or> dc_DefaultPolicy c \<noteq> ''reject'' \<or> length (dc_ListenRanges c) = 0
        then Some ''peer_group, listen_ranges, and default_policy reject are required''
      else if \<not> ranges_canonical (dc_ListenRanges c) then Some ''listen_ranges must contain canonical CIDRs''
      else if 0 \<in> set (dc_AllowedASNs c) then Some ''allowed_asns cannot contain zero''
      else None)"

definition getConfig :: "'b backend \<Rightarrow> 'b \<Rightarrow> reply" where
  "getConfig B b = (case bk_Config B b of Inl _ \<Rightarrow> JsonError 500 ''config unavailable'' | Inr c \<Rightarrow> JsonConfig c)"

definition getPeers :: "'b backend \<Rightarrow> 'b \<Rightarrow> reply" where
  "getPeers B b =
     (case bk_EstablishedPeers B b of Inl _ \<Rightarrow> JsonError 500 ''peer status unavailable'' | Inr ps \<Rightarrow> JsonPeers ps)"

definition putConfig :: "http_env \<Rightarrow> 'b backend \<Rightarrow> request \<Rightarrow> 'b \<Rightarrow> reply \<times> 'b" where
  "putConfig H B r b =
     (case decodeJSON (de_put (he_decoders H)) r of
        Inl e \<Rightarrow> (JsonError 400 e, b)
      | Inr (apply, config) \<Rightarrow>
          (case validate_dash config of
             Some e \<Rightarrow> (JsonError 400 e, b)
           | None \<Rightarrow>
               if apply then
                 (case bk_UpdateConfig B config b of
                    (Some e, b) \<Rightarrow> (JsonError 500 ''configuration not applied'', b)
                  | (None, b) \<Rightarrow> (JsonPut True config, b))
               else (JsonPut False config, b)))"

definition mutation_of :: "string \<Rightarrow> mutate_request \<Rightarrow> policy_mutation" where
  "mutation_of list q =
     \<lparr>pm_Action = mr_Action q, pm_List = list, pm_Prefix = mr_Prefix q, pm_ExpiresAt = mr_ExpiresAt q\<rparr>"

definition mutate_handler :: "http_env \<Rightarrow> 'b backend \<Rightarrow> string \<Rightarrow> request \<Rightarrow> 'b \<Rightarrow> reply \<times> 'b" where
  "mutate_handler H B list r b =
     (case decodeJSON (de_mutate (he_decoders H)) r of
        Inl e \<Rightarrow> (JsonError 400 e, b)
      | Inr q \<Rightarrow>
          if parse_canonical (mr_Prefix q) = None \<or> (mr_Action q \<noteq> ''add'' \<and> mr_Action q \<noteq> ''remove'')
          then (JsonError 400 ''action and canonical CIDR are required'', b)
          else if (case mr_ExpiresAt q of
                     None \<Rightarrow> False
                   | Some t \<Rightarrow> list \<noteq> ''blocklist'' \<or> mr_Action q \<noteq> ''add'' \<or> \<not> t > he_now H)
          then (JsonError 400 ''expires_at requires a future blocklist add'', b)
          else if mr_Apply q then
            (case bk_MutatePolicy B 0 (mutation_of list q) b of
               (Some e, b) \<Rightarrow> (JsonError 500 ''policy not applied'', b)
             | (None, b) \<Rightarrow> (JsonMutation True (mutation_of list q), b))
          else (JsonMutation False (mutation_of list q), b))"

definition importFeed :: "http_env \<Rightarrow> 'b backend \<Rightarrow> request \<Rightarrow> 'b \<Rightarrow> reply \<times> 'b" where
  "importFeed H B r b =
     (case decodeJSON (de_import (he_decoders H)) r of
        Inl e \<Rightarrow> (JsonError 400 e, b)
      | Inr q \<Rightarrow>
          if iq_List q \<noteq> ''blocklist'' \<and> iq_List q \<noteq> ''whitelist'' then
            (JsonError 400 ''list must be blocklist or whitelist'', b)
          else if TrimSpace (iq_Source q) = [] then (JsonError 400 ''source URL or path is required'', b)
          else if ValidatePublicURL (he_net H) 0 (iq_Source q) \<noteq> None then
            (JsonError 400 ''source must be a public HTTP(S) URL'', b)
          else case bk_importer B of
            None \<Rightarrow> (JsonError 501 ''feed import not supported by backend'', b)
          | Some ImportFeed \<Rightarrow>
              (case ImportFeed q b of
                 (Inl e, b) \<Rightarrow> (JsonError 500 e, b)
               | (Inr result, b) \<Rightarrow> (JsonImport result, b)))"

definition getFeeds :: "'b backend \<Rightarrow> 'b \<Rightarrow> reply" where
  "getFeeds B b =
     (case bk_feeds B of
        None \<Rightarrow> JsonFeeds []
      | Some F \<Rightarrow> (case fb_ListFeeds F b of Inl e \<Rightarrow> JsonError 500 e | Inr fs \<Rightarrow> JsonFeeds fs))"

definition saveFeed :: "http_env \<Rightarrow> 'b backend \<Rightarrow> request \<Rightarrow> 'b \<Rightarrow> reply \<times> 'b" where
  "saveFeed H B r b =
     (case bk_feeds B of
        None \<Rightarrow> (JsonError 501 ''feed manager not supported'', b)
      | Some F \<Rightarrow>
          (case decodeJSON (de_feed (he_decoders H)) r of
             Inl e \<Rightarrow> (JsonError 400 e, b)
           | Inr q \<Rightarrow>
               if ValidatePublicURL (he_net H) 0 (sf_URL q) \<noteq> None then
                 (JsonError 400 ''feed URL must be a public HTTP(S) URL'', b)
               else (case fb_SaveFeed F q b of
                       ((Some e, _), b) \<Rightarrow> (JsonError 400 e, b)
                     | ((None, saved), b) \<Rightarrow> (JsonFeed saved, b))))"

definition deleteFeed :: "http_env \<Rightarrow> 'b backend \<Rightarrow> request \<Rightarrow> 'b \<Rightarrow> reply \<times> 'b" where
  "deleteFeed H B r b =
     (case bk_feeds B of
        None \<Rightarrow> (JsonError 501 ''feed manager not supported'', b)
      | Some F \<Rightarrow>
          (case decodeJSON (de_id (he_decoders H)) r of
             Inl e \<Rightarrow> (JsonError 400 ''id is required'', b)
           | Inr fid \<Rightarrow>
               if fid = [] then (JsonError 400 ''id is required'', b)
               else (case fb_DeleteFeed F fid b of
                       (Some e, b) \<Rightarrow> (JsonError 500 e, b)
                     | (None, b) \<Rightarrow> (JsonDeleted fid, b))))"

definition syncFeed :: "http_env \<Rightarrow> 'b backend \<Rightarrow> request \<Rightarrow> 'b \<Rightarrow> reply \<times> 'b" where
  "syncFeed H B r b =
     (case bk_feeds B of
        None \<Rightarrow> (JsonError 501 ''feed manager not supported'', b)
      | Some F \<Rightarrow>
          (case decodeJSON (de_id (he_decoders H)) r of
             Inl e \<Rightarrow> (JsonError 400 ''id is required'', b)
           | Inr fid \<Rightarrow>
               if fid = [] then (JsonError 400 ''id is required'', b)
               else (case fb_SyncFeed F fid b of
                       ((_, Some e), b) \<Rightarrow> (JsonError 500 e, b)
                     | ((n, None), b) \<Rightarrow> (JsonSynced fid n, b))))"

definition getPolicies :: "(request \<Rightarrow> bool) \<Rightarrow> 'b backend \<Rightarrow> request \<Rightarrow> 'b \<Rightarrow> reply" where
  "getPolicies authorize B r b =
     (if \<not> authorize r then JsonError 401 ''unauthorized''
      else case bk_paginator B of
        None \<Rightarrow> JsonError 501 ''paginated policies not supported''
      | Some ListPolicies \<Rightarrow>
          let list = (if rq_Query r ''list'' = [] then ''blocklist'' else rq_Query r ''list'');
              page = Atoi_value (rq_Query r ''page'');
              page = (if page \<le> 0 then 1 else page);
              limit = Atoi_value (rq_Query r ''limit'');
              limit = (if limit \<le> 0 then 25 else limit)
          in case ListPolicies list (rq_Query r ''search'') page limit b of
               None \<Rightarrow> Panicked
             | Some (Inl e) \<Rightarrow> JsonError 500 e
             | Some (Inr res) \<Rightarrow> JsonPolicies res)"

fun bulk_delete_from :: "'b backend \<Rightarrow> string \<Rightarrow> nat \<Rightarrow> string list \<Rightarrow> int \<Rightarrow> 'b \<Rightarrow> int \<times> 'b" where
  "bulk_delete_from B list i [] deleted b = (deleted, b)"
| "bulk_delete_from B list i (p # ps) deleted b =
     (case bk_MutatePolicy B i \<lparr>pm_Action = ''remove'', pm_List = list, pm_Prefix = p, pm_ExpiresAt = None\<rparr> b of
        (None, b) \<Rightarrow> bulk_delete_from B list (Suc i) ps (deleted + 1) b
      | (Some _, b) \<Rightarrow> bulk_delete_from B list (Suc i) ps deleted b)"

definition bulkDeletePolicies :: "http_env \<Rightarrow> 'b backend \<Rightarrow> request \<Rightarrow> 'b \<Rightarrow> reply \<times> 'b" where
  "bulkDeletePolicies H B r b =
     (case decodeJSON (de_bulk (he_decoders H)) r of
        Inl e \<Rightarrow> (JsonError 400 e, b)
      | Inr q \<Rightarrow>
          if br_List q \<noteq> ''blocklist'' \<and> br_List q \<noteq> ''whitelist'' then
            (JsonError 400 ''list must be blocklist or whitelist'', b)
          else
            let (deleted, b) = bulk_delete_from B (br_List q) 0 (br_Prefixes q) 0 b
            in (JsonBulk deleted (br_List q), b))"

text \<open>\<open>path.Ext\<close> is not empty when the last element has a dot.\<close>

definition has_ext :: "string \<Rightarrow> bool" where
  "has_ext name = (CHR ''.'' \<in> set (takeWhile (\<lambda>c. c \<noteq> CHR ''/'') (rev name)))"

definition TrimPrefix :: "string \<Rightarrow> string \<Rightarrow> string" where
  "TrimPrefix s p = (if HasPrefix s p then drop (length p) s else s)"

definition index :: "http_env \<Rightarrow> request \<Rightarrow> reply" where
  "index H r =
     (if \<not> he_static H then StaticPage
      else
        let name = TrimPrefix (filepath_Clean (rq_Path r)) ''/'';
            name = (if name = ''.'' \<or> name = [] then ''index.html'' else name)
        in if he_exists H name then StaticFile name
           else if has_ext name then TextError 404 ''404 page not found''
           else StaticFile ''index.html'')"

section \<open>Routing\<close>

datatype endpoint =
    EpGetConfig | EpPutConfig | EpGetPeers | EpMutateList string | EpImportFeed | EpGetFeeds | EpSaveFeed | EpDeleteFeed
  | EpSyncFeed | EpBulkDelete | EpGetPolicies

definition endpoints :: "(string \<times> string \<times> endpoint) list" where
  "endpoints =
     [(''GET'', ''/config'', EpGetConfig), (''PUT'', ''/config'', EpPutConfig), (''GET'', ''/peers'', EpGetPeers),
      (''POST'', ''/block'', EpMutateList ''blocklist''), (''POST'', ''/whitelist'', EpMutateList ''whitelist''),
      (''POST'', ''/feed'', EpImportFeed), (''GET'', ''/feeds'', EpGetFeeds), (''POST'', ''/feeds'', EpSaveFeed),
      (''POST'', ''/feeds/delete'', EpDeleteFeed), (''POST'', ''/feeds/sync'', EpSyncFeed),
      (''POST'', ''/policies/bulk-delete'', EpBulkDelete), (''GET'', ''/policies'', EpGetPolicies)]"

definition mux_routes :: "(string \<times> string \<times> endpoint) list" where
  "mux_routes = concat (map (\<lambda>prefix. map (\<lambda>(m, p, h). (m, prefix @ p, h)) endpoints) [''/api'', ''/api/v1''])"

text \<open>A pattern for \<open>GET\<close> also matches \<open>HEAD\<close>.\<close>

definition method_matches :: "string \<Rightarrow> string \<Rightarrow> bool" where
  "method_matches pattern m = (pattern = m \<or> pattern = ''GET'' \<and> m = ''HEAD'')"

text \<open>\<open>ServeMux\<close> redirects a path that is not clean and a path whose subtree is registered; it answers
  405 where only the method fails to match.\<close>

definition cleanPath :: "string \<Rightarrow> string" where
  "cleanPath p0 =
     (if p0 = [] then ''/''
      else
        let p = (if hd p0 = CHR ''/'' then p0 else CHR ''/'' # p0); np = filepath_Clean p
        in if last p = CHR ''/'' \<and> np \<noteq> ''/'' then np @ ''/'' else np)"

fun handle :: "http_env \<Rightarrow> (request \<Rightarrow> bool) \<Rightarrow> 'b backend \<Rightarrow> endpoint \<Rightarrow> request \<Rightarrow> 'b \<Rightarrow> reply \<times> 'b" where
  "handle H authorize B EpGetConfig r b = (getConfig B b, b)"
| "handle H authorize B EpPutConfig r b = putConfig H B r b"
| "handle H authorize B EpGetPeers r b = (getPeers B b, b)"
| "handle H authorize B (EpMutateList list) r b = mutate_handler H B list r b"
| "handle H authorize B EpImportFeed r b = importFeed H B r b"
| "handle H authorize B EpGetFeeds r b = (getFeeds B b, b)"
| "handle H authorize B EpSaveFeed r b = saveFeed H B r b"
| "handle H authorize B EpDeleteFeed r b = deleteFeed H B r b"
| "handle H authorize B EpSyncFeed r b = syncFeed H B r b"
| "handle H authorize B EpBulkDelete r b = bulkDeletePolicies H B r b"
| "handle H authorize B EpGetPolicies r b = (getPolicies authorize B r b, b)"

definition find_route :: "string \<Rightarrow> string \<Rightarrow> endpoint option" where
  "find_route m q =
     map_option (\<lambda>(_, _, h). h) (find (\<lambda>(pm, p, h). method_matches pm m \<and> p = q) mux_routes)"

definition unrouted :: "http_env \<Rightarrow> request \<Rightarrow> reply" where
  "unrouted H r =
     (if \<not> method_matches ''GET'' (rq_Method r) then TextError 405 ''Method Not Allowed''
      else if rq_Path r = ''/api'' then RedirectTo ''/api/''
      else if HasPrefix (rq_Path r) ''/api/'' then JsonError 404 ''not found''
      else index H r)"

definition mux_ServeHTTP :: "http_env \<Rightarrow> (request \<Rightarrow> bool) \<Rightarrow> 'b backend \<Rightarrow> request \<Rightarrow> 'b \<Rightarrow> reply \<times> 'b" where
  "mux_ServeHTTP H authorize B r b =
     (if rq_Method r \<noteq> ''CONNECT'' \<and> cleanPath (rq_Path r) \<noteq> rq_Path r then (RedirectTo (cleanPath (rq_Path r)), b)
      else case find_route (rq_Method r) (rq_Path r) of
        Some h \<Rightarrow> handle H authorize B h r b
      | None \<Rightarrow> (unrouted H r, b))"

definition ServeHTTP :: "http_env \<Rightarrow> (request \<Rightarrow> bool) \<Rightarrow> 'b backend \<Rightarrow> request \<Rightarrow> 'b \<Rightarrow> reply \<times> 'b" where
  "ServeHTTP H authorize B r b =
     (if HasPrefix (rq_Path r) ''/api/'' \<and> \<not> authorize r then (TextError 401 ''unauthorized'', b)
      else mux_ServeHTTP H authorize B r b)"

section \<open>Invariants of a backend\<close>

definition named_list :: "string \<Rightarrow> bool" where
  "named_list list = (list = ''blocklist'' \<or> list = ''whitelist'')"

text \<open>The mutations the handlers pass on: additions and removals, with an expiry only on an addition to the
  blocklist.\<close>

definition dashboard_mutation :: "policy_mutation \<Rightarrow> bool" where
  "dashboard_mutation m =
     ((pm_Action m = ''add'' \<or> pm_Action m = ''remove'') \<and> named_list (pm_List m) \<and>
      (pm_ExpiresAt m \<noteq> None \<longrightarrow> pm_Action m = ''add'' \<and> pm_List m = ''blocklist''))"

lemma find_route_mem: "find_route m q = Some h \<Longrightarrow> \<exists>pm. (pm, q, h) \<in> set mux_routes"
  by (auto simp: find_route_def find_Some_iff) (metis nth_mem)

lemma find_route_named: "find_route m q = Some (EpMutateList list) \<Longrightarrow> named_list list"
  by (drule find_route_mem) (auto simp: mux_routes_def endpoints_def named_list_def)

locale backend_laws =
  fixes B :: "'b backend" and I :: "'b \<Rightarrow> bool"
  assumes update_keeps: "I b \<Longrightarrow> I (snd (bk_UpdateConfig B c b))"
    and mutate_keeps: "I b \<Longrightarrow> dashboard_mutation m \<Longrightarrow> I (snd (bk_MutatePolicy B i m b))"
    and import_keeps: "I b \<Longrightarrow> bk_importer B = Some f \<Longrightarrow> named_list (iq_List q) \<Longrightarrow> I (snd (f q b))"
    and save_keeps: "I b \<Longrightarrow> bk_feeds B = Some F \<Longrightarrow> I (snd (fb_SaveFeed F x b))"
    and delete_keeps: "I b \<Longrightarrow> bk_feeds B = Some F \<Longrightarrow> I (snd (fb_DeleteFeed F fid b))"
    and sync_keeps: "I b \<Longrightarrow> bk_feeds B = Some F \<Longrightarrow> I (snd (fb_SyncFeed F fid b))"
begin

lemma calls_keep:
  "bk_UpdateConfig B c b = (e, b') \<Longrightarrow> I b \<Longrightarrow> I b'"
  "bk_MutatePolicy B i m b = (e, b') \<Longrightarrow> I b \<Longrightarrow> dashboard_mutation m \<Longrightarrow> I b'"
  "f q b = (x, b') \<Longrightarrow> bk_importer B = Some f \<Longrightarrow> I b \<Longrightarrow> named_list (iq_List q) \<Longrightarrow> I b'"
  "fb_SaveFeed F s b = (y, b') \<Longrightarrow> bk_feeds B = Some F \<Longrightarrow> I b \<Longrightarrow> I b'"
  "fb_DeleteFeed F fid b = (e, b') \<Longrightarrow> bk_feeds B = Some F \<Longrightarrow> I b \<Longrightarrow> I b'"
  "fb_SyncFeed F fid b = (z, b') \<Longrightarrow> bk_feeds B = Some F \<Longrightarrow> I b \<Longrightarrow> I b'"
  using update_keeps mutate_keeps import_keeps save_keeps delete_keeps sync_keeps by (metis snd_conv)+

lemma put_inv: "I b \<Longrightarrow> I (snd (putConfig H B r b))"
  by (auto simp: putConfig_def split: sum.split option.split prod.split dest: calls_keep(1))

lemma mutate_inv: "I b \<Longrightarrow> named_list list \<Longrightarrow> I (snd (mutate_handler H B list r b))"
  by (auto simp: mutate_handler_def dashboard_mutation_def mutation_of_def split: sum.split option.split prod.split
      dest: calls_keep(2))

lemma import_inv: "I b \<Longrightarrow> I (snd (importFeed H B r b))"
  by (auto simp: importFeed_def named_list_def split: sum.split option.split prod.split dest: calls_keep(3))

lemma feeds_inv:
  "I b \<Longrightarrow> I (snd (saveFeed H B r b))" "I b \<Longrightarrow> I (snd (deleteFeed H B r b))" "I b \<Longrightarrow> I (snd (syncFeed H B r b))"
  by (auto simp: saveFeed_def deleteFeed_def syncFeed_def split: sum.split option.split prod.split
      dest: calls_keep(4-6))

lemma bulk_from_inv: "I b \<Longrightarrow> named_list list \<Longrightarrow> I (snd (bulk_delete_from B list i ps n b))"
proof (induction ps arbitrary: i n b)
  case (Cons p ps)
  let ?m = "\<lparr>pm_Action = ''remove'', pm_List = list, pm_Prefix = p, pm_ExpiresAt = None\<rparr>"
  obtain e b' where call: "bk_MutatePolicy B i ?m b = (e, b')" by fastforce
  have "I b'" using calls_keep(2) [OF call] Cons.prems by (simp add: dashboard_mutation_def)
  then show ?case using Cons.IH Cons.prems(2) call by (simp split: option.split)
qed simp

lemma bulk_inv: "I b \<Longrightarrow> I (snd (bulkDeletePolicies H B r b))"
proof (cases "decodeJSON (de_bulk (he_decoders H)) r")
  case (Inr q)
  assume b: "I b"
  obtain n b' where run: "bulk_delete_from B (br_List q) 0 (br_Prefixes q) 0 b = (n, b')" by fastforce
  then have "named_list (br_List q) \<Longrightarrow> I b'" using bulk_from_inv [OF b] by (metis snd_conv)
  with b Inr run show ?thesis by (simp add: bulkDeletePolicies_def named_list_def)
qed (simp add: bulkDeletePolicies_def)

lemma handle_inv: "I b \<Longrightarrow> (\<And>list. h = EpMutateList list \<Longrightarrow> named_list list) \<Longrightarrow> I (snd (handle H authorize B h r b))"
  by (cases h) (auto intro: put_inv mutate_inv import_inv feeds_inv bulk_inv)

lemma ServeHTTP_inv: "I b \<Longrightarrow> I (snd (ServeHTTP H authorize B r b))"
proof (cases "find_route (rq_Method r) (rq_Path r)")
  case (Some h)
  assume b: "I b"
  have "I (snd (handle H authorize B h r b))"
    using b Some find_route_named by (intro handle_inv) auto
  with b Some show ?thesis by (simp add: ServeHTTP_def mux_ServeHTTP_def)
qed (simp add: ServeHTTP_def mux_ServeHTTP_def)

end

section \<open>Properties\<close>

lemma mux_routes_api: "\<forall>(m, p, h) \<in> set mux_routes. HasPrefix p ''/api/''"
  by (simp add: mux_routes_def endpoints_def HasPrefix_def)

lemma find_route_api: "\<not> HasPrefix q ''/api/'' \<Longrightarrow> find_route m q = None"
  using mux_routes_api find_route_mem by (cases "find_route m q") fastforce+

lemma authorised_header:
  assumes "BearerTokenAuthorizer sha256 token r" "token \<noteq> []"
  shows "\<exists>scheme provided. rq_Authorization r = scheme @ CHR '' '' # provided \<and> ToLower scheme = ''bearer'' \<and>
    CHR '' '' \<notin> set provided \<and> sha256 provided = sha256 token"
  using assms by (auto simp: BearerTokenAuthorizer_def split: option.splits if_splits dest!: cut_byte_Some)

text \<open>C11: a caller without the token neither changes nor learns anything. When a token is set and the
  request carries no header \<open>Bearer\<close> with a token of the same SHA-256 hash, the reply is the same for
  every backend in every state, and the backend stays as it is.\<close>

theorem unauthorised_learns_nothing:
  assumes "token \<noteq> []"
    and "\<And>scheme provided. rq_Authorization r = scheme @ CHR '' '' # provided \<Longrightarrow> ToLower scheme = ''bearer''
      \<Longrightarrow> sha256 provided \<noteq> sha256 token"
  shows "\<exists>reply. \<forall>B b. ServeHTTP H (BearerTokenAuthorizer sha256 token) B r b = (reply, b)"
proof -
  have no: "\<not> BearerTokenAuthorizer sha256 token r" using authorised_header [OF _ assms(1)] assms(2) by blast
  show ?thesis
  proof (cases "HasPrefix (rq_Path r) ''/api/''")
    case True
    with no show ?thesis by (simp add: ServeHTTP_def)
  next
    case False
    then show ?thesis
      by (auto simp: ServeHTTP_def mux_ServeHTTP_def find_route_api)
  qed
qed

definition sample_request :: request where
  "sample_request = \<lparr>rq_Method = ''POST'', rq_Path = ''/api/block'', rq_Authorization = ''Bearer guess'',
     rq_Query = (\<lambda>_. []), rq_Body = ''{}''\<rparr>"

theorem unauthorised_learns_nothing_witness:
  "\<forall>H. \<exists>reply. \<forall>B (b :: nat).
     ServeHTTP H (BearerTokenAuthorizer (\<lambda>s. s) ''secret'') B sample_request b = (reply, b)"
proof (intro allI, rule unauthorised_learns_nothing)
  show "provided \<noteq> ''secret''" if "rq_Authorization sample_request = scheme @ CHR '' '' # provided" for scheme provided
    using that by (auto simp: sample_request_def append_eq_Cons_conv Cons_eq_append_conv)
qed simp_all

text \<open>A token that contains a space authorises nobody, unless SHA-256 collides on it: the header is cut at
  its first space and a rest with another space is refused.\<close>

theorem spaced_token_locks_out:
  assumes "CHR '' '' \<in> set token" "BearerTokenAuthorizer sha256 token r"
  shows "\<exists>s. s \<noteq> token \<and> sha256 s = sha256 token"
  using authorised_header [OF assms(2)] assms(1) by (metis empty_iff empty_set)

end
