(* ===== verification/Go_Flag.thy ===== *)
theory Go_Flag
  imports Netip_Text
begin

text \<open>
  The parts of Go's standard library that reading a configuration rests on: \<open>strconv.ParseBool\<close>,
  \<open>strconv.ParseInt\<close> with base 0 (what an integer flag accepts), \<open>net.SplitHostPort\<close> and the parser of
  package \<open>flag\<close>. An error is \<open>None\<close> where the source only passes it on.
\<close>

section \<open>Values\<close>

definition ParseBool :: "string \<Rightarrow> bool option" where
  "ParseBool s =
     (if s \<in> {''1'', ''t'', ''T'', ''TRUE'', ''true'', ''True''} then Some True
      else if s \<in> {''0'', ''f'', ''F'', ''FALSE'', ''false'', ''False''} then Some False
      else None)"

text \<open>The value of a digit or letter in a base up to 36.\<close>

definition digit36 :: "char \<Rightarrow> nat option" where
  "digit36 c =
     (if is_digit c then Some (code c - 48)
      else if 97 \<le> code c \<and> code c \<le> 122 then Some (code c - 87)
      else if 65 \<le> code c \<and> code c \<le> 90 then Some (code c - 55)
      else None)"

fun based_val :: "nat \<Rightarrow> nat \<Rightarrow> string \<Rightarrow> nat option" where
  "based_val b acc [] = Some acc"
| "based_val b acc (c # cs) =
     (if c = CHR ''_'' then based_val b acc cs
      else case digit36 c of
        None \<Rightarrow> None
      | Some d \<Rightarrow> if d < b then based_val b (acc * b + d) cs else None)"

text \<open>\<open>underscoreOK\<close> on the digits of a literal: an underscore follows a digit or the base prefix
  (\<open>prev\<close> then holds at the start) and precedes a digit.\<close>

fun underscores_ok :: "bool \<Rightarrow> string \<Rightarrow> bool" where
  "underscores_ok prev [] = True"
| "underscores_ok prev (c # cs) =
     (if c = CHR ''_'' then prev \<and> cs \<noteq> [] \<and> underscores_ok False cs
      else underscores_ok True cs)"

definition base_prefix :: "string \<Rightarrow> nat \<times> bool \<times> string" where
  "base_prefix s =
     (if length s \<ge> 3 \<and> hd s = CHR ''0'' \<and> s ! 1 \<in> {CHR ''b'', CHR ''B''} then (2, True, drop 2 s)
      else if length s \<ge> 3 \<and> hd s = CHR ''0'' \<and> s ! 1 \<in> {CHR ''o'', CHR ''O''} then (8, True, drop 2 s)
      else if length s \<ge> 3 \<and> hd s = CHR ''0'' \<and> s ! 1 \<in> {CHR ''x'', CHR ''X''} then (16, True, drop 2 s)
      else if s \<noteq> [] \<and> hd s = CHR ''0'' then (8, True, tl s)
      else (10, False, s))"

definition ParseUint0 :: "string \<Rightarrow> nat option" where
  "ParseUint0 s =
     (let (b, prev, digits) = base_prefix s in
      if s = [] \<or> \<not> underscores_ok prev digits then None
      else case based_val b 0 digits of
        None \<Rightarrow> None
      | Some n \<Rightarrow> if n < 2 ^ 64 then Some n else None)"

definition ParseInt0 :: "string \<Rightarrow> int option" where
  "ParseInt0 s =
     (let (neg, t) = (case s of c # cs \<Rightarrow> if c = CHR ''-'' then (True, cs)
                                     else if c = CHR ''+'' then (False, cs) else (False, s)
                              | [] \<Rightarrow> (False, []))
      in case ParseUint0 t of
           None \<Rightarrow> None
         | Some n \<Rightarrow>
             if neg then (if n \<le> 2 ^ 63 then Some (- int n) else None)
             else (if n < 2 ^ 63 then Some (int n) else None))"

section \<open>Host and port\<close>

definition SplitHostPort :: "string \<Rightarrow> (string \<times> string) option" where
  "SplitHostPort hostport =
     (case cut_last CHR '':'' hostport of
        None \<Rightarrow> None
      | Some (front, port) \<Rightarrow>
          (case hostport of
             c # rest \<Rightarrow>
               if c = CHR ''['' then
                 (case cut_byte CHR '']'' rest of
                    None \<Rightarrow> None
                  | Some (host, tail) \<Rightarrow>
                      if tail \<noteq> CHR '':'' # port \<or> CHR ''['' \<in> set rest \<or> CHR '']'' \<in> set tail
                      then None else Some (host, port))
               else if CHR '':'' \<in> set front \<or> CHR ''['' \<in> set hostport \<or> CHR '']'' \<in> set hostport
               then None else Some (front, port)
           | [] \<Rightarrow> None))"

section \<open>Flags\<close>

text \<open>A flag sets a variable of \<open>'s\<close> from its text, or refuses it; a boolean flag needs no value.\<close>

record 's flag_def =
  fl_name :: string
  fl_bool :: bool
  fl_set :: "string \<Rightarrow> 's \<Rightarrow> 's option"

datatype flag_error = BadFlagSyntax | ErrHelp | FlagNotDefined string | BadFlagValue string | FlagNeedsArgument string

definition StringVar :: "(string \<Rightarrow> 's \<Rightarrow> 's) \<Rightarrow> string \<Rightarrow> 's flag_def" where
  "StringVar upd name = \<lparr>fl_name = name, fl_bool = False, fl_set = (\<lambda>v s. Some (upd v s))\<rparr>"

definition ParsedVar :: "bool \<Rightarrow> (string \<Rightarrow> 'v option) \<Rightarrow> ('v \<Rightarrow> 's \<Rightarrow> 's) \<Rightarrow> string \<Rightarrow> 's flag_def" where
  "ParsedVar b parse upd name =
     \<lparr>fl_name = name, fl_bool = b, fl_set = (\<lambda>v s. map_option (\<lambda>x. upd x s) (parse v))\<rparr>"

definition set_flag :: "'s flag_def \<Rightarrow> string \<Rightarrow> 's \<Rightarrow> flag_error + 's" where
  "set_flag f v s = (case fl_set f v s of None \<Rightarrow> Inl (BadFlagValue (fl_name f)) | Some s' \<Rightarrow> Inr s')"

text \<open>The name and, after an equals sign that is not its first character, the value.\<close>

definition split_flag :: "string \<Rightarrow> string \<times> string option" where
  "split_flag name =
     (case cut_byte CHR ''='' (tl name) of
        None \<Rightarrow> (name, None)
      | Some (a, v) \<Rightarrow> (hd name # a, Some v))"

text \<open>\<open>FlagSet.Parse\<close>: the variables and the arguments left over.\<close>

fun parse_flags :: "'s flag_def list \<Rightarrow> string list \<Rightarrow> 's \<Rightarrow> flag_error + ('s \<times> string list)" where
  "parse_flags fs [] s = Inr (s, [])"
| "parse_flags fs (a # args) s =
     (if length a < 2 \<or> hd a \<noteq> CHR ''-'' then Inr (s, a # args)
      else if a = ''--'' then Inr (s, args)
      else
        let text = (if a ! 1 = CHR ''-'' then drop 2 a else tl a) in
        if text = [] \<or> hd text = CHR ''-'' \<or> hd text = CHR ''='' then Inl BadFlagSyntax
        else
          let (name, val) = split_flag text in
          case find (\<lambda>f. fl_name f = name) fs of
            None \<Rightarrow> Inl (if name = ''help'' \<or> name = ''h'' then ErrHelp else FlagNotDefined name)
          | Some f \<Rightarrow>
              (case val of
                 Some v \<Rightarrow>
                   (case set_flag f v s of Inl e \<Rightarrow> Inl e | Inr s' \<Rightarrow> parse_flags fs args s')
               | None \<Rightarrow>
                   if fl_bool f then
                     (case set_flag f ''true'' s of Inl e \<Rightarrow> Inl e | Inr s' \<Rightarrow> parse_flags fs args s')
                   else case args of
                     [] \<Rightarrow> Inl (FlagNeedsArgument name)
                   | v # args' \<Rightarrow>
                       (case set_flag f v s of Inl e \<Rightarrow> Inl e | Inr s' \<Rightarrow> parse_flags fs args' s')))"

section \<open>Laws\<close>

lemma parse_flags_none [simp]: "parse_flags fs [] s = Inr (s, [])"
  by simp

lemma ParseBool_True [simp]: "ParseBool ''true'' = Some True"
  by (simp add: ParseBool_def)

lemma SplitHostPort_join:
  assumes "CHR '':'' \<notin> set host" "CHR ''['' \<notin> set host" "CHR '']'' \<notin> set host"
    and "CHR '':'' \<notin> set port" "CHR ''['' \<notin> set port" "CHR '']'' \<notin> set port"
  shows "SplitHostPort (host @ CHR '':'' # port) = Some (host, port)"
  using assms by (cases host) (auto simp: SplitHostPort_def cut_last_append [of _ port host]
      cut_last_append [of _ port "[]", simplified] cut_last_append [of _ port "c # cs" for c cs, simplified])

lemma SplitHostPort_bracket:
  assumes "CHR ''['' \<notin> set host" "CHR '']'' \<notin> set host"
    and "CHR '':'' \<notin> set port" "CHR ''['' \<notin> set port" "CHR '']'' \<notin> set port"
  shows "SplitHostPort (CHR ''['' # host @ CHR '']'' # CHR '':'' # port) = Some (host, port)"
proof -
  have "cut_last CHR '':'' (CHR ''['' # host @ CHR '']'' # CHR '':'' # port)
      = Some (CHR ''['' # host @ [CHR '']''], port)"
    using cut_last_append [of "CHR '':''" port "CHR ''['' # host @ [CHR '']'']"] assms by simp
  moreover have "cut_byte CHR '']'' (host @ CHR '']'' # CHR '':'' # port) = Some (host, CHR '':'' # port)"
    using assms by (intro cut_byte_append) auto
  ultimately show ?thesis using assms by (simp add: SplitHostPort_def)
qed

end
