(* ===== verification/Runtime_Config.thy ===== *)
theory Runtime_Config
  imports Go_Flag Bgp_Engine Agent_Rpc
begin

text \<open>
  \<open>internal/runtime/config.go\<close>: the settings of both programs, read from the environment and from
  flags, and their validation. \<open>os.Getenv\<close> is a function from names to values, empty where unset;
  \<open>time.ParseDuration\<close>, whose fractions go through floating point, is an argument. Durations are
  in nanoseconds.
\<close>

section \<open>Settings\<close>

record settings =
  c_LocalASN :: "32 word"
  c_RouterID :: addr
  c_BGPListenAddress :: string
  c_HTTPListenAddress :: string
  c_SyncListenAddress :: string
  c_SyncServerAddress :: string
  c_ListenRanges :: "prefix list"
  c_AllowedASNs :: "32 word list"
  c_MaxSessions :: int
  c_SyncMaxMessageBytes :: int
  c_SyncMaxInFlight :: int
  c_ReconnectMin :: int
  c_ReconnectMax :: int
  c_PolicyFile :: string
  c_CursorFile :: string
  c_DryRun :: bool
  c_ShutdownTimeout :: int
  c_InsecureListen :: bool
  c_RTBHNextHopV4 :: addr
  c_RTBHNextHopV6 :: addr
  c_BlocklistFeed :: string
  c_WhitelistFeed :: string
  c_FeedInterval :: int
  c_WhitelistExpandSlash24 :: bool
  c_DBDriver :: string
  c_DBDSN :: string
  c_APIToken :: string

definition Millisecond :: int where "Millisecond = 1000000"
definition Second :: int where "Second = 1000 * Millisecond"

definition defaultMaxMessageBytes :: int where "defaultMaxMessageBytes = 2 ^ 20"
definition defaultMaxInFlight :: int where "defaultMaxInFlight = 16"

definition DefaultConfig :: settings where
  "DefaultConfig =
     \<lparr>c_LocalASN = 65000, c_RouterID = Addr4 0xC0000201,
      c_BGPListenAddress = ''127.0.0.1:4179'', c_HTTPListenAddress = ''127.0.0.1:8080'',
      c_SyncListenAddress = ''127.0.0.1:17900'', c_SyncServerAddress = ''127.0.0.1:17900'',
      c_ListenRanges = [Prefix (Addr4 0x7F000000) (Some 24)], c_AllowedASNs = [],
      c_MaxSessions = 8, c_SyncMaxMessageBytes = defaultMaxMessageBytes,
      c_SyncMaxInFlight = defaultMaxInFlight, c_ReconnectMin = 250 * Millisecond,
      c_ReconnectMax = 5 * Second, c_PolicyFile = [], c_CursorFile = [], c_DryRun = True,
      c_ShutdownTimeout = 5 * Second, c_InsecureListen = False, c_RTBHNextHopV4 = NoAddr,
      c_RTBHNextHopV6 = Addr6 1 [], c_BlocklistFeed = [], c_WhitelistFeed = [], c_FeedInterval = 0,
      c_WhitelistExpandSlash24 = True, c_DBDriver = [], c_DBDSN = [], c_APIToken = []\<rparr>"

datatype configMode = configAll | configServer | configAgent

datatype config_error =
    BadEnvironment string
  | NextHopFamily string
  | RangeNotCanonical string
  | BadAllowedASN string
  | BadFlag flag_error
  | UnexpectedArguments "string list"
  | BadLocalASN
  | RouterNotIPv4
  | SyncLimits
  | StorageRequired
  | ASNOrSessions
  | RouterOrRange
  | RangesNotCanonical
  | AllowedASNZero
  | ShutdownTimeoutNotPositive
  | BadListenAddress
  | NotLoopback string
  | ReconnectBounds
  | BadSyncServer

section \<open>Lists in text\<close>

definition splitCSV :: "string \<Rightarrow> string list" where
  "splitCSV raw = (if TrimSpace raw = [] then [] else map TrimSpace (split_byte CHR '','' raw))"

fun parse_parts :: "(string \<Rightarrow> config_error + 'a) \<Rightarrow> string list \<Rightarrow> config_error + 'a list" where
  "parse_parts f [] = Inr []"
| "parse_parts f (part # parts) =
     (case f part of
        Inl e \<Rightarrow> Inl e
      | Inr x \<Rightarrow> (case parse_parts f parts of Inl e \<Rightarrow> Inl e | Inr xs \<Rightarrow> Inr (x # xs)))"

definition parse_range :: "string \<Rightarrow> config_error + prefix" where
  "parse_range part =
     (case ParsePrefix part of
        None \<Rightarrow> Inl (RangeNotCanonical part)
      | Some p \<Rightarrow> if p \<noteq> Masked p then Inl (RangeNotCanonical part) else Inr p)"

definition parsePrefixes :: "string \<Rightarrow> config_error + prefix list" where
  "parsePrefixes raw = parse_parts parse_range (splitCSV raw)"

definition parse_asn :: "string \<Rightarrow> config_error + 32 word" where
  "parse_asn part =
     (case ParseUint10 32 part of
        None \<Rightarrow> Inl (BadAllowedASN part)
      | Some v \<Rightarrow> if v = 0 then Inl (BadAllowedASN part) else Inr (of_nat v))"

definition parseASNs :: "string \<Rightarrow> config_error + 32 word list" where
  "parseASNs raw = parse_parts parse_asn (splitCSV raw)"

definition joinPrefixes :: "prefix list \<Rightarrow> string" where
  "joinPrefixes prefixes = join '','' (map prefix_String prefixes)"

definition joinASNs :: "32 word list \<Rightarrow> string" where
  "joinASNs asns = join '','' (map (\<lambda>a. dec (unat a)) asns)"

definition parseNextHop :: "string \<Rightarrow> addr \<Rightarrow> config_error + addr" where
  "parseNextHop raw fallback =
     (if raw = [] then Inr fallback
      else case ParseAddr raw of
        None \<Rightarrow> Inl (NextHopFamily raw)
      | Some nextHop \<Rightarrow> if Is4 nextHop \<noteq> Is4 fallback then Inl (NextHopFamily raw) else Inr nextHop)"

section \<open>Environment\<close>

type_synonym environment = "string \<Rightarrow> string"

text \<open>\<open>envInt\<close>, \<open>envUint32\<close>, \<open>envBool\<close> and \<open>envDuration\<close> differ in the parser only.\<close>

definition env_value :: "(string \<Rightarrow> 'v option) \<Rightarrow> environment \<Rightarrow> string \<Rightarrow> 'v \<Rightarrow> config_error + 'v" where
  "env_value parse env key fallback =
     (if env key = [] then Inr fallback
      else case parse (env key) of None \<Rightarrow> Inl (BadEnvironment key) | Some v \<Rightarrow> Inr v)"

definition envInt :: "environment \<Rightarrow> string \<Rightarrow> int \<Rightarrow> config_error + int" where
  "envInt = env_value Atoi"

definition envUint32 :: "environment \<Rightarrow> string \<Rightarrow> 32 word \<Rightarrow> config_error + 32 word" where
  "envUint32 = env_value (\<lambda>s. map_option of_nat (ParseUint10 32 s))"

definition envBool :: "environment \<Rightarrow> string \<Rightarrow> bool \<Rightarrow> config_error + bool" where
  "envBool = env_value ParseBool"

definition envDuration :: "(string \<Rightarrow> int option) \<Rightarrow> environment \<Rightarrow> string \<Rightarrow> int \<Rightarrow> config_error + int" where
  "envDuration pd = env_value pd"

definition applyStringEnv :: "environment \<Rightarrow> string \<Rightarrow> string \<Rightarrow> string" where
  "applyStringEnv env key target = (if env key = [] then target else env key)"

text \<open>One assignment of \<open>applyEnvironment\<close>; they run in order until one fails.\<close>

type_synonym env_step = "settings \<Rightarrow> config_error + settings"

definition env_set :: "('v \<Rightarrow> settings \<Rightarrow> settings) \<Rightarrow> (settings \<Rightarrow> config_error + 'v) \<Rightarrow> env_step" where
  "env_set upd get c = (case get c of Inl e \<Rightarrow> Inl e | Inr v \<Rightarrow> Inr (upd v c))"

fun run_steps_env :: "env_step list \<Rightarrow> settings \<Rightarrow> config_error + settings" where
  "run_steps_env [] c = Inr c"
| "run_steps_env (f # fs) c = (case f c of Inl e \<Rightarrow> Inl e | Inr c' \<Rightarrow> run_steps_env fs c')"

text \<open>The variables whose parser fails with the key's own message.\<close>

definition env_parsed :: "(string \<Rightarrow> config_error + 'v) \<Rightarrow> environment \<Rightarrow> string \<Rightarrow> 'v \<Rightarrow> config_error + 'v" where
  "env_parsed parse env key current =
     (if env key = [] then Inr current
      else case parse (env key) of Inl _ \<Rightarrow> Inl (BadEnvironment key) | Inr v \<Rightarrow> Inr v)"

definition parse_addr :: "string \<Rightarrow> config_error + addr" where
  "parse_addr s = (case ParseAddr s of None \<Rightarrow> Inl (BadEnvironment s) | Some a \<Rightarrow> Inr a)"

definition env_steps :: "(string \<Rightarrow> int option) \<Rightarrow> environment \<Rightarrow> env_step list" where
  "env_steps pd env =
    [env_set (\<lambda>v. c_LocalASN_update (\<lambda>_. v)) (\<lambda>c. envUint32 env ''RTBH_LOCAL_ASN'' (c_LocalASN c)),
     env_set (\<lambda>v. c_RouterID_update (\<lambda>_. v)) (\<lambda>c. env_parsed parse_addr env ''RTBH_ROUTER_ID'' (c_RouterID c)),
     Inr \<circ> c_BGPListenAddress_update (applyStringEnv env ''RTBH_BGP_LISTEN''),
     Inr \<circ> c_HTTPListenAddress_update (applyStringEnv env ''RTBH_HTTP_LISTEN''),
     Inr \<circ> c_SyncListenAddress_update (applyStringEnv env ''RTBH_SYNC_LISTEN''),
     Inr \<circ> c_SyncServerAddress_update (applyStringEnv env ''RTBH_SYNC_SERVER''),
     env_set (\<lambda>v. c_ListenRanges_update (\<lambda>_. v)) (\<lambda>c. env_parsed parsePrefixes env ''RTBH_LISTEN_RANGES'' (c_ListenRanges c)),
     env_set (\<lambda>v. c_AllowedASNs_update (\<lambda>_. v)) (\<lambda>c. env_parsed parseASNs env ''RTBH_ALLOWED_ASNS'' (c_AllowedASNs c)),
     env_set (\<lambda>v. c_MaxSessions_update (\<lambda>_. v)) (\<lambda>c. envInt env ''RTBH_MAX_SESSIONS'' (c_MaxSessions c)),
     env_set (\<lambda>v. c_SyncMaxMessageBytes_update (\<lambda>_. v)) (\<lambda>c. envInt env ''RTBH_MAX_MESSAGE_BYTES'' (c_SyncMaxMessageBytes c)),
     env_set (\<lambda>v. c_SyncMaxInFlight_update (\<lambda>_. v)) (\<lambda>c. envInt env ''RTBH_MAX_IN_FLIGHT'' (c_SyncMaxInFlight c)),
     env_set (\<lambda>v. c_ReconnectMin_update (\<lambda>_. v)) (\<lambda>c. envDuration pd env ''RTBH_RECONNECT_MIN'' (c_ReconnectMin c)),
     env_set (\<lambda>v. c_ReconnectMax_update (\<lambda>_. v)) (\<lambda>c. envDuration pd env ''RTBH_RECONNECT_MAX'' (c_ReconnectMax c)),
     Inr \<circ> c_PolicyFile_update (applyStringEnv env ''RTBH_POLICY_FILE''),
     Inr \<circ> c_DBDriver_update (applyStringEnv env ''RTBH_DB_DRIVER''),
     Inr \<circ> c_DBDSN_update (applyStringEnv env ''RTBH_DB_DSN''),
     Inr \<circ> c_APIToken_update (applyStringEnv env ''RTBH_API_TOKEN''),
     Inr \<circ> c_CursorFile_update (applyStringEnv env ''RTBH_CURSOR_FILE''),
     env_set (\<lambda>v. c_DryRun_update (\<lambda>_. v)) (\<lambda>c. envBool env ''RTBH_DRY_RUN'' (c_DryRun c)),
     env_set (\<lambda>v. c_InsecureListen_update (\<lambda>_. v)) (\<lambda>c. envBool env ''RTBH_INSECURE_LISTEN'' (c_InsecureListen c)),
     Inr \<circ> c_BlocklistFeed_update (applyStringEnv env ''RTBH_BLOCKLIST_FEED''),
     Inr \<circ> c_WhitelistFeed_update (applyStringEnv env ''RTBH_WHITELIST_FEED''),
     env_set (\<lambda>v. c_FeedInterval_update (\<lambda>_. v)) (\<lambda>c. envDuration pd env ''RTBH_FEED_INTERVAL'' (c_FeedInterval c)),
     env_set (\<lambda>v. c_WhitelistExpandSlash24_update (\<lambda>_. v))
       (\<lambda>c. envBool env ''RTBH_WHITELIST_EXPAND_SLASH24'' (c_WhitelistExpandSlash24 c)),
     env_set (\<lambda>v. c_RTBHNextHopV4_update (\<lambda>_. v)) (\<lambda>c. env_parsed parse_addr env ''RTBH_NEXT_HOP_V4'' (c_RTBHNextHopV4 c)),
     env_set (\<lambda>v. c_RTBHNextHopV6_update (\<lambda>_. v)) (\<lambda>c. env_parsed parse_addr env ''RTBH_NEXT_HOP_V6'' (c_RTBHNextHopV6 c)),
     env_set (\<lambda>v. c_ShutdownTimeout_update (\<lambda>_. v)) (\<lambda>c. envDuration pd env ''RTBH_SHUTDOWN_TIMEOUT'' (c_ShutdownTimeout c))]"

definition applyEnvironment :: "(string \<Rightarrow> int option) \<Rightarrow> environment \<Rightarrow> settings \<Rightarrow> config_error + settings" where
  "applyEnvironment pd env c = run_steps_env (env_steps pd env) c"

section \<open>Validation\<close>

definition validateCommon :: "settings \<Rightarrow> config_error option" where
  "validateCommon c =
     (if c_SyncMaxMessageBytes c < 1 \<or> c_SyncMaxInFlight c < 1 then Some SyncLimits
      else if \<not> c_DryRun c \<and> TrimSpace (c_PolicyFile c) = [] \<and> TrimSpace (c_DBDSN c) = []
        then Some StorageRequired
      else None)"

definition validateLocalAddress :: "string \<Rightarrow> string \<Rightarrow> config_error option" where
  "validateLocalAddress name address =
     (case SplitHostPort address of
        None \<Rightarrow> Some BadListenAddress
      | Some (host, _) \<Rightarrow>
          if host = ''localhost'' then None
          else case ParseAddr host of
            None \<Rightarrow> Some (NotLoopback name)
          | Some ip \<Rightarrow> if \<not> IsLoopback ip then Some (NotLoopback name) else None)"

text \<open>The loop over the three listen addresses visits a Go map; only the reported name depends on the
  order.\<close>

definition validateServer :: "settings \<Rightarrow> config_error option" where
  "validateServer c =
     (if c_LocalASN c = 0 \<or> c_MaxSessions c < 1 then Some ASNOrSessions
      else if \<not> Is4 (c_RouterID c) \<or> length (c_ListenRanges c) = 0 then Some RouterOrRange
      else if \<exists>p\<in>set (c_ListenRanges c). \<not> prefix_IsValid p \<or> p \<noteq> Masked p then Some RangesNotCanonical
      else if \<exists>asn\<in>set (c_AllowedASNs c). asn = 0 then Some AllowedASNZero
      else if c_ShutdownTimeout c \<le> 0 then Some ShutdownTimeoutNotPositive
      else if SplitHostPort (c_BGPListenAddress c) = None \<or> SplitHostPort (c_HTTPListenAddress c) = None
           \<or> SplitHostPort (c_SyncListenAddress c) = None then Some BadListenAddress
      else if \<not> c_InsecureListen c then
        (case validateLocalAddress ''HTTP listen'' (c_HTTPListenAddress c) of
           Some e \<Rightarrow> Some e
         | None \<Rightarrow> validateLocalAddress ''sync listen'' (c_SyncListenAddress c))
      else None)"

definition validateAgent :: "settings \<Rightarrow> config_error option" where
  "validateAgent c =
     (if c_ReconnectMin c \<le> 0 \<or> c_ReconnectMax c < c_ReconnectMin c then Some ReconnectBounds
      else if SplitHostPort (c_SyncServerAddress c) = None then Some BadSyncServer
      else if \<not> c_InsecureListen c then validateLocalAddress ''sync server'' (c_SyncServerAddress c)
      else None)"

definition validate_settings :: "settings \<Rightarrow> config_error option" where
  "validate_settings c =
     (case validateCommon c of
        Some e \<Rightarrow> Some e
      | None \<Rightarrow> (case validateServer c of Some e \<Rightarrow> Some e | None \<Rightarrow> validateAgent c))"

definition syncConfig :: "settings \<Rightarrow> rpc_config" where
  "syncConfig c = \<lparr>MaxMessageBytes = c_SyncMaxMessageBytes c, MaxInFlight = c_SyncMaxInFlight c\<rparr>"

section \<open>Flags over environment\<close>

text \<open>What the flags write into: the settings and the texts that are parsed afterwards.\<close>

record flag_vars =
  v_config :: settings
  v_localASN :: string
  v_routerID :: string
  v_listenRanges :: string
  v_allowedASNs :: string
  v_nextHopV4 :: string
  v_nextHopV6 :: string

abbreviation cfg :: "('v \<Rightarrow> settings \<Rightarrow> settings) \<Rightarrow> 'v \<Rightarrow> flag_vars \<Rightarrow> flag_vars" where
  "cfg upd x \<equiv> v_config_update (upd x)"

definition server_flags :: "(string \<Rightarrow> int option) \<Rightarrow> flag_vars flag_def list" where
  "server_flags pd =
    [StringVar (\<lambda>x. v_localASN_update (\<lambda>_. x)) ''local-asn'',
     StringVar (\<lambda>x. v_routerID_update (\<lambda>_. x)) ''router-id'',
     StringVar (cfg (\<lambda>x. c_BGPListenAddress_update (\<lambda>_. x))) ''bgp-listen'',
     StringVar (cfg (\<lambda>x. c_HTTPListenAddress_update (\<lambda>_. x))) ''http-listen'',
     StringVar (cfg (\<lambda>x. c_APIToken_update (\<lambda>_. x))) ''api-token'',
     StringVar (cfg (\<lambda>x. c_SyncListenAddress_update (\<lambda>_. x))) ''sync-listen'',
     StringVar (\<lambda>x. v_listenRanges_update (\<lambda>_. x)) ''listen-ranges'',
     StringVar (\<lambda>x. v_allowedASNs_update (\<lambda>_. x)) ''allowed-asns'',
     ParsedVar False ParseInt0 (cfg (\<lambda>x. c_MaxSessions_update (\<lambda>_. x))) ''max-sessions'',
     ParsedVar False pd (cfg (\<lambda>x. c_ShutdownTimeout_update (\<lambda>_. x))) ''shutdown-timeout'',
     ParsedVar False ParseInt0 (cfg (\<lambda>x. c_SyncMaxMessageBytes_update (\<lambda>_. x))) ''sync-max-message-bytes'',
     ParsedVar False ParseInt0 (cfg (\<lambda>x. c_SyncMaxInFlight_update (\<lambda>_. x))) ''sync-max-inflight'',
     StringVar (\<lambda>x. v_nextHopV4_update (\<lambda>_. x)) ''rtbh-next-hop-v4'',
     StringVar (\<lambda>x. v_nextHopV6_update (\<lambda>_. x)) ''rtbh-next-hop-v6'',
     StringVar (cfg (\<lambda>x. c_BlocklistFeed_update (\<lambda>_. x))) ''blocklist-feed'',
     StringVar (cfg (\<lambda>x. c_WhitelistFeed_update (\<lambda>_. x))) ''whitelist-feed'',
     ParsedVar False pd (cfg (\<lambda>x. c_FeedInterval_update (\<lambda>_. x))) ''feed-interval'',
     ParsedVar True ParseBool (cfg (\<lambda>x. c_WhitelistExpandSlash24_update (\<lambda>_. x))) ''whitelist-expand-slash24'',
     ParsedVar True ParseBool (cfg (\<lambda>x. c_WhitelistExpandSlash24_update (\<lambda>_. x))) ''whitelist-expand-subnets'']"

definition agent_flags :: "(string \<Rightarrow> int option) \<Rightarrow> flag_vars flag_def list" where
  "agent_flags pd =
    [StringVar (cfg (\<lambda>x. c_SyncServerAddress_update (\<lambda>_. x))) ''sync-server'',
     ParsedVar False pd (cfg (\<lambda>x. c_ReconnectMin_update (\<lambda>_. x))) ''reconnect-min'',
     ParsedVar False pd (cfg (\<lambda>x. c_ReconnectMax_update (\<lambda>_. x))) ''reconnect-max'']"

definition common_flags :: "(string \<Rightarrow> int option) \<Rightarrow> flag_vars flag_def list" where
  "common_flags pd =
    [ParsedVar False ParseInt0 (cfg (\<lambda>x. c_SyncMaxMessageBytes_update (\<lambda>_. x))) ''max-message-bytes'',
     ParsedVar False ParseInt0 (cfg (\<lambda>x. c_SyncMaxInFlight_update (\<lambda>_. x))) ''max-in-flight'',
     StringVar (cfg (\<lambda>x. c_PolicyFile_update (\<lambda>_. x))) ''policy-file'',
     StringVar (cfg (\<lambda>x. c_DBDriver_update (\<lambda>_. x))) ''db-driver'',
     StringVar (cfg (\<lambda>x. c_DBDSN_update (\<lambda>_. x))) ''db-dsn'',
     StringVar (cfg (\<lambda>x. c_CursorFile_update (\<lambda>_. x))) ''cursor-file'',
     ParsedVar True ParseBool (cfg (\<lambda>x. c_DryRun_update (\<lambda>_. x))) ''dry-run'',
     ParsedVar True ParseBool (cfg (\<lambda>x. c_InsecureListen_update (\<lambda>_. x))) ''insecure-listen'']"

definition config_flags :: "(string \<Rightarrow> int option) \<Rightarrow> configMode \<Rightarrow> flag_vars flag_def list" where
  "config_flags pd mode =
     (if mode \<noteq> configAgent then server_flags pd else []) @
     (if mode \<noteq> configServer then agent_flags pd else []) @ common_flags pd"

definition flag_defaults :: "settings \<Rightarrow> flag_vars" where
  "flag_defaults c =
     \<lparr>v_config = c, v_localASN = dec (unat (c_LocalASN c)), v_routerID = addr_String (c_RouterID c),
      v_listenRanges = joinPrefixes (c_ListenRanges c), v_allowedASNs = joinASNs (c_AllowedASNs c),
      v_nextHopV4 = (if addr_IsValid (c_RTBHNextHopV4 c) then addr_String (c_RTBHNextHopV4 c) else []),
      v_nextHopV6 = addr_String (c_RTBHNextHopV6 c)\<rparr>"

definition parse_vars :: "flag_vars \<Rightarrow> config_error + settings" where
  "parse_vars v =
     (case ParseUint10 32 (v_localASN v) of
        None \<Rightarrow> Inl BadLocalASN
      | Some asn \<Rightarrow>
     (case ParseAddr (v_routerID v) of
        None \<Rightarrow> Inl RouterNotIPv4
      | Some router \<Rightarrow>
        if \<not> Is4 router then Inl RouterNotIPv4 else
     (case parseNextHop (v_nextHopV4 v) router of
        Inl e \<Rightarrow> Inl e
      | Inr nh4 \<Rightarrow>
     (case parseNextHop (v_nextHopV6 v) (Addr6 1 []) of
        Inl e \<Rightarrow> Inl e
      | Inr nh6 \<Rightarrow>
     (case parsePrefixes (v_listenRanges v) of
        Inl e \<Rightarrow> Inl e
      | Inr ranges \<Rightarrow>
     (case parseASNs (v_allowedASNs v) of
        Inl e \<Rightarrow> Inl e
      | Inr asns \<Rightarrow>
        Inr ((v_config v)\<lparr>c_LocalASN := of_nat asn, c_RouterID := router, c_RTBHNextHopV4 := nh4,
               c_RTBHNextHopV6 := nh6, c_ListenRanges := ranges, c_AllowedASNs := asns\<rparr>)))))))"

definition validate_mode :: "configMode \<Rightarrow> settings \<Rightarrow> config_error option" where
  "validate_mode mode c =
     (case validateCommon c of
        Some e \<Rightarrow> Some e
      | None \<Rightarrow>
          (case (if mode \<noteq> configAgent then validateServer c else None) of
             Some e \<Rightarrow> Some e
           | None \<Rightarrow> if mode \<noteq> configServer then validateAgent c else None))"

definition loadConfig :: "(string \<Rightarrow> int option) \<Rightarrow> environment \<Rightarrow> string list \<Rightarrow> configMode
    \<Rightarrow> config_error + settings" where
  "loadConfig pd env args mode =
     (case applyEnvironment pd env DefaultConfig of
        Inl e \<Rightarrow> Inl e
      | Inr c \<Rightarrow>
          (case parse_flags (config_flags pd mode) args (flag_defaults c) of
             Inl e \<Rightarrow> Inl (BadFlag e)
           | Inr (v, rest) \<Rightarrow>
               if rest \<noteq> [] then Inl (UnexpectedArguments rest)
               else case parse_vars v of
                 Inl e \<Rightarrow> Inl e
               | Inr c \<Rightarrow> (case validate_mode mode c of Some e \<Rightarrow> Inl e | None \<Rightarrow> Inr c)))"

section \<open>Lists survive printing\<close>

text \<open>A text without white space at its ends is left alone by \<open>TrimSpace\<close>.\<close>

definition graphic :: "char \<Rightarrow> bool" where
  "graphic c = (32 < code c \<and> code c < 127)"

lemma no_space_prefix:
  assumes "graphic c"
  shows "find (\<lambda>e. HasPrefix (c # s) e) space_encodings = None"
    and "find (\<lambda>e. HasPrefix (c # s) e) (map rev space_encodings) = None"
proof -
  have encodings: "e \<noteq> [] \<and> \<not> graphic (hd e) \<and> \<not> graphic (last e)" if "e \<in> set space_encodings" for e
    using that by (auto simp: space_encodings_def bytes_def graphic_def)
  have other: "\<not> HasPrefix (c # s) e" if "e \<noteq> []" "\<not> graphic (hd e)" for e
    using that assms by (cases e) (auto simp: HasPrefix_def)
  then show "find (\<lambda>e. HasPrefix (c # s) e) space_encodings = None"
    unfolding find_None_iff using encodings by blast
  show "find (\<lambda>e. HasPrefix (c # s) e) (map rev space_encodings) = None"
    unfolding find_None_iff
  proof (intro notI)
    assume "\<exists>e. e \<in> set (map rev space_encodings) \<and> HasPrefix (c # s) e"
    then obtain e where e: "e \<in> set space_encodings" "HasPrefix (c # s) (rev e)" by auto
    then show False using encodings [OF e(1)] other [of "rev e"] by (simp add: hd_rev)
  qed
qed

lemma strip_graphic:
  assumes "graphic c"
  shows "strip space_encodings n (c # s) = c # s" "strip (map rev space_encodings) n (c # s) = c # s"
  using no_space_prefix [OF assms] by (cases n; simp)+

lemma TrimSpace_graphic: "\<forall>c\<in>set s. graphic c \<Longrightarrow> TrimSpace s = s"
proof (cases s)
  case (Cons c t)
  assume g: "\<forall>c\<in>set s. graphic c"
  obtain e u where r: "rev s = e # u" using Cons by (cases "rev s") auto
  have "e \<in> set s" using r by (metis list.set_intros(1) set_rev)
  then have "graphic c" "graphic e" using g Cons by auto
  then have "strip space_encodings (length s) s = s"
    "strip (map rev space_encodings) (length s) (rev s) = rev s"
    using Cons r strip_graphic by metis+
  then show ?thesis by (simp add: TrimSpace_def)
qed (simp add: TrimSpace_def)

lemma graphic_digit: "is_digit c \<Longrightarrow> graphic c"
  by (simp add: graphic_def is_digit_def)

lemma set_join: "c \<in> set (join sep ts) \<Longrightarrow> c \<in> set sep \<or> (\<exists>t\<in>set ts. c \<in> set t)"
  by (induction ts rule: induct_list012) auto

lemma splitCSV_join:
  assumes "\<And>t. t \<in> set ts \<Longrightarrow> t \<noteq> [] \<and> (\<forall>c\<in>set t. graphic c \<and> c \<noteq> CHR '','')"
  shows "splitCSV (join '','' ts) = ts"
proof (cases "ts = []")
  case True
  have "TrimSpace [] = []" by (rule TrimSpace_graphic) simp
  then show ?thesis using True by (simp add: splitCSV_def)
next
  case False
  have ok: "\<forall>c\<in>set t. graphic c" "CHR '','' \<notin> set t" if "t \<in> set ts" for t
    using assms [OF that] by auto
  have comma: "graphic CHR '',''" by (simp add: graphic_def)
  have chars: "\<forall>c\<in>set (join '','' ts). graphic c"
    using set_join [of _ "'',''" ts] ok(1) comma by fastforce
  have "join '','' ts \<noteq> []"
  proof (cases ts)
    case (Cons t us) then show ?thesis using assms [of t] by (cases us) auto
  qed (use False in simp)
  then have "TrimSpace (join '','' ts) \<noteq> []" using TrimSpace_graphic [OF chars] by simp
  moreover have "split_byte CHR '','' (join '','' ts) = ts"
    by (rule split_byte_join [OF False ok(2)])
  moreover have "map TrimSpace ts = ts"
    by (rule map_idI) (rule TrimSpace_graphic [OF ok(1)])
  ultimately show ?thesis by (simp add: splitCSV_def)
qed

lemma parse_parts_map: "(\<And>x. x \<in> set xs \<Longrightarrow> f (g x) = Inr x) \<Longrightarrow> parse_parts f (map g xs) = Inr xs"
  by (induction xs) auto

lemma parse_parts_all:
  "parse_parts f ts = Inr xs \<Longrightarrow> (\<And>t x. f t = Inr x \<Longrightarrow> P x) \<Longrightarrow> \<forall>x\<in>set xs. P x"
  by (induction ts arbitrary: xs) (auto split: sum.splits)

lemma hex_val_char: "hex_val c = None \<or> graphic c"
  by (auto simp: hex_val_def graphic_def is_digit_def split: if_splits)

lemma prefix_String_chars:
  assumes "canonical p" and "c \<in> set (prefix_String p)"
  shows "graphic c \<and> c \<noteq> CHR '',''"
proof -
  have v: "wf_prefix p" "prefix_IsValid p" using assms(1) canonical_wf canonical_valid by auto
  then obtain a b where p: "p = Prefix a (Some b)" by (cases p) (auto simp: prefix_IsValid_def)
  have "c \<in> set (addr_String a) \<or> c = CHR ''/'' \<or> is_digit c"
    using assms(2) p v by (auto simp: prefix_String_def dec_digits split: option.splits if_splits)
  moreover have "is_digit c \<or> c = CHR ''.'' \<or> c = CHR '':'' \<or> hex_val c \<noteq> None"
    if "c \<in> set (addr_String a)"
  proof (cases a)
    case NoAddr then show ?thesis using v p by (simp add: wf_prefix_def)
  next
    case (Addr4 w) then show ?thesis using that string4_chars by auto
  next
    case (Addr6 w z)
    then have "z = []" using v p by (simp add: wf_prefix_def)
    then have "c \<in> set (body6 w)" using that Addr6 by (simp only: addr_String_6) (simp add: with_zone_append)
    then show ?thesis using body6_chars by blast
  qed
  moreover have "hex_val CHR '','' = None" by (simp add: hex_val_def is_digit_def)
  ultimately show ?thesis
    using hex_val_char [of c] graphic_digit [of c] by (auto simp: graphic_def is_digit_def)
qed

lemma parsePrefixes_join: "\<forall>p\<in>set ps. canonical p \<Longrightarrow> parsePrefixes (joinPrefixes ps) = Inr ps"
proof -
  assume c: "\<forall>p\<in>set ps. canonical p"
  have "ParsePrefix [] = None" by (simp add: ParsePrefix_def cut_last_def)
  then have "prefix_String p \<noteq> []" if "p \<in> set ps" for p
    using c that canonical_wf [of p] canonical_valid [of p] prefix_text.parse_print [of p] by auto
  then have "splitCSV (joinPrefixes ps) = map prefix_String ps"
    unfolding joinPrefixes_def using c prefix_String_chars by (intro splitCSV_join) auto
  moreover have "parse_range (prefix_String p) = Inr p" if "p \<in> set ps" for p
    using c that canonical_wf [of p] canonical_valid [of p] prefix_text.parse_print [of p]
    by (auto simp: parse_range_def canonical_def)
  ultimately show ?thesis unfolding parsePrefixes_def by (simp add: parse_parts_map)
qed

lemma parseASNs_join: "0 \<notin> set asns \<Longrightarrow> parseASNs (joinASNs asns) = Inr asns"
proof -
  assume z: "0 \<notin> set asns"
  have "is_digit c \<Longrightarrow> c \<noteq> CHR '',''" for c by (auto simp: is_digit_def)
  then have "splitCSV (joinASNs asns) = map (\<lambda>a. dec (unat a)) asns"
    unfolding joinASNs_def using dec_digits graphic_digit by (intro splitCSV_join) (metis dec_nonempty ex_map_conv)
  moreover have "parse_asn (dec (unat a)) = Inr a" if "a \<in> set asns" for a
  proof -
    have "unat a < 2 ^ 32" using unsigned_less [of a] by simp
    moreover have "unat a \<noteq> 0" using z that by (metis unat_eq_zero)
    ultimately show ?thesis by (simp add: parse_asn_def)
  qed
  ultimately show ?thesis unfolding parseASNs_def by (simp add: parse_parts_map)
qed

section \<open>The environment\<close>

lemma run_steps_env_keeps:
  assumes "run_steps_env fs c = Inr c'" "P c"
    and "\<forall>f\<in>set fs. \<forall>c c'. f c = Inr c' \<longrightarrow> P c \<longrightarrow> P c'"
  shows "P c'"
  using assms by (induction fs arbitrary: c) (auto split: sum.splits)

text \<open>What every configuration read from the environment satisfies before the flags.\<close>

definition env_ok :: "settings \<Rightarrow> bool" where
  "env_ok c = ((\<forall>p\<in>set (c_ListenRanges c). canonical p) \<and> 0 \<notin> set (c_AllowedASNs c) \<and>
     addr_IsValid (c_RouterID c) \<and> addr_IsValid (c_RTBHNextHopV6 c))"

lemma env_parsed_ok:
  assumes "env_parsed parse env key current = Inr v" "P current" "\<And>s v. parse s = Inr v \<Longrightarrow> P v"
  shows "P v"
  using assms by (auto simp: env_parsed_def split: if_splits sum.splits)

lemma parse_addr_valid: "parse_addr s = Inr a \<Longrightarrow> addr_IsValid a"
  using ParseAddr_valid by (auto simp: parse_addr_def valid_4_or_6 split: option.splits)

lemma parsePrefixes_canonical: "parsePrefixes s = Inr ps \<Longrightarrow> \<forall>p\<in>set ps. canonical p"
  unfolding parsePrefixes_def
  by (erule parse_parts_all) (auto simp: parse_range_def canonical_def split: option.splits if_splits
      dest: ParsePrefix_wf)

lemma parseASNs_nonzero: "parseASNs s = Inr asns \<Longrightarrow> 0 \<notin> set asns"
proof -
  have "a \<noteq> 0" if p: "parse_asn t = Inr a" for t a
  proof -
    obtain v where v: "ParseUint10 32 t = Some v" "v \<noteq> 0" "a = of_nat v"
      using p by (auto simp: parse_asn_def split: option.splits if_splits)
    then show ?thesis using ParseUint10_bound [OF v(1)] by (simp add: word_of_nat_eq_0_iff nat_dvd_not_less)
  qed
  then show "parseASNs s = Inr asns \<Longrightarrow> 0 \<notin> set asns"
    unfolding parseASNs_def using parse_parts_all [of parse_asn _ asns "\<lambda>a. a \<noteq> 0"] by blast
qed

lemma DefaultConfig_env_ok: "env_ok DefaultConfig"
  by (simp add: env_ok_def DefaultConfig_def canonical_def prefix_IsValid_def addr_IsValid_def mask_eq_exp_minus_1)

definition keeps_ok :: "env_step \<Rightarrow> bool" where
  "keeps_ok f = (\<forall>c c'. f c = Inr c' \<longrightarrow> env_ok c \<longrightarrow> env_ok c')"

lemma keeps_ok_set: "(\<And>c v. get c = Inr v \<Longrightarrow> env_ok c \<Longrightarrow> env_ok (upd v c)) \<Longrightarrow> keeps_ok (env_set upd get)"
  by (auto simp: keeps_ok_def env_set_def split: sum.splits)

lemma keeps_ok_string: "(\<And>c. env_ok (f c) = env_ok c) \<Longrightarrow> keeps_ok (Inr \<circ> f)"
  by (simp add: keeps_ok_def)

lemma keeps_ok_parsed:
  "env_parsed parsePrefixes env k (c_ListenRanges c) = Inr ps \<Longrightarrow> env_ok c \<Longrightarrow> \<forall>p\<in>set ps. canonical p"
  "env_parsed parseASNs env k (c_AllowedASNs c) = Inr asns \<Longrightarrow> env_ok c \<Longrightarrow> 0 \<notin> set asns"
  "env_parsed parse_addr env k (c_RouterID c) = Inr a \<Longrightarrow> env_ok c \<Longrightarrow> addr_IsValid a"
  "env_parsed parse_addr env k (c_RTBHNextHopV6 c) = Inr a \<Longrightarrow> env_ok c \<Longrightarrow> addr_IsValid a"
  using parsePrefixes_canonical parseASNs_nonzero parse_addr_valid
  by (auto simp: env_ok_def env_parsed_def split: if_splits sum.splits)

lemma env_steps_keep: "\<forall>f\<in>set (env_steps pd env). \<forall>c c'. f c = Inr c' \<longrightarrow> env_ok c \<longrightarrow> env_ok c'"
proof -
  have "list_all keeps_ok (env_steps pd env)"
    unfolding env_steps_def list.pred_inject
    by (intro conjI TrueI keeps_ok_set keeps_ok_string;
        use keeps_ok_parsed in \<open>(simp add: env_ok_def; fail) | (fastforce simp: env_ok_def)\<close>)
  then show ?thesis by (simp add: list_all_iff keeps_ok_def)
qed

lemma applyEnvironment_ok: "applyEnvironment pd env DefaultConfig = Inr c \<Longrightarrow> env_ok c"
  unfolding applyEnvironment_def by (rule run_steps_env_keeps [OF _ DefaultConfig_env_ok env_steps_keep])

section \<open>Loading\<close>

lemma addr_String_nonempty: "addr_IsValid a \<Longrightarrow> addr_String a \<noteq> []"
proof -
  have "ParseAddr [] = None" by (simp add: ParseAddr_def)
  then show "addr_IsValid a \<Longrightarrow> addr_String a \<noteq> []" using ParseAddr_String [of a] by auto
qed

lemma parseNextHop_print:
  "addr_IsValid a \<Longrightarrow>
   parseNextHop (addr_String a) fallback =
     (if Is4 a \<noteq> Is4 fallback then Inl (NextHopFamily (addr_String a)) else Inr a)"
  by (simp add: parseNextHop_def ParseAddr_String addr_String_nonempty)

text \<open>What \<open>loadConfig\<close> makes of the settings of the environment when no flag is given.\<close>

definition completed :: "settings \<Rightarrow> config_error + settings" where
  "completed c =
     (if \<not> Is4 (c_RouterID c) then Inl RouterNotIPv4
      else if addr_IsValid (c_RTBHNextHopV4 c) \<and> \<not> Is4 (c_RTBHNextHopV4 c)
        then Inl (NextHopFamily (addr_String (c_RTBHNextHopV4 c)))
      else if Is4 (c_RTBHNextHopV6 c) then Inl (NextHopFamily (addr_String (c_RTBHNextHopV6 c)))
      else if addr_IsValid (c_RTBHNextHopV4 c) then Inr c
      else Inr (c\<lparr>c_RTBHNextHopV4 := c_RouterID c\<rparr>))"

lemma parse_vars_defaults:
  assumes "env_ok c"
  shows "parse_vars (flag_defaults c) = completed c"
proof -
  have r: "parsePrefixes (joinPrefixes (c_ListenRanges c)) = Inr (c_ListenRanges c)"
    "parseASNs (joinASNs (c_AllowedASNs c)) = Inr (c_AllowedASNs c)"
    using assms parsePrefixes_join parseASNs_join by (auto simp: env_ok_def)
  have v: "addr_IsValid (c_RouterID c)" "addr_IsValid (c_RTBHNextHopV6 c)" using assms by (auto simp: env_ok_def)
  have "unat (c_LocalASN c) < 2 ^ 32" using unsigned_less [of "c_LocalASN c"] by simp
  moreover have "parseNextHop [] a = Inr a" for a by (simp add: parseNextHop_def)
  ultimately show ?thesis
    using v by (simp add: parse_vars_def flag_defaults_def completed_def r ParseAddr_String parseNextHop_print)
qed

lemma loadConfig_environment:
  "loadConfig pd env [] mode =
     (case applyEnvironment pd env DefaultConfig of
        Inl e \<Rightarrow> Inl e
      | Inr c \<Rightarrow>
          (case completed c of
             Inl e \<Rightarrow> Inl e
           | Inr c' \<Rightarrow> (case validate_mode mode c' of Some e \<Rightarrow> Inl e | None \<Rightarrow> Inr c')))"
  using applyEnvironment_ok parse_vars_defaults by (auto simp: loadConfig_def split: sum.splits)

lemma loaded_valid: "loadConfig pd env args mode = Inr c \<Longrightarrow> validate_mode mode c = None"
  by (auto simp: loadConfig_def split: sum.splits prod.splits if_splits option.splits)

lemma default_environment: "applyEnvironment pd (\<lambda>_. []) c = Inr c"
  by (simp add: applyEnvironment_def env_steps_def env_set_def envUint32_def envInt_def envBool_def
      envDuration_def env_value_def env_parsed_def applyStringEnv_def)

text \<open>An address only the host itself reaches.\<close>

definition local_address :: "string \<Rightarrow> bool" where
  "local_address address =
     (case SplitHostPort address of
        None \<Rightarrow> False
      | Some (host, _) \<Rightarrow>
          host = ''localhost'' \<or> (case ParseAddr host of None \<Rightarrow> False | Some ip \<Rightarrow> IsLoopback ip))"

lemma validateLocalAddress_iff: "validateLocalAddress name address = None \<longleftrightarrow> local_address address"
  by (auto simp: validateLocalAddress_def local_address_def split: option.splits prod.splits if_splits)

lemma loopback_text: "ParseAddr ''127.0.0.1'' = Some (Addr4 0x7F000001)"
proof -
  have "char_of (49 :: nat) = CHR ''1''" "char_of (50 :: nat) = CHR ''2''" "char_of (55 :: nat) = CHR ''7''"
    "char_of (48 :: nat) = CHR ''0''" by code_simp+
  then have "string4 0x7F000001 = ''127.0.0.1''"
    by (simp add: string4_def octets_def v4_def dec.simps digit_char_def)
  then show ?thesis by (metis ParseAddr_string4)
qed

lemma loopback_ports:
  "SplitHostPort ''127.0.0.1:4179'' = Some (''127.0.0.1'', ''4179'')"
  "SplitHostPort ''127.0.0.1:8080'' = Some (''127.0.0.1'', ''8080'')"
  "SplitHostPort ''127.0.0.1:17900'' = Some (''127.0.0.1'', ''17900'')"
  using SplitHostPort_join [of "''127.0.0.1''" "''4179''"] SplitHostPort_join [of "''127.0.0.1''" "''8080''"]
    SplitHostPort_join [of "''127.0.0.1''" "''17900''"] by simp_all

lemma default_local [simp]:
  "validateLocalAddress n ''127.0.0.1:8080'' = None" "validateLocalAddress n ''127.0.0.1:17900'' = None"
proof -
  have "IsLoopback (Addr4 0x7F000001)" by code_simp
  then show "validateLocalAddress n ''127.0.0.1:8080'' = None" "validateLocalAddress n ''127.0.0.1:17900'' = None"
    by (simp_all add: validateLocalAddress_def loopback_ports loopback_text)
qed

lemma default_range [simp]:
  "prefix_IsValid (Prefix (Addr4 0x7F000000) (Some 24))"
  "Masked (Prefix (Addr4 0x7F000000) (Some 24)) = Prefix (Addr4 0x7F000000) (Some 24)"
  using DefaultConfig_env_ok by (simp_all add: env_ok_def DefaultConfig_def canonical_def)

lemmas default_checks = validateCommon_def validateServer_def validateAgent_def loopback_ports DefaultConfig_def
  defaultMaxMessageBytes_def defaultMaxInFlight_def Second_def Millisecond_def

lemma default_loads:
  "loadConfig pd (\<lambda>_. []) [] mode = Inr (DefaultConfig\<lparr>c_RTBHNextHopV4 := Addr4 0xC0000201\<rparr>)"
proof -
  let ?c = "DefaultConfig\<lparr>c_RTBHNextHopV4 := Addr4 0xC0000201\<rparr>"
  have "validateCommon ?c = None" "validateServer ?c = None" "validateAgent ?c = None"
    by (simp_all add: default_checks del: Masked.simps)
  then have "validate_mode mode ?c = None" by (simp add: validate_mode_def)
  moreover have "completed DefaultConfig = Inr ?c"
    by (simp add: completed_def DefaultConfig_def addr_IsValid_def)
  ultimately show ?thesis by (simp add: loadConfig_environment default_environment)
qed

lemma validateServer_local:
  "validateServer c = None \<Longrightarrow> \<not> c_InsecureListen c \<Longrightarrow>
   local_address (c_HTTPListenAddress c) \<and> local_address (c_SyncListenAddress c)"
  by (simp add: validateServer_def validateLocalAddress_iff split: if_splits option.splits)

lemma validateAgent_local:
  "validateAgent c = None \<Longrightarrow> \<not> c_InsecureListen c \<Longrightarrow> local_address (c_SyncServerAddress c)"
  by (simp add: validateAgent_def validateLocalAddress_iff split: if_splits)

lemma validate_mode_None:
  "validate_mode mode c = None \<Longrightarrow> validateCommon c = None \<and>
   (mode \<noteq> configAgent \<longrightarrow> validateServer c = None) \<and> (mode \<noteq> configServer \<longrightarrow> validateAgent c = None)"
  by (cases mode) (simp_all add: validate_mode_def split: option.splits)

section \<open>Properties\<close>

text \<open>C32: With no flag given the settings of the environment come out as they went in: printing the
  numbers, addresses and lists as defaults of the flags and parsing them again loses nothing. A missing
  IPv4 next hop becomes the router ID; a router ID or next hop of the wrong family and a setting that
  does not validate are errors.\<close>

theorem environment_survives_flags:
  "loadConfig pd env [] mode =
     (case applyEnvironment pd env DefaultConfig of
        Inl e \<Rightarrow> Inl e
      | Inr c \<Rightarrow>
          (if \<not> Is4 (c_RouterID c) then Inl RouterNotIPv4
           else if addr_IsValid (c_RTBHNextHopV4 c) \<and> \<not> Is4 (c_RTBHNextHopV4 c)
             then Inl (NextHopFamily (addr_String (c_RTBHNextHopV4 c)))
           else if Is4 (c_RTBHNextHopV6 c) then Inl (NextHopFamily (addr_String (c_RTBHNextHopV6 c)))
           else let c' = (if addr_IsValid (c_RTBHNextHopV4 c) then c else c\<lparr>c_RTBHNextHopV4 := c_RouterID c\<rparr>)
                in case validate_mode mode c' of Some e \<Rightarrow> Inl e | None \<Rightarrow> Inr c'))"
  by (auto simp: loadConfig_environment completed_def Let_def split: sum.splits)

text \<open>C33: a configuration that loads without \<open>--insecure-listen\<close> keeps the dashboard and the policy
  synchronisation on addresses of the host itself: \<open>localhost\<close> or a loopback address, for a server
  where it listens with HTTP and for synchronisation, and for an agent where it connects. The BGP
  listen address is not among them: no check restricts it.\<close>

theorem loaded_addresses_local:
  assumes "loadConfig pd env args mode = Inr c" and "\<not> c_InsecureListen c"
  shows "(mode \<noteq> configAgent \<longrightarrow>
            local_address (c_HTTPListenAddress c) \<and> local_address (c_SyncListenAddress c)) \<and>
         (mode \<noteq> configServer \<longrightarrow> local_address (c_SyncServerAddress c))"
  using validate_mode_None [OF loaded_valid [OF assms(1)]] assms(2) validateServer_local validateAgent_local
  by blast

theorem loaded_addresses_local_witness:
  "\<exists>c. loadConfig (\<lambda>_. None) (\<lambda>_. []) [] configAll = Inr c \<and> local_address (c_HTTPListenAddress c)
     \<and> local_address (c_SyncListenAddress c) \<and> local_address (c_SyncServerAddress c)"
proof -
  let ?c = "DefaultConfig\<lparr>c_RTBHNextHopV4 := Addr4 0xC0000201\<rparr>"
  have l: "loadConfig (\<lambda>_. None) (\<lambda>_. []) [] configAll = Inr ?c" by (rule default_loads)
  have "\<not> c_InsecureListen ?c" by (simp add: DefaultConfig_def)
  from loaded_addresses_local [OF l this] l show ?thesis by auto
qed

end
