(* ===== verification/Feed_Manager.thy ===== *)
theory Feed_Manager
  imports Feed Policystore
begin

text \<open>
  \<open>internal/feed/manager.go\<close>: the feed sources, the file they are kept in, and their
  synchronisation. The two handlers are arguments that act on a state of their own; the result of
  a download, the clock, the random identifier, the failures of the file and what other goroutines
  do while a download runs are arguments too.
\<close>

record source =
  so_ID :: string
  so_Name :: string
  so_List :: string
  so_URL :: string
  so_Interval :: int
  so_Enabled :: bool
  so_LastSync :: time
  so_PrefixCount :: int
  so_LastError :: string
  so_ExpandSubnets :: bool
  so_Prefixes :: "string list"

definition zero_source :: source where
  "zero_source = \<lparr>so_ID = [], so_Name = [], so_List = [], so_URL = [], so_Interval = 0, so_Enabled = False,
     so_LastSync = 0, so_PrefixCount = 0, so_LastError = [], so_ExpandSubnets = False, so_Prefixes = []\<rparr>"

type_synonym feeds_disk = "string \<rightharpoonup> source list file_image"

record manager =
  mg_path :: string
  mg_sources :: "(string, source) gomap"
  mg_wake :: bool

datatype feeds_fault = WriteFeeds | RenameFeeds

datatype manager_error =
    NameRequired | URLRequired | PersistFeeds feeds_fault | FeedNotFound string
  | FetchFeed feed_error | ReadFeeds | DecodeFeeds | HandlerFailed string

section \<open>Opening and persisting\<close>

definition NewManager :: manager where
  "NewManager = \<lparr>mg_path = [], mg_sources = [], mg_wake = False\<rparr>"

text \<open>\<open>json.Unmarshal\<close> rejects anything but one value; of two sources with one identifier the later one
  stays.\<close>

definition OpenManager :: "bool \<Rightarrow> string \<Rightarrow> feeds_disk \<Rightarrow> manager_error + manager" where
  "OpenManager unreadable fname d =
     (if fname = [] then Inr NewManager
      else
        let m = NewManager\<lparr>mg_path := filepath_Clean fname\<rparr> in
        if unreadable then Inl ReadFeeds
        else case d (mg_path m) of
          None \<Rightarrow> Inr m
        | Some (Document list) \<Rightarrow>
            Inr (m\<lparr>mg_sources := fold (\<lambda>s sources. AList.update (so_ID s) s sources) list []\<rparr>)
        | Some _ \<Rightarrow> Inl DecodeFeeds)"

text \<open>The temporary file has a fixed name and is neither synced nor removed on failure; a failed write
  may leave any part of it.\<close>

definition persistLocked :: "feeds_fault option \<Rightarrow> manager \<Rightarrow> feeds_disk \<Rightarrow> manager_error option \<times> feeds_disk" where
  "persistLocked flt m d =
     (if mg_path m = [] then (None, d)
      else
        let list = map snd (mg_sources m); tmp = mg_path m @ ''.tmp'' in
        case flt of
          Some WriteFeeds \<Rightarrow> (Some (PersistFeeds WriteFeeds), d(tmp \<mapsto> Undecodable))
        | Some RenameFeeds \<Rightarrow> (Some (PersistFeeds RenameFeeds), d(tmp \<mapsto> Document list))
        | None \<Rightarrow> (None, d(tmp := None, mg_path m \<mapsto> Document list)))"

section \<open>Reading\<close>

definition List_sources :: "manager \<Rightarrow> source list" where
  "List_sources m = map snd (mg_sources m)"

definition Get :: "string \<Rightarrow> manager \<Rightarrow> source option" where
  "Get fid m = lookup (mg_sources m) fid"

definition PrefixSource :: "string \<Rightarrow> manager \<Rightarrow> string option" where
  "PrefixSource p m = map_option so_Name (find (\<lambda>s. p \<in> set (so_Prefixes s)) (map snd (mg_sources m)))"

section \<open>Saving and deleting\<close>

definition feed_hour :: int where
  "feed_hour = 3600 * 1000000000"

text \<open>\<open>fresh\<close> is the random part of a new identifier, in hexadecimal.\<close>

definition saved_source :: "string \<Rightarrow> manager \<Rightarrow> source \<Rightarrow> source" where
  "saved_source fresh m s =
     (let s = (if so_List s \<noteq> ''blocklist'' \<and> so_List s \<noteq> ''whitelist'' then s\<lparr>so_List := ''blocklist''\<rparr> else s);
          s = (if so_Interval s < 0 then s\<lparr>so_Interval := feed_hour\<rparr> else s)
      in if so_ID s = [] then s\<lparr>so_ID := ''feed-'' @ fresh\<rparr>
         else case lookup (mg_sources m) (so_ID s) of
           Some existing \<Rightarrow> s\<lparr>so_Prefixes := so_Prefixes existing,
             so_PrefixCount := so_PrefixCount existing, so_LastSync := so_LastSync existing\<rparr>
         | None \<Rightarrow> s)"

definition Save :: "feeds_fault option \<Rightarrow> string \<Rightarrow> source \<Rightarrow> manager \<Rightarrow> feeds_disk
    \<Rightarrow> (manager_error option \<times> source) \<times> manager \<times> feeds_disk" where
  "Save flt fresh s0 m d =
     (if so_Name s0 = [] then ((Some NameRequired, s0), m, d)
      else if so_URL s0 = [] then ((Some URLRequired, s0), m, d)
      else
        let s = saved_source fresh m s0;
            m = m\<lparr>mg_sources := AList.update (so_ID s) s (mg_sources m)\<rparr>
        in case persistLocked flt m d of
             (Some e, d) \<Rightarrow> ((Some e, s), m, d)
           | (None, d) \<Rightarrow> ((None, s), m\<lparr>mg_wake := True\<rparr>, d))"

type_synonym 'w delete_handler = "source \<Rightarrow> string list \<Rightarrow> 'w \<Rightarrow> string option \<times> 'w"
type_synonym 'w sync_handler = "source \<Rightarrow> string list \<Rightarrow> string list \<Rightarrow> 'w \<Rightarrow> string option \<times> 'w"

definition Delete :: "feeds_fault option \<Rightarrow> 'w delete_handler option \<Rightarrow> string \<Rightarrow> manager \<Rightarrow> feeds_disk \<Rightarrow> 'w
    \<Rightarrow> manager_error option \<times> manager \<times> feeds_disk \<times> 'w" where
  "Delete flt onDelete fid m d w =
     (case lookup (mg_sources m) fid of
        None \<Rightarrow> (None, m, d, w)
      | Some source \<Rightarrow>
          let m = m\<lparr>mg_sources := AList.delete fid (mg_sources m)\<rparr>;
              d = snd (persistLocked flt m d)
          in (case onDelete of
                None \<Rightarrow> (None, m, d, w)
              | Some handler \<Rightarrow>
                  if length (so_Prefixes source) > 0 then
                    (case handler source (so_Prefixes source) w of (e, w) \<Rightarrow> (map_option HandlerFailed e, m, d, w))
                  else (None, m, d, w)))"

section \<open>Synchronising\<close>

text \<open>The distinct texts of the fetched prefixes, and the two differences. The code collects the
  differences from maps; the order of the lists stands for the order of those loops.\<close>

definition new_texts :: "prefix list \<Rightarrow> string list" where
  "new_texts ps = foldl (\<lambda>acc s. if s \<in> set acc then acc else acc @ [s]) [] (map prefix_String ps)"

definition feed_toAdd :: "string list \<Rightarrow> string list \<Rightarrow> string list" where
  "feed_toAdd old new = filter (\<lambda>p. p \<notin> set old) new"

definition feed_toRemove :: "string list \<Rightarrow> string list \<Rightarrow> string list" where
  "feed_toRemove old new = filter (\<lambda>p. p \<notin> set new) (remdups old)"

record feed_faults =
  ff_fetch :: "feeds_fault option"
  ff_store :: "feeds_fault option"
  ff_handler :: "feeds_fault option"

text \<open>What happens under the lock once the download is over; a source missing from the map is the zero
  value.\<close>

definition finish_sync :: "feed_faults \<Rightarrow> time \<Rightarrow> (feed_error \<Rightarrow> string) \<Rightarrow> 'w sync_handler option \<Rightarrow> string
    \<Rightarrow> feed_error + prefix list \<Rightarrow> manager \<Rightarrow> feeds_disk \<Rightarrow> 'w
    \<Rightarrow> (int \<times> manager_error option) \<times> manager \<times> feeds_disk \<times> 'w" where
  "finish_sync ff now message onSync fid fetched m d w =
     (let source = (case lookup (mg_sources m) fid of Some s \<Rightarrow> s | None \<Rightarrow> zero_source);
          source = source\<lparr>so_LastSync := now\<rparr>;
          put = (\<lambda>s m. m\<lparr>mg_sources := AList.update fid s (mg_sources m)\<rparr>)
      in case fetched of
           Inl e \<Rightarrow>
             let m = put (source\<lparr>so_LastError := message e\<rparr>) m
             in ((0, Some (FetchFeed e)), m, snd (persistLocked (ff_fetch ff) m d), w)
         | Inr ps \<Rightarrow>
             let new = new_texts ps; old = so_Prefixes source;
                 toAdd = feed_toAdd old new; toRemove = feed_toRemove old new;
                 source = source\<lparr>so_LastError := [], so_PrefixCount := int (length new), so_Prefixes := new\<rparr>;
                 m = put source m;
                 d = snd (persistLocked (ff_store ff) m d)
             in (case onSync of
                   None \<Rightarrow> ((int (length new), None), m, d, w)
                 | Some handler \<Rightarrow>
                     (case handler source toAdd toRemove w of
                        (None, w) \<Rightarrow> ((int (length new), None), m, d, w)
                      | (Some e, w) \<Rightarrow>
                          let m = put (source\<lparr>so_LastError := e\<rparr>) m
                          in ((int (length new), Some (HandlerFailed e)), m, snd (persistLocked (ff_handler ff) m d), w))))"

text \<open>\<open>others\<close>: what other goroutines do to the manager and its file during the download.\<close>

definition manager_SyncFeed :: "net_env \<Rightarrow> feed_faults \<Rightarrow> time \<Rightarrow> (feed_error \<Rightarrow> string) \<Rightarrow> 'w sync_handler option
    \<Rightarrow> (manager \<times> feeds_disk \<times> 'w \<Rightarrow> manager \<times> feeds_disk \<times> 'w) \<Rightarrow> string \<Rightarrow> manager \<Rightarrow> feeds_disk \<Rightarrow> 'w
    \<Rightarrow> (int \<times> manager_error option) \<times> manager \<times> feeds_disk \<times> 'w" where
  "manager_SyncFeed E ff now message onSync others fid m d w =
     (case lookup (mg_sources m) fid of
        None \<Rightarrow> ((0, Some (FeedNotFound fid)), m, d, w)
      | Some source \<Rightarrow>
          let fetched = fst (Fetch E (so_URL source) (so_ExpandSubnets source));
              (m, d, w) = others (m, d, w)
          in finish_sync ff now message onSync fid fetched m d w)"

section \<open>Scheduling\<close>

text \<open>One pass of \<open>Run\<close>: the sources that are due, and how long to wait otherwise.\<close>

definition due :: "time \<Rightarrow> source \<Rightarrow> bool" where
  "due now s = (so_Enabled s \<and> so_Interval s > 0 \<and> (so_LastSync s = 0 \<or> now - so_LastSync s \<ge> so_Interval s))"

fun schedule :: "time \<Rightarrow> (string, source) gomap \<Rightarrow> string list \<Rightarrow> int \<Rightarrow> string list \<times> int" where
  "schedule now [] ids nextRun = (ids, nextRun)"
| "schedule now ((fid, s) # sources) ids nextRun =
     (if \<not> so_Enabled s \<or> so_Interval s \<le> 0 then schedule now sources ids nextRun
      else
        let elapsed = now - so_LastSync s in
        if so_LastSync s = 0 \<or> elapsed \<ge> so_Interval s then schedule now sources (ids @ [fid]) nextRun
        else
          let rem = so_Interval s - elapsed
          in schedule now sources ids (if rem < nextRun then rem else nextRun))"

text \<open>\<open>env\<close> gives the surroundings of the synchronisation of each identifier.\<close>

record 'w sync_env =
  se_net :: net_env
  se_faults :: feed_faults
  se_now :: time
  se_others :: "manager \<times> feeds_disk \<times> 'w \<Rightarrow> manager \<times> feeds_disk \<times> 'w"

definition run_pass :: "(string \<Rightarrow> 'w sync_env) \<Rightarrow> (feed_error \<Rightarrow> string) \<Rightarrow> 'w sync_handler option \<Rightarrow> time
    \<Rightarrow> manager \<Rightarrow> feeds_disk \<Rightarrow> 'w \<Rightarrow> int \<times> manager \<times> feeds_disk \<times> 'w" where
  "run_pass env message onSync now m d w =
     (let (ids, nextRun) = schedule now (mg_sources m) [] feed_hour;
          (m, d, w) = fold (\<lambda>fid (m, d, w). snd (manager_SyncFeed (se_net (env fid)) (se_faults (env fid))
              (se_now (env fid)) message onSync (se_others (env fid)) fid m d w)) ids (m, d, w)
      in (nextRun, m, d, w))"

section \<open>The differences\<close>

lemma dedup_fold:
  "distinct acc \<Longrightarrow> distinct (foldl (\<lambda>acc s. if s \<in> set acc then acc else acc @ [s]) acc ss) \<and>
   set (foldl (\<lambda>acc s. if s \<in> set acc then acc else acc @ [s]) acc ss) = set acc \<union> set ss"
  by (induction ss arbitrary: acc) auto

lemma new_texts_facts [simp]:
  "distinct (new_texts ps)" "set (new_texts ps) = prefix_String ` set ps"
  using dedup_fold [of "[]" "map prefix_String ps"] by (simp_all add: new_texts_def)

lemma differences:
  "set (feed_toAdd old new) = set new - set old" "set (feed_toRemove old new) = set old - set new"
  "distinct new \<Longrightarrow> distinct (feed_toAdd old new)" "distinct (feed_toRemove old new)"
  by (auto simp: feed_toAdd_def feed_toRemove_def)

text \<open>What a finished synchronisation leaves of its source and hands to the handler.\<close>

lemma finish_sync_ok:
  assumes "lookup (mg_sources m) i = Some s"
    and "finish_sync ff now message (Some h) i (Inr ps) m d w = ((n, err), m', d', w')"
  shows "\<exists>s'. lookup (mg_sources m') i = Some s' \<and> so_Prefixes s' = new_texts ps \<and> so_ID s' = so_ID s \<and>
      so_Name s' = so_Name s \<and> so_List s' = so_List s \<and>
      mg_path m' = mg_path m \<and> (\<forall>j. j \<noteq> i \<longrightarrow> lookup (mg_sources m') j = lookup (mg_sources m) j) \<and>
      keys (mg_sources m') = keys (mg_sources m) \<and>
      (\<exists>s1. so_ID s1 = so_ID s \<and> so_List s1 = so_List s \<and> so_Prefixes s1 = new_texts ps \<and>
         h s1 (feed_toAdd (so_Prefixes s) (new_texts ps)) (feed_toRemove (so_Prefixes s) (new_texts ps)) w =
           ((case err of Some (HandlerFailed e) \<Rightarrow> Some e | _ \<Rightarrow> None), w')) \<and>
      n = int (length (new_texts ps)) \<and> (err = None \<or> (\<exists>e. err = Some (HandlerFailed e)))"
proof -
  let ?new = "new_texts ps"
  let ?s1 = "s\<lparr>so_LastSync := now, so_LastError := [], so_PrefixCount := int (length ?new), so_Prefixes := ?new\<rparr>"
  have k: "i \<in> set (keys (mg_sources m))" using assms(1) by (metis lookup_None_iff option.distinct(1) set_map)
  have keys_put: "keys (AList.update i x ms) = keys ms" if "i \<in> set (keys ms)" for x :: source and ms
    using that by (simp add: update_keys)
  obtain e w1 where h: "h ?s1 (feed_toAdd (so_Prefixes s) ?new) (feed_toRemove (so_Prefixes s) ?new) w = (e, w1)"
    by fastforce
  show ?thesis
  proof (cases e)
    case None
    with assms h have r: "err = None" "w' = w1" "n = int (length ?new)"
        "m' = m\<lparr>mg_sources := AList.update i ?s1 (mg_sources m)\<rparr>"
      by (auto simp: finish_sync_def Let_def)
    with None h k show ?thesis by (intro exI [of _ ?s1] conjI exI [of _ ?s1]) (auto simp: keys_put)
  next
    case (Some x)
    let ?s2 = "?s1\<lparr>so_LastError := x\<rparr>"
    from Some assms h have r: "err = Some (HandlerFailed x)" "w' = w1" "n = int (length ?new)"
        "m' = m\<lparr>mg_sources := AList.update i ?s2 (AList.update i ?s1 (mg_sources m))\<rparr>"
      by (auto simp: finish_sync_def Let_def)
    with Some h k show ?thesis by (intro exI [of _ ?s2] conjI exI [of _ ?s1]) (auto simp: keys_put)
  qed
qed

section \<open>The invariant\<close>

definition source_ok :: "string \<Rightarrow> source \<Rightarrow> bool" where
  "source_ok k s = (so_ID s = k \<and> k \<noteq> [] \<and> so_Name s \<noteq> [] \<and> (so_List s = ''blocklist'' \<or> so_List s = ''whitelist''))"

definition manager_inv :: "manager \<Rightarrow> bool" where
  "manager_inv m = (wf_map (mg_sources m) \<and> (\<forall>(k, s) \<in> set (mg_sources m). source_ok k s))"

lemma manager_inv_lookup:
  "manager_inv m \<longleftrightarrow> wf_map (mg_sources m) \<and> (\<forall>k s. lookup (mg_sources m) k = Some s \<longrightarrow> source_ok k s)"
proof -
  have "wf_map (mg_sources m) \<Longrightarrow> (k, s) \<in> set (mg_sources m) \<longleftrightarrow> lookup (mg_sources m) k = Some s" for k s
    by simp
  then show ?thesis unfolding manager_inv_def by blast
qed

lemma manager_inv_put [inv_intros]:
  "manager_inv m \<Longrightarrow> source_ok k s \<Longrightarrow> manager_inv (m\<lparr>mg_sources := AList.update k s (mg_sources m)\<rparr>)"
  unfolding manager_inv_lookup by (simp add: wf_map_update)

lemma manager_inv_drop [inv_intros]:
  "manager_inv m \<Longrightarrow> manager_inv (m\<lparr>mg_sources := AList.delete k (mg_sources m)\<rparr>)"
  unfolding manager_inv_lookup by (simp add: wf_map_delete)

lemma manager_inv_wake [simp]: "manager_inv (m\<lparr>mg_wake := b\<rparr>) = manager_inv m"
  by (simp add: manager_inv_def)

lemma saved_source_ok: "so_Name s \<noteq> [] \<Longrightarrow> source_ok (so_ID (saved_source fresh m s)) (saved_source fresh m s)"
  by (auto simp: saved_source_def Let_def source_ok_def split: option.split)

lemma Save_inv:
  assumes "manager_inv m" "Save flt fresh s m d = (r, m', d')"
  shows "manager_inv m'"
proof (cases "so_Name s = [] \<or> so_URL s = []")
  case True
  with assms show ?thesis by (auto simp: Save_def split: if_splits)
next
  case False
  let ?s = "saved_source fresh m s"
  let ?m = "m\<lparr>mg_sources := AList.update (so_ID ?s) ?s (mg_sources m)\<rparr>"
  have "manager_inv ?m" using False by (intro manager_inv_put [OF assms(1)] saved_source_ok) simp
  moreover have "m' = ?m \<or> m' = ?m\<lparr>mg_wake := True\<rparr>"
    using assms(2) False by (auto simp: Save_def Let_def split: option.splits prod.splits)
  ultimately show ?thesis by auto
qed

lemma Delete_inv:
  assumes "manager_inv m" "Delete flt h i m d w = (e, m', d', w')"
  shows "manager_inv m'"
  using assms
  by (auto simp: Delete_def Let_def intro: inv_intros split: if_splits option.splits prod.splits)

lemma finish_sync_inv:
  assumes "manager_inv m" "lookup (mg_sources m) i = Some s"
    and "finish_sync ff now message (Some h) i fetched m d w = (r, m', d', w')"
  shows "manager_inv m'"
proof (cases fetched)
  case (Inl e)
  have "source_ok i s" using assms(1,2) by (simp add: manager_inv_lookup)
  then have "source_ok i (s\<lparr>so_LastSync := now, so_LastError := message e\<rparr>)" by (simp add: source_ok_def)
  from manager_inv_put [OF assms(1) this] Inl assms(2,3) show ?thesis
    by (auto simp: finish_sync_def Let_def)
next
  case (Inr ps)
  obtain n err where r: "r = (n, err)" by (cases r)
  from finish_sync_ok [OF assms(2), of ff now message h ps d w] assms(3) Inr r
  obtain s' where s': "lookup (mg_sources m') i = Some s'" "so_ID s' = so_ID s" "so_Name s' = so_Name s"
      "so_List s' = so_List s" "\<forall>j. j \<noteq> i \<longrightarrow> lookup (mg_sources m') j = lookup (mg_sources m) j"
      "keys (mg_sources m') = keys (mg_sources m)" by blast
  have ok: "source_ok i s" and wf: "wf_map (mg_sources m)"
    using assms(1,2) by (auto simp: manager_inv_lookup)
  have "source_ok k t" if "lookup (mg_sources m') k = Some t" for k t
  proof (cases "k = i")
    case True
    with that s' ok show ?thesis by (simp add: source_ok_def)
  next
    case False
    with that s'(5) assms(1) show ?thesis by (simp add: manager_inv_lookup)
  qed
  with wf s'(6) show ?thesis by (simp add: manager_inv_lookup)
qed

section \<open>Reopening\<close>

lemma fold_update_sources:
  "wf_map (acc @ ms) \<Longrightarrow> \<forall>(k, s) \<in> set ms. so_ID s = k \<Longrightarrow>
   fold (\<lambda>s sources. AList.update (so_ID s) s sources) (map snd ms) acc = acc @ ms"
proof (induction ms arbitrary: acc)
  case (Cons kv ms)
  obtain k s where kv: "kv = (k, s)" by (cases kv)
  with Cons.prems have "k \<notin> fst ` set acc" "so_ID s = k" by auto
  then have "AList.update (so_ID s) s acc = acc @ [(k, s)]" by (induction acc) auto
  with Cons kv show ?case by simp
qed simp

lemma reopen_persisted:
  assumes "manager_inv m" "fname \<noteq> []" "mg_path m = filepath_Clean fname"
  shows "OpenManager False fname (snd (persistLocked None m d)) = Inr (m\<lparr>mg_wake := False\<rparr>)"
proof -
  have "\<forall>(k, s) \<in> set (mg_sources m). so_ID s = k" "wf_map (mg_sources m)"
    using assms(1) by (auto simp: manager_inv_def source_ok_def)
  then have "fold (\<lambda>s sources. AList.update (so_ID s) s sources) (map snd (mg_sources m)) [] = mg_sources m"
    using fold_update_sources [of "[]" "mg_sources m"] by simp
  with assms(2,3) show ?thesis
    by (cases m) (simp add: OpenManager_def persistLocked_def Let_def NewManager_def)
qed

section \<open>Runs of a manager and its file\<close>

lemma manager_path:
  "Save flt fresh s m d = (r, m', d') \<Longrightarrow> mg_path m' = mg_path m"
  "Delete flt h i m d w = (e, m1, d1, w1) \<Longrightarrow> mg_path m1 = mg_path m"
  "finish_sync ff now message hh i fetched m d w = (x, m2, d2, w2) \<Longrightarrow> mg_path m2 = mg_path m"
  by (auto simp: Save_def Delete_def finish_sync_def Let_def split: if_splits option.splits prod.splits sum.splits)

lemma OpenManager_inv:
  assumes "OpenManager u fname Map.empty = Inr m"
  shows "manager_inv m \<and> (fname \<noteq> [] \<longrightarrow> mg_path m = filepath_Clean fname)"
  using assms by (auto simp: OpenManager_def Let_def NewManager_def manager_inv_def split: if_splits)

text \<open>A run from the manager opened on a disk: saves, deletions and ends of synchronisations, in any
  order and with any write faults, and the wake-up of the scheduler. The flags say whether the last
  write the run tried reached the file, and whether every synchronisation that ended found its
  source still there.\<close>

inductive feeds_run :: "'w sync_handler \<Rightarrow> 'w delete_handler option \<Rightarrow> manager \<Rightarrow> feeds_disk
    \<Rightarrow> manager \<Rightarrow> feeds_disk \<Rightarrow> bool \<Rightarrow> bool \<Rightarrow> bool"
  for h onDelete m0 d0 where
  feeds_begin: "feeds_run h onDelete m0 d0 m0 d0 True True"
| feeds_save: "feeds_run h onDelete m0 d0 m d written known \<Longrightarrow> Save flt fresh s m d = ((e, s'), m', d') \<Longrightarrow>
    feeds_run h onDelete m0 d0 m' d'
      (if e = Some NameRequired \<or> e = Some URLRequired then written else e = None) known"
| feeds_delete: "feeds_run h onDelete m0 d0 m d written known \<Longrightarrow> Delete flt onDelete i m d w = (e, m', d', w') \<Longrightarrow>
    feeds_run h onDelete m0 d0 m' d' (if lookup (mg_sources m) i = None then written else flt = None) known"
| feeds_sync: "feeds_run h onDelete m0 d0 m d written known \<Longrightarrow>
    finish_sync ff now message (Some h) i fetched m d w = ((n, err), m', d', w') \<Longrightarrow>
    feeds_run h onDelete m0 d0 m' d'
      ((case err of None \<Rightarrow> ff_store ff | Some (FetchFeed _) \<Rightarrow> ff_fetch ff | Some _ \<Rightarrow> ff_handler ff) = None)
      (known \<and> lookup (mg_sources m) i \<noteq> None)"
| feeds_woken: "feeds_run h onDelete m0 d0 m d written known \<Longrightarrow>
    feeds_run h onDelete m0 d0 (m\<lparr>mg_wake := False\<rparr>) d written known"

text \<open>The sources a document opens to, and the document a path holds.\<close>

definition sources_of :: "source list \<Rightarrow> (string, source) gomap" where
  "sources_of list = fold (\<lambda>s sources. AList.update (so_ID s) s sources) list []"

definition file_sources :: "string \<Rightarrow> feeds_disk \<Rightarrow> source list option" where
  "file_sources p d = (case d p of None \<Rightarrow> Some [] | Some (Document list) \<Rightarrow> Some list | Some _ \<Rightarrow> None)"

definition keyed :: "(string, source) gomap \<Rightarrow> bool" where
  "keyed ms = (wf_map ms \<and> (\<forall>k s. lookup ms k = Some s \<longrightarrow> so_ID s = k))"

lemma keyed_update: "keyed ms \<Longrightarrow> so_ID s = k \<Longrightarrow> keyed (AList.update k s ms)"
  by (simp add: keyed_def wf_map_update)

lemma keyed_delete: "keyed ms \<Longrightarrow> keyed (AList.delete k ms)"
  by (simp add: keyed_def wf_map_delete)

lemma keyed_sources_of: "keyed (sources_of list)"
proof -
  have "keyed acc \<Longrightarrow> keyed (fold (\<lambda>s sources. AList.update (so_ID s) s sources) list acc)" for acc
  proof (induction list arbitrary: acc)
    case (Cons s list)
    from Cons.IH [OF keyed_update [OF Cons.prems refl]] show ?case by simp
  qed simp
  moreover have "keyed []" by (simp add: keyed_def)
  ultimately show ?thesis unfolding sources_of_def by blast
qed

lemma sources_of_keyed: "keyed ms \<Longrightarrow> sources_of (map snd ms) = ms"
  using fold_update_sources [of "[]" ms] unfolding sources_of_def keyed_def by fastforce

lemma open_sources:
  assumes "fname \<noteq> []"
  shows "OpenManager False fname d =
    (case file_sources (filepath_Clean fname) d of
       None \<Rightarrow> Inl DecodeFeeds
     | Some list \<Rightarrow> Inr (NewManager\<lparr>mg_path := filepath_Clean fname, mg_sources := sources_of list\<rparr>))"
  using assms
  by (auto simp: OpenManager_def file_sources_def sources_of_def NewManager_def Let_def
      split: option.split file_image.split)

lemma persistLocked_file:
  assumes "persistLocked flt m d = (e, d')" "mg_path m \<noteq> []"
  shows "(e = None \<longleftrightarrow> flt = None) \<and>
    file_sources (mg_path m) d' = (if flt = None then Some (map snd (mg_sources m)) else file_sources (mg_path m) d)"
  using assms by (auto simp: persistLocked_def file_sources_def Let_def split: option.splits feeds_fault.splits)

definition feeds_inv :: "string \<Rightarrow> manager \<Rightarrow> feeds_disk \<Rightarrow> bool \<Rightarrow> bool \<Rightarrow> bool" where
  "feeds_inv p m d written known = (mg_path m = p \<and> (known \<longrightarrow> keyed (mg_sources m)) \<and>
     (\<exists>list. file_sources p d = Some list \<and> (written \<longrightarrow> sources_of list = sources_of (map snd (mg_sources m)))))"

text \<open>One write of a changed manager, whatever becomes of it.\<close>

lemma feeds_inv_write:
  assumes "feeds_inv p m d written known" "p \<noteq> []" "mg_path m' = p" "known' \<longrightarrow> keyed (mg_sources m')"
  shows "feeds_inv p m' (snd (persistLocked flt m' d)) (flt = None) known'"
proof -
  obtain e d' where "persistLocked flt m' d = (e, d')" by fastforce
  with persistLocked_file [OF this] assms show ?thesis by (auto simp: feeds_inv_def)
qed

lemma feeds_inv_run:
  assumes "feeds_run h onDelete m0 d0 m d written known" "feeds_inv p m0 d0 True True" "p \<noteq> []"
  shows "feeds_inv p m d written known"
  using assms
proof (induction rule: feeds_run.induct)
  case (feeds_save m d written known flt fresh s e s' m' d')
  note inv = feeds_save.IH [OF feeds_save.prems]
  show ?case
  proof (cases "so_Name s = [] \<or> so_URL s = []")
    case True
    with feeds_save.hyps(2) inv show ?thesis by (auto simp: Save_def split: if_splits)
  next
    case False
    let ?s = "saved_source fresh m s"
    let ?m = "m\<lparr>mg_sources := AList.update (so_ID ?s) ?s (mg_sources m)\<rparr>"
    obtain e1 d1 where w: "persistLocked flt ?m d = (e1, d1)" by fastforce
    have r: "e = e1" "d' = d1" "m' = (if e1 = None then ?m\<lparr>mg_wake := True\<rparr> else ?m)"
      using feeds_save.hyps(2) False w by (auto simp: Save_def Let_def split: option.splits)
    have "mg_path m \<noteq> []" using inv feeds_save.prems(2) by (simp add: feeds_inv_def)
    then have e1: "e1 = None \<longleftrightarrow> flt = None" "e1 \<noteq> Some NameRequired" "e1 \<noteq> Some URLRequired"
      using w by (auto simp: persistLocked_def Let_def split: if_splits option.splits feeds_fault.splits)
    have "feeds_inv p ?m (snd (persistLocked flt ?m d)) (flt = None) known"
      using inv by (intro feeds_inv_write [OF inv feeds_save.prems(2)]) (auto simp: feeds_inv_def keyed_update)
    with w r e1 show ?thesis by (auto simp: feeds_inv_def)
  qed
next
  case (feeds_delete m d written known flt i w e m' d' w')
  note inv = feeds_delete.IH [OF feeds_delete.prems]
  show ?case
  proof (cases "lookup (mg_sources m) i")
    case None
    with feeds_delete.hyps(2) inv show ?thesis by (auto simp: Delete_def)
  next
    case (Some s)
    let ?m = "m\<lparr>mg_sources := AList.delete i (mg_sources m)\<rparr>"
    have "m' = ?m \<and> d' = snd (persistLocked flt ?m d)"
      using feeds_delete.hyps(2) Some by (auto simp: Delete_def Let_def split: option.splits if_splits prod.splits)
    moreover have "feeds_inv p ?m (snd (persistLocked flt ?m d)) (flt = None) known"
      using inv by (intro feeds_inv_write [OF inv feeds_delete.prems(2)]) (auto simp: feeds_inv_def keyed_delete)
    ultimately show ?thesis using Some by simp
  qed
next
  case (feeds_sync m d written known ff now message i fetched w n err m' d' w')
  note inv = feeds_sync.IH [OF feeds_sync.prems]
  let ?known = "known \<and> lookup (mg_sources m) i \<noteq> None"
  define source where "source = (case lookup (mg_sources m) i of Some s \<Rightarrow> s | None \<Rightarrow> zero_source)"
  have id: "so_ID source = i" if ?known
    using that inv by (auto simp: source_def feeds_inv_def keyed_def)
  have keyed_put: "?known \<longrightarrow> keyed (AList.update i s ms)" if "so_ID s = so_ID source" "?known \<longrightarrow> keyed ms" for s ms
    using that id by (auto intro: keyed_update)
  have k0: "?known \<longrightarrow> keyed (mg_sources m)" "mg_path m = p" using inv by (auto simp: feeds_inv_def)
  show ?case
  proof (cases fetched)
    case (Inl e)
    let ?m = "m\<lparr>mg_sources := AList.update i (source\<lparr>so_LastSync := now, so_LastError := message e\<rparr>) (mg_sources m)\<rparr>"
    have "m' = ?m \<and> d' = snd (persistLocked (ff_fetch ff) ?m d) \<and> err = Some (FetchFeed e)"
      using feeds_sync.hyps(2) Inl by (auto simp: finish_sync_def Let_def source_def)
    moreover have "feeds_inv p ?m (snd (persistLocked (ff_fetch ff) ?m d)) (ff_fetch ff = None) ?known"
      using k0 by (intro feeds_inv_write [OF inv feeds_sync.prems(2)]) (auto intro!: keyed_put [rule_format])
    ultimately show ?thesis by simp
  next
    case (Inr ps)
    let ?s = "source\<lparr>so_LastSync := now, so_LastError := [], so_PrefixCount := int (length (new_texts ps)),
      so_Prefixes := new_texts ps\<rparr>"
    let ?m = "m\<lparr>mg_sources := AList.update i ?s (mg_sources m)\<rparr>"
    let ?d = "snd (persistLocked (ff_store ff) ?m d)"
    have k1: "?known \<longrightarrow> keyed (AList.update i ?s (mg_sources m))" using k0 by (intro keyed_put) simp_all
    have stored: "feeds_inv p ?m ?d (ff_store ff = None) ?known"
      using k0 k1 by (intro feeds_inv_write [OF inv feeds_sync.prems(2)]) simp_all
    obtain e w1 where h: "h ?s (feed_toAdd (so_Prefixes source) (new_texts ps))
        (feed_toRemove (so_Prefixes source) (new_texts ps)) w = (e, w1)" by fastforce
    show ?thesis
    proof (cases e)
      case None
      with feeds_sync.hyps(2) Inr h have "m' = ?m \<and> d' = ?d \<and> err = None"
        by (auto simp: finish_sync_def Let_def source_def)
      with stored show ?thesis by simp
    next
      case (Some x)
      let ?m2 = "?m\<lparr>mg_sources := AList.update i (?s\<lparr>so_LastError := x\<rparr>) (mg_sources ?m)\<rparr>"
      have "m' = ?m2 \<and> d' = snd (persistLocked (ff_handler ff) ?m2 ?d) \<and> err = Some (HandlerFailed x)"
        using Some feeds_sync.hyps(2) Inr h by (auto simp: finish_sync_def Let_def source_def)
      moreover have "?known \<longrightarrow> keyed (mg_sources ?m2)"
        using k1 keyed_put [of "?s\<lparr>so_LastError := x\<rparr>" "AList.update i ?s (mg_sources m)"] by simp
      then have "feeds_inv p ?m2 (snd (persistLocked (ff_handler ff) ?m2 ?d)) (ff_handler ff = None) ?known"
        using k0 by (intro feeds_inv_write [OF stored feeds_sync.prems(2)]) simp_all
      ultimately show ?thesis by simp
    qed
  qed
qed (auto simp: feeds_inv_def)

lemma feeds_run_names:
  assumes "feeds_run h onDelete m0 d0 m d written known" "known" "manager_inv m0"
  shows "manager_inv m"
  using assms
proof (induction rule: feeds_run.induct)
  case (feeds_sync m d written known ff now message i fetched w n err m' d' w')
  then show ?case using finish_sync_inv by (metis option.exhaust)
qed (auto intro: Save_inv Delete_inv)

section \<open>Properties\<close>

text \<open>C28: The feeds survive a restart. Let a manager be opened on a named file, which may exist already,
  and run through any saves, deletions and ends of synchronisations, with any write faults. The file
  can always be opened again. If the last write that was tried succeeded, it opens to the sources the
  manager holds, each under its own identifier; as long as no synchronisation ended for a feed that
  had been deleted meanwhile, these are exactly the sources of the manager, each still with a name
  and a list if they had them at the start.\<close>

theorem manager_reload:
  assumes "OpenManager u fname d0 = Inr m0" "fname \<noteq> []" "feeds_run h onDelete m0 d0 m d written known"
  shows "(\<exists>m'. OpenManager False fname d = Inr m') \<and>
    (written \<longrightarrow> OpenManager False fname d =
       Inr (m\<lparr>mg_sources := sources_of (map snd (mg_sources m)), mg_wake := False\<rparr>)) \<and>
    (written \<and> known \<longrightarrow> OpenManager False fname d = Inr (m\<lparr>mg_wake := False\<rparr>)) \<and>
    (known \<and> manager_inv m0 \<longrightarrow> manager_inv m)"
proof -
  let ?p = "filepath_Clean fname"
  have "OpenManager False fname d0 = Inr m0" using assms(1,2) by (auto simp: OpenManager_def Let_def split: if_splits)
  then obtain list where l: "file_sources ?p d0 = Some list" "m0 = NewManager\<lparr>mg_path := ?p, mg_sources := sources_of list\<rparr>"
    by (auto simp: open_sources [OF assms(2)] split: option.splits)
  then have "feeds_inv ?p m0 d0 True True"
    by (simp add: feeds_inv_def keyed_sources_of sources_of_keyed)
  from feeds_inv_run [OF assms(3) this filepath_Clean_nonempty] have inv: "feeds_inv ?p m d written known" .
  moreover have "NewManager\<lparr>mg_path := mg_path m, mg_sources := ms\<rparr> = m\<lparr>mg_sources := ms, mg_wake := False\<rparr>" for ms
    by (simp add: NewManager_def)
  ultimately show ?thesis
    using feeds_run_names [OF assms(3)] sources_of_keyed [of "mg_sources m"]
    by (auto simp: open_sources [OF assms(2)] feeds_inv_def)
qed

definition sample_source :: source where
  "sample_source = zero_source\<lparr>so_Name := ''n'', so_URL := ''u''\<rparr>"

theorem manager_reload_witness:
  "\<exists>m d. mg_sources m \<noteq> [] \<and> Save None ''00'' sample_source (NewManager\<lparr>mg_path := ''p''\<rparr>) Map.empty =
       ((None, the (lookup (mg_sources m) ''feed-00'')), m, d) \<and>
     OpenManager False ''p'' d = Inr (m\<lparr>mg_wake := False\<rparr>)"
proof -
  have opened: "OpenManager False ''p'' Map.empty = Inr (NewManager\<lparr>mg_path := ''p''\<rparr>)"
    by (simp add: OpenManager_def Let_def)
  obtain e s m d where s: "Save None ''00'' sample_source (NewManager\<lparr>mg_path := ''p''\<rparr>) Map.empty = ((e, s), m, d)"
    by (metis prod.collapse)
  then have m: "mg_sources m = [(''feed-00'', s)]" "e = None"
    by (auto simp: Save_def Let_def sample_source_def persistLocked_def NewManager_def saved_source_def zero_source_def)
  have "feeds_run (\<lambda>_ _ _ w :: unit. (None, w)) None (NewManager\<lparr>mg_path := ''p''\<rparr>) Map.empty m d True True"
    using feeds_save [OF feeds_begin s] m(2) by simp
  then have "OpenManager False ''p'' d = Inr (m\<lparr>mg_wake := False\<rparr>)"
    using manager_reload [OF opened] by blast
  with s m show ?thesis by (intro exI [of _ m] exI [of _ d]) simp
qed

text \<open>C29: A synchronisation hands on exactly the difference: the handler gets the fetched prefixes the
  source did not have and those it had that were not fetched, each once, and afterwards the source
  owns the fetched prefixes and every other source is as it was.\<close>

theorem sync_diff_exact:
  assumes "lookup (mg_sources m) i = Some s"
    and "finish_sync ff now message (Some h) i (Inr ps) m d w = ((n, err), m', d', w')"
  shows "\<exists>s' source toAdd toRemove. lookup (mg_sources m') i = Some s' \<and>
      set (so_Prefixes s') = prefix_String ` set ps \<and> distinct (so_Prefixes s') \<and>
      (\<forall>j. j \<noteq> i \<longrightarrow> lookup (mg_sources m') j = lookup (mg_sources m) j) \<and>
      snd (h source toAdd toRemove w) = w' \<and> so_List source = so_List s \<and>
      set toAdd = prefix_String ` set ps - set (so_Prefixes s) \<and> distinct toAdd \<and>
      set toRemove = set (so_Prefixes s) - prefix_String ` set ps \<and> distinct toRemove"
proof -
  from finish_sync_ok [OF assms] obtain s' s1 e where
      "lookup (mg_sources m') i = Some s'" "so_Prefixes s' = new_texts ps" "so_List s1 = so_List s"
      "\<forall>j. j \<noteq> i \<longrightarrow> lookup (mg_sources m') j = lookup (mg_sources m) j"
      "h s1 (feed_toAdd (so_Prefixes s) (new_texts ps)) (feed_toRemove (so_Prefixes s) (new_texts ps)) w = (e, w')"
    by blast
  then show ?thesis
    by (intro exI [of _ s'] exI [of _ s1] exI [of _ "feed_toAdd (so_Prefixes s) (new_texts ps)"]
        exI [of _ "feed_toRemove (so_Prefixes s) (new_texts ps)"]) (simp add: differences)
qed

definition sample_manager :: manager where
  "sample_manager = NewManager\<lparr>mg_sources := [(''i'', sample_source\<lparr>so_ID := ''i'', so_List := ''blocklist'',
     so_Prefixes := [''old'']\<rparr>)]\<rparr>"

definition sample_faults :: feed_faults where
  "sample_faults = \<lparr>ff_fetch = None, ff_store = None, ff_handler = None\<rparr>"

text \<open>A handler that records its arguments and fails when told to.\<close>

definition log_handler :: "bool \<Rightarrow> (string list \<times> string list) list sync_handler" where
  "log_handler ok s toAdd toRemove w = (if ok then None else Some ''refused'', w @ [(toAdd, toRemove)])"

theorem sync_diff_exact_witness:
  "\<exists>m' d' w'. snd (finish_sync sample_faults 5 (\<lambda>_. []) (Some (log_handler True)) ''i'' (Inr []) sample_manager Map.empty [])
     = (m', d', w') \<and> (\<exists>toAdd toRemove. w' = [(toAdd, toRemove)] \<and> set toRemove = {''old''})"
proof -
  obtain n err m' d' w' where f: "finish_sync sample_faults 5 (\<lambda>_. []) (Some (log_handler True)) ''i'' (Inr [])
      sample_manager Map.empty [] = ((n, err), m', d', w')"
    by (metis prod.collapse)
  have l: "lookup (mg_sources sample_manager) ''i'' =
      Some (sample_source\<lparr>so_ID := ''i'', so_List := ''blocklist'', so_Prefixes := [''old'']\<rparr>)"
    by (simp add: sample_manager_def)
  from sync_diff_exact [OF l f] obtain source toAdd toRemove where
      "snd (log_handler True source toAdd toRemove []) = w'" "set toRemove = {''old''}" by auto
  then have "w' = [(toAdd, toRemove)]" "set toRemove = {''old''}" by (simp_all add: log_handler_def)
  with f show ?thesis by auto
qed

text \<open>A refused synchronisation is never retried. When the handler fails, the source already owns the
  fetched prefixes, so that the next synchronisation with the same list hands on empty differences:
  what the handler did not apply stays unapplied until the list itself changes.\<close>

theorem refused_sync_not_retried:
  assumes "lookup (mg_sources m) i = Some s"
    and "finish_sync ff now message (Some h) i (Inr ps) m d w = ((n, Some (HandlerFailed e)), m1, d1, w1)"
    and "finish_sync ff' now' message (Some h') i (Inr ps) m1 d2 w2 = ((n', err), m2, d3, w3)"
  shows "\<exists>source. snd (h' source [] [] w2) = w3 \<and> so_Prefixes source = new_texts ps"
proof -
  obtain s' where s': "lookup (mg_sources m1) i = Some s'" "so_Prefixes s' = new_texts ps"
    using finish_sync_ok [OF assms(1,2)] by blast
  have "feed_toAdd (new_texts ps) (new_texts ps) = []" "feed_toRemove (new_texts ps) (new_texts ps) = []"
    by (simp_all add: feed_toAdd_def feed_toRemove_def)
  with finish_sync_ok [OF s'(1) assms(3)] s'(2) show ?thesis by (metis snd_conv)
qed

theorem refused_sync_not_retried_witness:
  "\<exists>m1 m2 d w. fst (finish_sync sample_faults 5 (\<lambda>_. []) (Some (log_handler False)) ''i'' (Inr []) sample_manager Map.empty [])
       = (0, Some (HandlerFailed ''refused'')) \<and>
     snd (finish_sync sample_faults 6 (\<lambda>_. []) (Some (log_handler True)) ''i'' (Inr []) m1 Map.empty []) =
       (m2, d, w) \<and> w = [([], [])]"
proof -
  let ?r = "finish_sync sample_faults 5 (\<lambda>_. []) (Some (log_handler False)) ''i'' (Inr []) sample_manager Map.empty []"
  have l: "lookup (mg_sources sample_manager) ''i'' =
      Some (sample_source\<lparr>so_ID := ''i'', so_List := ''blocklist'', so_Prefixes := [''old'']\<rparr>)"
    by (simp add: sample_manager_def)
  have f: "fst ?r = (0, Some (HandlerFailed ''refused''))"
    by (simp add: finish_sync_def l Let_def log_handler_def new_texts_def)
  obtain m1 d1 w1 where r: "?r = ((0, Some (HandlerFailed ''refused'')), m1, d1, w1)"
    using f by (cases ?r) auto
  obtain n' err m2 d3 w3 where r2: "finish_sync sample_faults 6 (\<lambda>_. []) (Some (log_handler True)) ''i'' (Inr [])
      m1 Map.empty [] = ((n', err), m2, d3, w3)"
    by (metis prod.collapse)
  from refused_sync_not_retried [OF l r r2] have "w3 = [([], [])]" by (auto simp: log_handler_def)
  with f r2 show ?thesis by (intro exI [of _ m1] exI [of _ m2] exI [of _ d3] exI [of _ w3]) simp
qed

text \<open>A source deleted while its download runs comes back without identifier, name or list.\<close>

lemma deleted_feed_returns:
  assumes "Delete flt h i m d w = (e, m1, d1, w1)" "wf_map (mg_sources m)"
    and "finish_sync ff now message hh i fetched m1 d2 w2 = (r, m2, d3, w3)"
  shows "\<exists>s. lookup (mg_sources m2) i = Some s \<and> so_ID s = [] \<and> so_Name s = [] \<and> so_List s = []"
proof -
  have "lookup (mg_sources m1) i = None"
    using assms(1) by (auto simp: Delete_def Let_def split: option.splits if_splits prod.splits)
  with assms(3) show ?thesis
    by (auto simp: finish_sync_def Let_def zero_source_def split: sum.splits option.splits prod.splits)
qed

end
