(* ===== verification/Server_Setup.thy ===== *)
theory Server_Setup
  imports Runtime_Config Controller Policy_Queue Cursor_File Feed_Manager
begin

text \<open>
  \<open>NewServer\<close> of \<open>internal/runtime/server.go\<close>: from validated settings to a server, with the files, the
  database and GoBGP it opens as arguments. The store, the database and the engine that the source
  reaches through several pointers are those of the controller.
\<close>

section \<open>Server\<close>

text \<open>\<open>srv_syncing\<close> is the set of feeds the dashboard's backend is synchronising, \<open>srv_jobs\<close> the
  synchronisations it has started in the background.\<close>

record 'e server =
  srv_config :: settings
  srv_controller :: "'e controller"
  srv_queue :: policy_queue
  srv_cursor :: "64 word"
  srv_feeds :: manager
  srv_feedsDisk :: feeds_disk
  srv_syncing :: "string list"
  srv_jobs :: "string list"

datatype server_error =
    InvalidSettings config_error
  | BadBGPListen
  | BadBGPPort
  | EngineRejected engine_error
  | OpenPolicyStore store_error
  | OpenSQLStore sql_error
  | LoadCursorFailed cursor_error
  | OpenFeedManager manager_error

text \<open>What a start finds: GoBGP, the policy file, the database of a driver and data source, the cursor
  file, the feed file, and for each of the two default feeds the fault of its save and its random
  identifier.\<close>

record ('g, 'n, 'a) start_world =
  sw_gobgp :: "('g, 'n, 'a) gobgp"
  sw_bgp :: 'g
  sw_policyUnreadable :: bool
  sw_policyDisk :: disk
  sw_registered :: "string \<Rightarrow> bool"
  sw_pragmaFails :: bool
  sw_sqlFault :: "nat option"
  sw_stored :: "string \<Rightarrow> string \<Rightarrow> db"
  sw_cursorIO :: cursor_io
  sw_cursorDisk :: cursor_disk
  sw_feedsUnreadable :: bool
  sw_feedsDisk :: feeds_disk
  sw_saveFault1 :: "feeds_fault option"
  sw_saveFault2 :: "feeds_fault option"
  sw_fresh1 :: string
  sw_fresh2 :: string

definition ParseInt32 :: "string \<Rightarrow> int option" where
  "ParseInt32 s =
     (case Atoi s of
        None \<Rightarrow> None
      | Some v \<Rightarrow> if - (2 ^ 31) \<le> v \<and> v < 2 ^ 31 then Some v else None)"

definition engine_config :: "settings \<Rightarrow> string \<Rightarrow> int \<Rightarrow> config" where
  "engine_config c host port =
     \<lparr>LocalASN = c_LocalASN c, RouterID = c_RouterID c, ListenAddresses = [host],
      ListenPort = word_of_int port, ListenRanges = c_ListenRanges c,
      AllowedASNs = c_AllowedASNs c, MaxSessions = c_MaxSessions c\<rparr>"

text \<open>The policy store and the settings after it: a file name with a database suffix stands for a
  database.\<close>

definition open_policy :: "('g, 'n, 'a) start_world \<Rightarrow> settings \<Rightarrow> store_error + (store \<times> settings)" where
  "open_policy W c =
     (if c_PolicyFile c = [] then Inr (New, c)
      else if HasSuffix (c_PolicyFile c) ''.db'' \<or> HasSuffix (c_PolicyFile c) ''.sqlite'' then
        Inr (New, if c_DBDriver c = [] then c\<lparr>c_DBDriver := ''sqlite'', c_DBDSN := c_PolicyFile c\<rparr> else c)
      else case Open (sw_policyUnreadable W) (c_PolicyFile c) (sw_policyDisk W) of
        Inl e \<Rightarrow> Inl e
      | Inr s \<Rightarrow> Inr (s, c))"

definition open_sql :: "('g, 'n, 'a) start_world \<Rightarrow> settings \<Rightarrow> sql_error + db option" where
  "open_sql W c =
     (if c_DBDriver c = [] then Inr None
      else
        let dsn = (if c_DBDSN c = [] then ''policy.db'' else c_DBDSN c) in
        case sql_Open (sw_registered W) (sw_pragmaFails W) (sw_sqlFault W) (c_DBDriver c)
               (sw_stored W (c_DBDriver c) dsn) of
          Inl e \<Rightarrow> Inl e
        | Inr s \<Rightarrow> Inr (Some (sql_db s)))"

definition default_feed :: "string \<Rightarrow> string \<Rightarrow> string \<Rightarrow> int \<Rightarrow> bool \<Rightarrow> source" where
  "default_feed name list url interval expand =
     zero_source\<lparr>so_Name := name, so_List := list, so_URL := url, so_Interval := interval,
                 so_Enabled := True, so_ExpandSubnets := expand\<rparr>"

text \<open>The errors of saving the default feeds are dropped.\<close>

definition save_defaults :: "('g, 'n, 'a) start_world \<Rightarrow> settings \<Rightarrow> manager \<times> feeds_disk \<Rightarrow> manager \<times> feeds_disk" where
  "save_defaults W c md =
     (let (m, d) = md;
          (m, d) = (if c_BlocklistFeed c = [] then (m, d)
                    else snd (Save (sw_saveFault1 W) (sw_fresh1 W)
                      (default_feed ''Default Blocklist'' ''blocklist'' (c_BlocklistFeed c) (c_FeedInterval c) False) m d))
      in if c_WhitelistFeed c = [] then (m, d)
         else snd (Save (sw_saveFault2 W) (sw_fresh2 W)
                (default_feed ''Default Whitelist'' ''whitelist'' (c_WhitelistFeed c) (c_FeedInterval c)
                   (c_WhitelistExpandSlash24 c)) m d))"

text \<open>The server from what was opened; the feeds of the settings are saved into the manager.\<close>

definition feed_file :: "settings \<Rightarrow> string" where
  "feed_file c = (if c_PolicyFile c = [] then [] else c_PolicyFile c @ ''.feeds.json'')"

definition make_server :: "('g, 'n, 'a) start_world \<Rightarrow> settings \<Rightarrow> ('g, 'n, 'a) engine \<Rightarrow> store \<Rightarrow> db option
    \<Rightarrow> 64 word \<Rightarrow> manager \<Rightarrow> ('g, 'n, 'a) engine server" where
  "make_server W c eng s sql cursor m =
     (let controller = newPolicyController s (sw_policyDisk W) sql eng (c_DryRun c) (c_RTBHNextHopV4 c)
            (c_RTBHNextHopV6 c) False;
          controller = (if addr_IsValid (c_RTBHNextHopV4 c) then controller
                        else controller\<lparr>ct_nextHopV4 := c_RouterID c\<rparr>);
          (m, d) = save_defaults W c (m, sw_feedsDisk W)
      in \<lparr>srv_config = c, srv_controller = controller, srv_queue = newPolicyQueue,
          srv_cursor = cursor, srv_feeds = m, srv_feedsDisk = d, srv_syncing = [], srv_jobs = []\<rparr>)"

definition NewServer :: "('g, 'n, 'a) start_world \<Rightarrow> settings \<Rightarrow> server_error + ('g, 'n, 'a) engine server" where
  "NewServer W c =
     (case validateCommon c of Some e \<Rightarrow> Inl (InvalidSettings e) | None \<Rightarrow>
     (case validateServer c of Some e \<Rightarrow> Inl (InvalidSettings e) | None \<Rightarrow>
     (case SplitHostPort (c_BGPListenAddress c) of None \<Rightarrow> Inl BadBGPListen | Some (host, portRaw) \<Rightarrow>
     (case ParseInt32 portRaw of None \<Rightarrow> Inl BadBGPPort | Some port \<Rightarrow>
        if port < -1 \<or> port = 0 \<or> port > 65535 then Inl BadBGPPort else
     (case engine_New (sw_gobgp W) (sw_bgp W) (engine_config c host port) of Inl e \<Rightarrow> Inl (EngineRejected e) | Inr eng \<Rightarrow>
     (case open_policy W c of Inl e \<Rightarrow> Inl (OpenPolicyStore e) | Inr (s, c) \<Rightarrow>
     (case open_sql W c of Inl e \<Rightarrow> Inl (OpenSQLStore e) | Inr sql \<Rightarrow>
     (case loadCursor (sw_cursorIO W) (c_CursorFile c) (sw_cursorDisk W) of Inl e \<Rightarrow> Inl (LoadCursorFailed e) | Inr cursor \<Rightarrow>
     (case OpenManager (sw_feedsUnreadable W) (feed_file c) (sw_feedsDisk W) of Inl e \<Rightarrow> Inl (OpenFeedManager e) | Inr m \<Rightarrow>
        Inr (make_server W c eng s sql cursor m))))))))))"

section \<open>Settings a server accepts\<close>

lemma ranges_valid_all: "(\<forall>p\<in>set ps. prefix_IsValid p) \<Longrightarrow> ranges_valid ps = None"
  by (induction ps) auto

lemma asns_valid_all: "0 \<notin> set as \<Longrightarrow> asns_valid as = None"
  by (induction as) auto

lemma port_word: "-1 \<le> p \<Longrightarrow> p \<le> 65535 \<Longrightarrow> sint (word_of_int p :: 32 word) = p"
  using signed_take_bit_int_eq_self [of 31 p] by (simp add: sint_sbintrunc')

text \<open>The settings checks are stronger than those of the engine, which therefore never refuses.\<close>

lemma engine_accepts:
  assumes "validateServer c = None" "-1 \<le> port" "port \<noteq> 0" "port \<le> 65535"
  shows "validate_config (engine_config c host port) = None"
proof -
  have r: "c_LocalASN c \<noteq> 0" "Is4 (c_RouterID c)" "c_ListenRanges c \<noteq> []" "1 \<le> c_MaxSessions c"
    "\<forall>p\<in>set (c_ListenRanges c). prefix_IsValid p" "0 \<notin> set (c_AllowedASNs c)"
    using assms(1) by (auto simp: validateServer_def split: if_splits)
  have s: "sint (word_of_int port :: 32 word) = port" using assms(2,4) by (rule port_word)
  then have "word_of_int port \<noteq> (0 :: 32 word)" using assms(3) by auto
  moreover have "addr_IsValid (c_RouterID c)" using r(2) by (cases "c_RouterID c") (auto simp: addr_IsValid_def)
  ultimately show ?thesis using r s assms(2,4)
    by (simp add: validate_config_def engine_config_def ranges_valid_all asns_valid_all)
qed

lemma NewServer_Inr:
  assumes "NewServer W c = Inr s"
  obtains host port eng st c' sql cursor m where
    "validateCommon c = None" "validateServer c = None"
    "engine_New (sw_gobgp W) (sw_bgp W) (engine_config c host port) = Inr eng"
    "open_policy W c = Inr (st, c')" "open_sql W c' = Inr sql"
    "loadCursor (sw_cursorIO W) (c_CursorFile c') (sw_cursorDisk W) = Inr cursor"
    "OpenManager (sw_feedsUnreadable W) (feed_file c') (sw_feedsDisk W) = Inr m"
    "s = make_server W c' eng st sql cursor m"
  using assms unfolding NewServer_def
  by (auto split: option.splits if_splits sum.splits prod.splits)

lemma make_server_fields [simp]:
  "srv_config (make_server W c eng st sql cursor m) = c"
  "ct_store (srv_controller (make_server W c eng st sql cursor m)) = st"
  "ct_sql (srv_controller (make_server W c eng st sql cursor m)) = sql"
  "ct_engine (srv_controller (make_server W c eng st sql cursor m)) = eng"
  "ct_dryRun (srv_controller (make_server W c eng st sql cursor m)) = c_DryRun c"
  "ct_active (srv_controller (make_server W c eng st sql cursor m)) = []"
  "ct_disk (srv_controller (make_server W c eng st sql cursor m)) = sw_policyDisk W"
  "ct_published (srv_controller (make_server W c eng st sql cursor m)) = []"
  "srv_queue (make_server W c eng st sql cursor m) = newPolicyQueue"
  "srv_feeds (make_server W c eng st sql cursor m) = fst (save_defaults W c (m, sw_feedsDisk W))"
  "srv_feedsDisk (make_server W c eng st sql cursor m) = snd (save_defaults W c (m, sw_feedsDisk W))"
  by (simp_all add: make_server_def newPolicyController_def Let_def split: prod.splits)

lemma make_server_nextHops [simp]:
  "ct_nextHopV4 (srv_controller (make_server W c eng st sql cursor m)) =
     (if addr_IsValid (c_RTBHNextHopV4 c) then c_RTBHNextHopV4 c else c_RouterID c)"
  "ct_nextHopV6 (srv_controller (make_server W c eng st sql cursor m)) = c_RTBHNextHopV6 c"
  by (simp_all add: make_server_def newPolicyController_def Let_def split: prod.splits)

section \<open>A store without a file\<close>

definition in_memory :: "'e controller \<Rightarrow> bool" where
  "in_memory c = (ct_sql c = None \<and> path (ct_store c) = [])"

lemma commit_store_memory:
  "path s = [] \<Longrightarrow> \<exists>r s'. commit_store io now operation list p bl wl es s d = (r, s', d) \<and> path s' = []"
  by (simp add: commit_store_def Let_def)

lemma mutate_memory: "path s = [] \<Longrightarrow> \<exists>r s'. mutate io now operation list p s d = (r, s', d) \<and> path s' = []"
  unfolding mutate_def Let_def by (auto simp: commit_store_def Let_def)

lemma AddUntil_memory: "path s = [] \<Longrightarrow> \<exists>r s'. AddUntil io now list p t s d = (r, s', d) \<and> path s' = []"
  unfolding AddUntil_def Let_def by (auto simp: commit_store_def Let_def)

lemma result_error_memory:
  "\<exists>r s'. x = (r, s', d) \<and> path s' = [] \<Longrightarrow> \<exists>r s'. result_error f x = (r, s', d) \<and> path s' = []"
  by (auto simp: result_error_def split: sum.splits)

lemma mutateStore_memory:
  assumes "path s = []"
  shows "\<exists>r s'. mutateStore io now operation list raw s d = (r, s', d) \<and> path s' = []"
  by (auto simp: mutateStore_def store_Add_def store_Remove_def Let_def assms split: option.split
      intro!: result_error_memory mutate_memory [OF assms])

lemma persist_mutation_memory:
  assumes "path s = []"
  shows "\<exists>r s'. persist_mutation env m p s d = (r, s', d) \<and> path s' = []"
  by (cases "pm_ExpiresAt m")
    (simp_all add: persist_mutation_def mutateStore_memory [OF assms] result_error_memory [OF AddUntil_memory [OF assms]])

lemma applyDelta_disk: "ct_disk (snd (applyDelta an wd r c)) = ct_disk c"
  using applyDelta_frame(2) [of an wd r c] by (metis prod.collapse)

lemma applyLocked_memory:
  assumes "in_memory c" and "applyLocked an wd env m c = (x, c')"
  shows "in_memory c' \<and> ct_disk c' = ct_disk c"
  using assms(2)
proof (cases rule: applyLocked_cases)
  case (delta p list bl wl y)
  from applyDelta_frame [OF delta(5)] assms(1) show ?thesis by (simp add: in_memory_def)
next
  case (persist p list bl wl e s d c1)
  note f = applyDelta_frame [OF persist(4)]
  have "d = ct_disk c1" "path s = []"
    using persist_mutation_memory [of "ct_store c1" env m p "ct_disk c1"] persist(5) f assms(1)
    by (auto simp: in_memory_def)
  with persist(7) f assms(1) show ?thesis by (simp add: applyDelta_snd_frame applyDelta_disk in_memory_def)
next
  case (commit p list bl wl s d c1)
  note f = applyDelta_frame [OF commit(4)]
  have "d = ct_disk c1" "path s = []"
    using persist_mutation_memory [of "ct_store c1" env m p "ct_disk c1"] commit(5) f assms(1)
    by (auto simp: in_memory_def)
  with commit(7) f assms(1) show ?thesis by (simp add: publish_mutation_def in_memory_def)
qed (use assms(1) in auto)

lemma Apply_memory:
  assumes "in_memory c"
  shows "in_memory (snd (Apply an wd env m c)) \<and> ct_disk (snd (Apply an wd env m c)) = ct_disk c"
proof -
  obtain x c' where a: "applyLocked an wd env m c = (x, c')" by fastforce
  then show ?thesis using applyLocked_memory [OF assms a] assms by (auto simp: Apply_def in_memory_def)
qed

lemma open_policy_memory:
  assumes "open_policy W c = Inr (st, c')"
  shows "path st = [] \<longleftrightarrow> c_PolicyFile c = [] \<or> HasSuffix (c_PolicyFile c) ''.db'' \<or> HasSuffix (c_PolicyFile c) ''.sqlite''"
    and "c_PolicyFile c' = c_PolicyFile c" "path st = [] \<Longrightarrow> st = New"
    and "c_PolicyFile c \<noteq> [] \<Longrightarrow> path st = [] \<Longrightarrow> c_DBDriver c' \<noteq> []"
    and "c_PolicyFile c = [] \<Longrightarrow> c' = c" "c_DBDriver c \<noteq> [] \<Longrightarrow> c_DBDriver c' \<noteq> []"
  using assms Open_path by (auto simp: open_policy_def New_def split: if_splits sum.splits)

lemma open_sql_None: "open_sql W c = Inr sql \<Longrightarrow> sql = None \<longleftrightarrow> c_DBDriver c = []"
  by (auto simp: open_sql_def Let_def split: if_splits sum.splits)

section \<open>Default feeds\<close>

lemma Save_fresh:
  assumes "so_ID s0 = []" "so_Name s0 \<noteq> []" "so_URL s0 \<noteq> []"
    and "so_List s0 = ''blocklist'' \<or> so_List s0 = ''whitelist''"
    and "''feed-'' @ fresh \<notin> fst ` set (mg_sources m)"
  shows "\<exists>x m' d'. snd (Save flt fresh s0 m d) = (m', d') \<and> mg_sources m' = mg_sources m @ [(''feed-'' @ fresh, x)] \<and>
     so_URL x = so_URL s0 \<and> mg_path m' = mg_path m"
proof -
  have "AList.update k x ms = ms @ [(k, x)]" if "k \<notin> fst ` set ms" for k :: string and x :: source and ms
    using that by (induction ms) auto
  with assms show ?thesis
    by (auto simp: Save_def saved_source_def Let_def split: prod.split option.split)
qed

lemma save_defaults_blocklist:
  assumes "c_BlocklistFeed c \<noteq> []" "c_WhitelistFeed c = []"
    and "''feed-'' @ sw_fresh1 W \<notin> fst ` set (mg_sources m)"
  shows "\<exists>x. mg_sources (fst (save_defaults W c (m, d))) = mg_sources m @ [(''feed-'' @ sw_fresh1 W, x)] \<and>
     so_URL x = c_BlocklistFeed c"
proof -
  let ?f = "default_feed ''Default Blocklist'' ''blocklist'' (c_BlocklistFeed c) (c_FeedInterval c) False"
  have "so_ID ?f = []" "so_Name ?f \<noteq> []" "so_URL ?f = c_BlocklistFeed c" "so_List ?f = ''blocklist''"
    by (simp_all add: default_feed_def zero_source_def)
  from Save_fresh [of ?f "sw_fresh1 W" m "sw_saveFault1 W" d] this assms show ?thesis
    by (auto simp: save_defaults_def split: prod.splits)
qed

lemma save_defaults_persisted:
  assumes "manager_inv m" "c_BlocklistFeed c \<noteq> []" "c_WhitelistFeed c = []" "sw_saveFault1 W = None"
    and "save_defaults W c (m, d) = (m', d')"
  shows "manager_inv m' \<and> mg_path m' = mg_path m \<and>
    (\<exists>m1. d' = snd (persistLocked None m1 d) \<and> manager_inv m1 \<and> mg_sources m1 = mg_sources m' \<and> mg_path m1 = mg_path m')"
proof -
  let ?f = "default_feed ''Default Blocklist'' ''blocklist'' (c_BlocklistFeed c) (c_FeedInterval c) False"
  let ?s = "saved_source (sw_fresh1 W) m ?f"
  let ?m1 = "m\<lparr>mg_sources := AList.update (so_ID ?s) ?s (mg_sources m)\<rparr>"
  have f: "so_Name ?f \<noteq> []" "so_URL ?f \<noteq> []" using assms(2) by (simp_all add: default_feed_def)
  then have inv: "manager_inv ?m1" using assms(1) by (intro manager_inv_put saved_source_ok)
  obtain d1 where p: "persistLocked None ?m1 d = (None, d1)"
    by (cases "mg_path m = []") (simp_all add: persistLocked_def Let_def)
  have "Save None (sw_fresh1 W) ?f m d = ((None, ?s), ?m1\<lparr>mg_wake := True\<rparr>, d1)"
    unfolding Save_def Let_def p using f by simp
  with assms(2-5) have r: "m' = ?m1\<lparr>mg_wake := True\<rparr>" "d' = snd (persistLocked None ?m1 d)"
    unfolding p by (simp_all add: save_defaults_def)
  with inv show ?thesis by (intro conjI exI [of _ ?m1]) simp_all
qed

text \<open>A feed given by flag or environment is saved without an identifier at every start, so that each
  restart of a server that keeps its feeds in a file adds one more copy of it.\<close>

theorem restart_duplicates_default_feed:
  assumes "NewServer W c = Inr s" "sw_feedsDisk W = Map.empty" "sw_saveFault1 W = None"
    and "NewServer W' c = Inr s'" "sw_feedsDisk W' = srv_feedsDisk s" "\<not> sw_feedsUnreadable W'"
    and "c_PolicyFile c \<noteq> []" "c_BlocklistFeed c \<noteq> []" "c_WhitelistFeed c = []" "sw_fresh1 W' \<noteq> sw_fresh1 W"
  shows "map so_URL (List_sources (srv_feeds s)) = [c_BlocklistFeed c] \<and>
    map so_URL (List_sources (srv_feeds s')) = [c_BlocklistFeed c, c_BlocklistFeed c]"
proof -
  have same: "c_BlocklistFeed c' = c_BlocklistFeed c" "c_WhitelistFeed c' = c_WhitelistFeed c"
      "c_PolicyFile c' = c_PolicyFile c" if "open_policy V c = Inr (st, c')" for V :: "('x, 'y, 'z) start_world" and st c'
    using that by (auto simp: open_policy_def split: if_splits sum.splits)
  obtain st c1 eng sql cursor m where a: "open_policy W c = Inr (st, c1)"
    "OpenManager (sw_feedsUnreadable W) (feed_file c1) (sw_feedsDisk W) = Inr m"
    "s = make_server W c1 eng st sql cursor m" using assms(1) by (rule NewServer_Inr)
  obtain st' c2 eng' sql' cursor' m2 where b: "open_policy W' c = Inr (st', c2)"
    "OpenManager (sw_feedsUnreadable W') (feed_file c2) (sw_feedsDisk W') = Inr m2"
    "s' = make_server W' c2 eng' st' sql' cursor' m2" using assms(4) by (rule NewServer_Inr)
  have ff: "feed_file c1 \<noteq> []" "feed_file c2 = feed_file c1"
    using same [OF a(1)] same [OF b(1)] assms(7) by (simp_all add: feed_file_def)
  have m: "manager_inv m" "mg_path m = filepath_Clean (feed_file c1)" "mg_sources m = []"
    using OpenManager_inv [of "sw_feedsUnreadable W" "feed_file c1" m] a(2) assms(2) ff(1)
    by (auto simp: OpenManager_def NewManager_def Let_def split: if_splits)
  obtain m' d' where sd: "save_defaults W c1 (m, Map.empty) = (m', d')" by fastforce
  have u1: "c_BlocklistFeed c1 \<noteq> []" "c_WhitelistFeed c1 = []" "c_BlocklistFeed c2 \<noteq> []" "c_WhitelistFeed c2 = []"
    using same [OF a(1)] same [OF b(1)] assms(8,9) by simp_all
  obtain x where x: "mg_sources m' = [(''feed-'' @ sw_fresh1 W, x)]" "so_URL x = c_BlocklistFeed c"
    using save_defaults_blocklist [OF u1(1,2), of W m Map.empty] m(3) sd same [OF a(1)] by auto
  obtain m1 where m1: "d' = snd (persistLocked None m1 Map.empty)" "manager_inv m1" "mg_sources m1 = mg_sources m'"
      "mg_path m1 = mg_path m"
    using save_defaults_persisted [OF m(1) u1(1,2) assms(3) sd] by auto
  have "OpenManager False (feed_file c1) d' = Inr (m1\<lparr>mg_wake := False\<rparr>)"
    unfolding m1(1) using m1 m(2) ff(1) by (intro reopen_persisted) simp_all
  moreover have "sw_feedsDisk W' = d'" using assms(2,5) a(3) sd by simp
  ultimately have "mg_sources m2 = mg_sources m'" using b(2) ff(2) assms(6) m1(3) by auto
  then obtain y where "mg_sources (fst (save_defaults W' c2 (m2, sw_feedsDisk W'))) =
      [(''feed-'' @ sw_fresh1 W, x), (''feed-'' @ sw_fresh1 W', y)]" "so_URL y = c_BlocklistFeed c"
    using save_defaults_blocklist [OF u1(3,4), of W' m2 "sw_feedsDisk W'"] x assms(10) same [OF b(1)] by auto
  with x a(3) b(3) sd assms(2) show ?thesis by (simp add: List_sources_def)
qed

section \<open>Properties\<close>

text \<open>The engine never refuses what the settings checks have passed. A server that is not built
  fails for its settings, its port, a file or the database.\<close>

theorem engine_never_rejects:
  "NewServer W c \<noteq> Inl (EngineRejected e)"
proof -
  have "engine_New (sw_gobgp W) (sw_bgp W) (engine_config c host port) \<noteq> Inl e'"
    if "validateServer c = None" "\<not> (port < -1 \<or> port = 0 \<or> port > 65535)" for host port e'
    using engine_accepts [OF that(1)] that(2) by (simp add: engine_New_def)
  then show ?thesis unfolding NewServer_def
    by (auto split: option.splits if_splits sum.splits prod.splits)
qed

text \<open>Where the policy of a new server lives. It is in a file or a database unless neither a policy
  file nor a database driver is set; then, also with a data source that the settings checks accept in
  apply mode, every mutation changes memory only and what a restart reads stays as it was.\<close>

theorem policy_volatile_iff:
  assumes "NewServer W c = Inr s"
  shows "(in_memory (srv_controller s) \<longleftrightarrow> c_PolicyFile c = [] \<and> c_DBDriver c = []) \<and>
    (in_memory (srv_controller s) \<longrightarrow>
      ct_disk (fold (\<lambda>(env, m) ct. snd (Apply an wd env m ct)) ms (srv_controller s)) = sw_policyDisk W)"
proof -
  obtain host port eng st c' sql cursor m where r: "open_policy W c = Inr (st, c')" "open_sql W c' = Inr sql"
    "s = make_server W c' eng st sql cursor m" using assms by (rule NewServer_Inr)
  have "in_memory (srv_controller s) \<longleftrightarrow> sql = None \<and> path st = []" using r(3) by (simp add: in_memory_def)
  then have iff: "in_memory (srv_controller s) \<longleftrightarrow> c_PolicyFile c = [] \<and> c_DBDriver c = []"
    using open_policy_memory [OF r(1)] open_sql_None [OF r(2)] by auto
  have keep: "ct_disk (fold (\<lambda>(env, m) ct. snd (Apply an wd env m ct)) ms ct) = ct_disk ct" if "in_memory ct" for ct
    using that
  proof (induction ms arbitrary: ct)
    case (Cons em ms)
    obtain env m where em: "em = (env, m)" by fastforce
    show ?case using Cons.IH [of "snd (Apply an wd env m ct)"] Apply_memory [OF Cons.prems, of an wd env m] em by simp
  qed simp
  show ?thesis using iff keep [of "srv_controller s"] r(3) by simp
qed

text \<open>A first start: no file, no database, a GoBGP that accepts everything.\<close>

definition empty_world :: "(mem_state, prefix, mem_attr) start_world" where
  "empty_world = \<lparr>sw_gobgp = mem_gobgp, sw_bgp = ([], False), sw_policyUnreadable = False,
     sw_policyDisk = Map.empty, sw_registered = (\<lambda>_. True), sw_pragmaFails = False, sw_sqlFault = None,
     sw_stored = (\<lambda>_ _. \<lparr>t_feeds = [], t_policies = [], t_audit = []\<rparr>),
     sw_cursorIO = \<lparr>cio_unreadable = False, cio_fault = None, cio_temporary = ''t''\<rparr>,
     sw_cursorDisk = Map.empty, sw_feedsUnreadable = False, sw_feedsDisk = Map.empty,
     sw_saveFault1 = None, sw_saveFault2 = None, sw_fresh1 = ''1'', sw_fresh2 = ''2''\<rparr>"

definition dsn_only :: settings where
  "dsn_only = DefaultConfig\<lparr>c_DryRun := False, c_DBDSN := ''rtbh''\<rparr>"

lemma bgp_port [simp]: "ParseInt32 ''4179'' = Some 4179"
  by (simp add: ParseInt32_def Atoi_def dec_val_def digit_val_def is_digit_def)

lemma NewServer_default:
  assumes "validateCommon c = None" "validateServer c = None" "c_BGPListenAddress c = ''127.0.0.1:4179''"
    and "c_PolicyFile c = []" "c_DBDriver c = []" "c_CursorFile c = []"
  shows "\<exists>s. NewServer empty_world c = Inr s"
  using assms engine_accepts [OF assms(2), of 4179 "''127.0.0.1''"]
  by (simp add: NewServer_def loopback_ports engine_New_def open_policy_def open_sql_def loadCursor_def
      feed_file_def OpenManager_def)

lemma dsn_server: "\<exists>s. NewServer empty_world dsn_only = Inr s"
proof -
  have "TrimSpace ''rtbh'' = ''rtbh''" by (rule TrimSpace_graphic) (simp add: graphic_def)
  moreover have "TrimSpace [] = []" by (rule TrimSpace_graphic) simp
  ultimately have "validateCommon dsn_only = None" "validateServer dsn_only = None"
    by (simp_all add: dsn_only_def default_checks del: Masked.simps)
  then show ?thesis using NewServer_default [of dsn_only] by (auto simp: dsn_only_def DefaultConfig_def)
qed

theorem policy_volatile_iff_witness:
  "\<exists>s. NewServer empty_world dsn_only = Inr s \<and> \<not> c_DryRun dsn_only \<and> in_memory (srv_controller s)"
proof -
  obtain s where s: "NewServer empty_world dsn_only = Inr s" using dsn_server by blast
  from policy_volatile_iff [OF s] have "in_memory (srv_controller s)"
    by (auto simp: dsn_only_def DefaultConfig_def)
  with s show ?thesis by (auto simp: dsn_only_def DefaultConfig_def)
qed

end
