(* ===== verification/Backend.thy ===== *)
theory Backend
  imports Dashboard Server_Setup
begin

text \<open>
  \<open>internal/runtime/backend.go\<close>: what the dashboard's requests do to a server, in file mode and in SQL
  mode, and \<open>internal/runtime/feed_sync.go\<close>. A request is one step: what other goroutines do during a
  download is the subject of the feed manager's theory. Printing and reading of instants, the texts of
  errors and what SQL leaves open are arguments.
\<close>

section \<open>Surroundings\<close>

record ('e, 'x) engine_ops =
  eo_announce :: "('e, 'x) route_op"
  eo_withdraw :: "('e, 'x) route_op"
  eo_status :: "'e \<Rightarrow> status \<times> string option"

record 'x messages =
  ms_controller :: "'x ctl_error \<Rightarrow> string"
  ms_feed :: "feed_error \<Rightarrow> string"
  ms_manager :: "manager_error \<Rightarrow> string"
  ms_sql :: "sql_error \<Rightarrow> string"

text \<open>\<open>bv_sql\<close>, \<open>bv_rows\<close> and \<open>bv_ctl\<close> give the surroundings of the \<open>n\<close>-th call on the database (the
  statement that fails, and the row at which reading a result breaks) and on the controller. \<open>bv_format\<close> and \<open>bv_parse\<close> are the layout \<open>2006-01-02 15:04:05 UTC\<close>, \<open>bv_rfc3339\<close> reads
  the other one.\<close>

record bk_env =
  bv_ctl :: "nat \<Rightarrow> ctl_env"
  bv_sql :: "nat \<Rightarrow> nat option"
  bv_rows :: "nat \<Rightarrow> nat option"
  bv_net :: net_env
  bv_now :: time
  bv_fresh :: string
  bv_saveFault :: "feeds_fault option"
  bv_deleteFault :: "feeds_fault option"
  bv_syncFaults :: feed_faults
  bv_format :: "time \<Rightarrow> string"
  bv_parse :: "string \<Rightarrow> time option"
  bv_rfc3339 :: "string \<Rightarrow> time option"
  bv_like :: "string \<Rightarrow> string \<Rightarrow> bool"
  bv_newest :: "policy_row list \<Rightarrow> policy_row list"
  bv_byName :: "feed_row list \<Rightarrow> feed_row list"

text \<open>A call on the controller: what it publishes goes into the queue.\<close>

definition with_controller :: "('e controller \<Rightarrow> 'r \<times> 'e controller) \<Rightarrow> 'e server \<Rightarrow> 'r \<times> 'e server" where
  "with_controller f s =
     (let (r, c) = f (srv_controller s)
      in (r, s\<lparr>srv_controller := c\<lparr>ct_published := []\<rparr>,
               srv_queue := fold publish (ct_published c) (srv_queue s)\<rparr>))"

section \<open>Configuration and peers\<close>

definition item_with :: "manager \<Rightarrow> string \<Rightarrow> string \<Rightarrow> dash_item" where
  "item_with m list p =
     \<lparr>di_Prefix = p, di_List = list,
      di_Source = (case PrefixSource p m of Some src \<Rightarrow> src | None \<Rightarrow> ''Manual'')\<rparr>"

definition item_of :: "policy_item \<Rightarrow> dash_item" where
  "item_of it = \<lparr>di_Prefix = it_Prefix it, di_List = it_List it, di_Source = it_Source it\<rparr>"

definition first_page :: "bk_env \<Rightarrow> nat \<Rightarrow> string \<Rightarrow> db \<Rightarrow> policy_item list" where
  "first_page E n list d =
     (case ListPoliciesPaginated (bv_like E) (bv_newest E) (bv_sql E n) list [] 1 50 d of
        Inl _ \<Rightarrow> []
      | Inr (items, _) \<Rightarrow> items)"

definition config_base :: "settings \<Rightarrow> dash_config" where
  "config_base c =
     \<lparr>dc_LocalASN = c_LocalASN c, dc_RouterID = addr_String (c_RouterID c),
      dc_ListenRanges = map prefix_String (c_ListenRanges c), dc_PeerGroup = ''rtbh-dynamic'',
      dc_AllowedASNs = c_AllowedASNs c, dc_MaxSessions = c_MaxSessions c, dc_DefaultPolicy = ''reject'',
      dc_DryRun = c_DryRun c, dc_Blocklist = [], dc_Whitelist = [], dc_Policies = [],
      dc_BlocklistCount = 0, dc_WhitelistCount = 0\<rparr>"

definition backend_Config :: "bk_env \<Rightarrow> 'e server \<Rightarrow> string + dash_config" where
  "backend_Config E s =
     (let c = srv_controller s; base = config_base (srv_config s) in
      case ct_sql c of
        Some d \<Rightarrow>
          let (blCount, wlCount) = GetCounts (bv_sql E 0) d;
              bl = first_page E 1 ''blocklist'' d; wl = first_page E 2 ''whitelist'' d
          in Inr (base\<lparr>dc_Blocklist := map it_Prefix bl, dc_Whitelist := map it_Prefix wl,
                       dc_Policies := map item_of bl @ map item_of wl,
                       dc_BlocklistCount := blCount, dc_WhitelistCount := wlCount\<rparr>)
      | None \<Rightarrow>
          let bl = map prefix_String (blocklist (ct_store c)); wl = map prefix_String (whitelist (ct_store c))
          in Inr (base\<lparr>dc_Blocklist := bl, dc_Whitelist := wl,
                       dc_Policies := map (item_with (srv_feeds s) ''blocklist'') bl
                         @ map (item_with (srv_feeds s) ''whitelist'') wl\<rparr>))"

definition backend_UpdateConfig :: "dash_config \<Rightarrow> 'e server \<Rightarrow> string option \<times> 'e server" where
  "backend_UpdateConfig c s =
     (Some ''runtime: live BGP reconfiguration is not supported; restart with validated flags'', s)"

definition backend_EstablishedPeers :: "('e, 'x) engine_ops \<Rightarrow> 'e server \<Rightarrow> string + dash_peer list" where
  "backend_EstablishedPeers Eng s =
     (case eo_status Eng (ct_engine (srv_controller s)) of
        (_, Some e) \<Rightarrow> Inl e
      | (status, None) \<Rightarrow>
          Inr (map (\<lambda>p. \<lparr>dp_Address = addr_String (p_Address p), dp_ASN = p_ASN p, dp_State = p_State p\<rparr>)
                 (st_Peers status)))"

section \<open>Policies\<close>

definition backend_MutatePolicy :: "('e, 'x) engine_ops \<Rightarrow> 'x messages \<Rightarrow> bk_env \<Rightarrow> nat \<Rightarrow> policy_mutation
    \<Rightarrow> 'e server \<Rightarrow> string option \<times> 'e server" where
  "backend_MutatePolicy Eng M E n m s =
     (case with_controller (Apply (eo_announce Eng) (eo_withdraw Eng) (bv_ctl E n) m) s of
        (x, s) \<Rightarrow> (map_option (ms_controller M) x, s))"

text \<open>The prefixes of an import are applied one by one until a mutation fails.\<close>

fun import_from :: "('e, 'x) engine_ops \<Rightarrow> 'x messages \<Rightarrow> bk_env \<Rightarrow> string \<Rightarrow> nat \<Rightarrow> prefix list \<Rightarrow> 'e server
    \<Rightarrow> string option \<times> 'e server" where
  "import_from Eng M E list n [] s = (None, s)"
| "import_from Eng M E list n (p # ps) s =
     (case backend_MutatePolicy Eng M E n
             \<lparr>pm_Action = ''add'', pm_List = list, pm_Prefix = prefix_String p, pm_ExpiresAt = None\<rparr> s of
        (Some e, s) \<Rightarrow> (Some e, s)
      | (None, s) \<Rightarrow> import_from Eng M E list (Suc n) ps s)"

definition backend_ImportFeed :: "('e, 'x) engine_ops \<Rightarrow> 'x messages \<Rightarrow> bk_env \<Rightarrow> import_request \<Rightarrow> 'e server
    \<Rightarrow> (string + import_result) \<times> 'e server" where
  "backend_ImportFeed Eng M E q s =
     (let c = srv_config s;
          expand = (iq_ExpandSubnets q \<or> iq_List q = ''whitelist'' \<and> c_WhitelistExpandSlash24 c)
      in case fst (Fetch (bv_net E) (iq_Source q) expand) of
           Inl e \<Rightarrow> (Inl (ms_feed M e), s)
         | Inr prefixes \<Rightarrow>
             let result = \<lparr>ir_Applied = (iq_Apply q \<and> \<not> c_DryRun c), ir_DryRun = (\<not> iq_Apply q \<or> c_DryRun c),
                           ir_Count = int (length prefixes), ir_Prefixes = map prefix_String prefixes\<rparr>
             in if \<not> iq_Apply q \<or> c_DryRun c then (Inr result, s)
                else case import_from Eng M E (iq_List q) 0 prefixes s of
                       (Some e, s) \<Rightarrow> (Inl e, s)
                     | (None, s) \<Rightarrow> (Inr result, s))"

text \<open>Rounding up; the source divides in floating point, which is exact in the totals that fit memory.\<close>

definition total_pages :: "int \<Rightarrow> int \<Rightarrow> int" where
  "total_pages matched limit = (matched + limit - 1) div limit"

text \<open>The slice expression of the in-memory path panics outside its bounds, which the products, computed in
  64 bits, can leave.\<close>

definition slice :: "'a list \<Rightarrow> int \<Rightarrow> int \<Rightarrow> 'a list option" where
  "slice xs a b =
     (if 0 \<le> a \<and> a \<le> b \<and> b \<le> int (length xs) then Some (take (nat (b - a)) (drop (nat a) xs)) else None)"

definition matching_texts :: "string \<Rightarrow> string \<Rightarrow> store \<Rightarrow> string list" where
  "matching_texts list search st =
     (let q = ToLower (TrimSpace search);
          prefixes = map prefix_String (if list = ''whitelist'' then whitelist st else blocklist st)
      in filter (\<lambda>p. q = [] \<or> Contains_str (ToLower p) q) prefixes)"

definition backend_ListPolicies :: "'x messages \<Rightarrow> bk_env \<Rightarrow> string \<Rightarrow> string \<Rightarrow> int \<Rightarrow> int \<Rightarrow> 'e server
    \<Rightarrow> (string + paginated) option" where
  "backend_ListPolicies M E list search page0 limit0 s =
     (case ct_sql (srv_controller s) of
        Some d \<Rightarrow>
          (case ListPoliciesPaginated (bv_like E) (bv_newest E) (bv_sql E 0) list search page0 limit0 d of
             Inl e \<Rightarrow> Some (Inl (ms_sql M e))
           | Inr (items, matched) \<Rightarrow>
               Some (Inr \<lparr>pp_Items = map item_of items, pp_Total = matched, pp_Page = page0, pp_Limit = limit0,
                 pp_TotalPages = (if limit0 > 0 then total_pages matched limit0 else 0)\<rparr>))
      | None \<Rightarrow>
          let filtered = matching_texts list search (ct_store (srv_controller s));
              matched = int (length filtered);
              limit = (if limit0 \<le> 0 then 25 else limit0);
              page = (if page0 \<le> 0 then 1 else page0);
              start = wrap64 ((page - 1) * limit);
              stop = wrap64 (start + limit);
              start = (if start > matched then matched else start);
              stop = (if stop > matched then matched else stop)
          in case slice filtered start stop of
               None \<Rightarrow> None
             | Some ps \<Rightarrow>
                 Some (Inr \<lparr>pp_Items = map (item_with (srv_feeds s) list) ps, pp_Total = matched, pp_Page = page,
                   pp_Limit = limit, pp_TotalPages = total_pages matched limit\<rparr>))"

section \<open>Feeds\<close>

definition Minute :: int where "Minute = 60 * Second"
definition Hour :: int where "Hour = 60 * Minute"

definition remaining_text :: "int \<Rightarrow> string" where
  "remaining_text rem =
     (if rem < Minute then ''in < 1m''
      else if rem < Hour then ''in '' @ dec (nat (rem div Minute)) @ ''m''
      else ''in '' @ dec (nat (rem div Hour)) @ ''h '' @ dec (nat (rem div Minute mod 60)) @ ''m'')"

definition next_text :: "time \<Rightarrow> time \<Rightarrow> string" where
  "next_text now next_time = (if now > next_time then ''Due now'' else remaining_text (next_time - now))"

definition sql_feed_view :: "bk_env \<Rightarrow> feed_source \<Rightarrow> source_feed" where
  "sql_feed_view E f =
     \<lparr>sf_ID = fs_ID f, sf_Name = fs_Name f, sf_List = fs_List f, sf_URL = fs_URL f, sf_Interval = fs_Interval f,
      sf_Enabled = fs_Enabled f, sf_LastSync = fs_LastSync f,
      sf_NextSync =
        (if fs_Enabled f \<and> fs_Interval f > 0 then
           (if fs_LastSync f \<noteq> [] then
              (case bv_parse E (fs_LastSync f) of
                 Some t \<Rightarrow> next_text (bv_now E) (t + wrap64 (fs_Interval f * Second))
               | None \<Rightarrow> ''Manual'')
            else ''Immediately'')
         else ''Manual''),
      sf_PrefixCount = fs_PrefixCount f, sf_LastError = fs_LastError f, sf_ExpandSubnets = fs_ExpandSubnets f,
      sf_Status = (if fs_LastError f \<noteq> [] then ''error'' else if fs_LastSync f \<noteq> [] then ''synced'' else ''idle'')\<rparr>"

definition manager_feed_view :: "bk_env \<Rightarrow> source \<Rightarrow> source_feed" where
  "manager_feed_view E f =
     (let (lastSync, nextSync, status) =
        (if so_LastError f \<noteq> [] then ([], ''Manual'', ''error'')
         else if so_LastSync f \<noteq> 0 then
           (bv_format E (so_LastSync f),
            if so_Enabled f \<and> so_Interval f > 0 then next_text (bv_now E) (so_LastSync f + so_Interval f) else ''Manual'',
            ''synced'')
         else ([], if so_Enabled f \<and> so_Interval f > 0 then ''Immediately'' else ''Manual'', ''idle''))
      in \<lparr>sf_ID = so_ID f, sf_Name = so_Name f, sf_List = so_List f, sf_URL = so_URL f,
          sf_Interval = so_Interval f div Second, sf_Enabled = so_Enabled f, sf_LastSync = lastSync,
          sf_NextSync = nextSync, sf_PrefixCount = so_PrefixCount f, sf_LastError = so_LastError f,
          sf_ExpandSubnets = so_ExpandSubnets f, sf_Status = status\<rparr>)"

definition backend_ListFeeds :: "'x messages \<Rightarrow> bk_env \<Rightarrow> 'e server \<Rightarrow> string + source_feed list" where
  "backend_ListFeeds M E s =
     (case ct_sql (srv_controller s) of
        Some d \<Rightarrow>
          (case sql_ListFeeds (bv_byName E) (bv_sql E 0) d of
             Inl e \<Rightarrow> Inl (ms_sql M e)
           | Inr fs \<Rightarrow> Inr (map (sql_feed_view E) fs))
      | None \<Rightarrow> Inr (map (manager_feed_view E) (List_sources (srv_feeds s))))"

definition with_db :: "db \<Rightarrow> 'e server \<Rightarrow> 'e server" where
  "with_db d s = s\<lparr>srv_controller := (srv_controller s)\<lparr>ct_sql := Some d\<rparr>\<rparr>"

definition spawn_sync :: "bool \<Rightarrow> string \<Rightarrow> 'e server \<Rightarrow> 'e server" where
  "spawn_sync enabled fid s = (if enabled then s\<lparr>srv_jobs := srv_jobs s @ [fid]\<rparr> else s)"

definition backend_SaveFeed :: "'x messages \<Rightarrow> bk_env \<Rightarrow> source_feed \<Rightarrow> 'e server
    \<Rightarrow> (string option \<times> source_feed) \<times> 'e server" where
  "backend_SaveFeed M E q s =
     (case ct_sql (srv_controller s) of
        Some d \<Rightarrow>
          let q = (if sf_ID q = [] then q\<lparr>sf_ID := ''feed-'' @ bv_fresh E\<rparr> else q);
              q = (if sf_Interval q \<le> 0 then q\<lparr>sf_Interval := 21600\<rparr> else q)
          in (case sql_SaveFeed (bv_sql E 0)
                \<lparr>fs_ID = sf_ID q, fs_Name = sf_Name q, fs_List = sf_List q, fs_URL = sf_URL q,
                 fs_Interval = sf_Interval q, fs_Enabled = sf_Enabled q, fs_LastSync = [], fs_PrefixCount = 0,
                 fs_LastError = [], fs_ExpandSubnets = sf_ExpandSubnets q\<rparr> d of
                (Some e, d) \<Rightarrow> ((Some (ms_sql M e), q), with_db d s)
              | (None, d) \<Rightarrow> ((None, q), spawn_sync (sf_Enabled q) (sf_ID q) (with_db d s)))
      | None \<Rightarrow>
          let interval = wrap64 (sf_Interval q * Second);
              interval = (if interval \<le> 0 then Hour else interval);
              src = zero_source\<lparr>so_ID := sf_ID q, so_Name := sf_Name q, so_List := sf_List q, so_URL := sf_URL q,
                      so_Interval := interval, so_Enabled := sf_Enabled q, so_ExpandSubnets := sf_ExpandSubnets q\<rparr>
          in (case Save (bv_saveFault E) (bv_fresh E) src (srv_feeds s) (srv_feedsDisk s) of
                ((Some e, _), m, d) \<Rightarrow>
                  ((Some (ms_manager M e), q), s\<lparr>srv_feeds := m, srv_feedsDisk := d\<rparr>)
              | ((None, saved), m, d) \<Rightarrow>
                  let q = q\<lparr>sf_ID := so_ID saved\<rparr>
                  in ((None, q), spawn_sync (sf_Enabled q) (sf_ID q) (s\<lparr>srv_feeds := m, srv_feedsDisk := d\<rparr>))))"

text \<open>The two handlers that \<open>NewServer\<close> gives the feed manager.\<close>

definition feed_onSync :: "('e, 'x) engine_ops \<Rightarrow> 'x messages \<Rightarrow> 'e controller sync_handler" where
  "feed_onSync Eng M src toAdd toRemove c =
     (if so_List src \<noteq> ''blocklist'' \<and> so_List src \<noteq> ''whitelist'' then (None, c)
      else case ApplyBatch (eo_announce Eng) (eo_withdraw Eng) (so_List src) toAdd toRemove c of
             (x, c) \<Rightarrow> (map_option (ms_controller M) x, c))"

definition feed_onDelete :: "('e, 'x) engine_ops \<Rightarrow> 'x messages \<Rightarrow> 'e controller delete_handler" where
  "feed_onDelete Eng M src prefixes c =
     (if so_List src \<noteq> ''blocklist'' \<and> so_List src \<noteq> ''whitelist'' then (None, c)
      else case ApplyBatch (eo_announce Eng) (eo_withdraw Eng) (so_List src) [] prefixes c of
             (x, c) \<Rightarrow> (map_option (ms_controller M) x, c))"

definition backend_DeleteFeed :: "('e, 'x) engine_ops \<Rightarrow> 'x messages \<Rightarrow> bk_env \<Rightarrow> string \<Rightarrow> 'e server
    \<Rightarrow> string option \<times> 'e server" where
  "backend_DeleteFeed Eng M E fid s =
     (case ct_sql (srv_controller s) of
        Some d \<Rightarrow>
          (case pooled (sql_DeleteFeed (bv_sql E 0) (bv_rows E 0) fid) d of
             (Inl e, d) \<Rightarrow> (Some (ms_sql M e), with_db d s)
           | (Inr (prefixes, list), d) \<Rightarrow>
               let s = with_db d s
               in if length prefixes > 0 then
                    (None, snd (with_controller
                      (ApplyBatch (eo_announce Eng) (eo_withdraw Eng) list [] prefixes) s))
                  else (None, s))
      | None \<Rightarrow>
          (case Delete (bv_deleteFault E) (Some (feed_onDelete Eng M)) fid (srv_feeds s) (srv_feedsDisk s)
                  (srv_controller s) of
             (e, m, d, c) \<Rightarrow>
               (map_option (ms_manager M) e,
                s\<lparr>srv_feeds := m, srv_feedsDisk := d, srv_controller := c\<rparr>)))"

definition sql_sync :: "('e, 'x) engine_ops \<Rightarrow> 'x messages \<Rightarrow> bk_env \<Rightarrow> string \<Rightarrow> db \<Rightarrow> 'e server
    \<Rightarrow> (int \<times> string option) \<times> 'e server" where
  "sql_sync Eng M E fid d s =
     (case sql_ListFeeds (bv_byName E) (bv_sql E 0) d of
        Inl e \<Rightarrow> ((0, Some (ms_sql M e)), s)
      | Inr feeds \<Rightarrow>
     (case find (\<lambda>f. fs_ID f = fid) feeds of
        None \<Rightarrow> ((0, Some ''feed not found''), s)
      | Some target \<Rightarrow>
     (case fst (Fetch (bv_net E) (fs_URL target) (fs_ExpandSubnets target)) of
        Inl e \<Rightarrow>
          ((0, Some (ms_feed M e)), with_db (snd (sql_UpdateFeedStatus (bv_sql E 1) fid 0 [] (ms_feed M e) d)) s)
      | Inr prefixes \<Rightarrow>
          let texts = map prefix_String prefixes in
          case pooled (SyncFeedPolicies (bv_sql E 2) (bv_rows E 2) (bv_now E) (bv_format E (bv_now E))
                 (fs_ID target) (fs_Name target) (fs_List target) texts) d of
            (Inl e, d) \<Rightarrow> ((0, Some (ms_sql M e)), with_db d s)
          | (Inr (toAdd, toRemove), d) \<Rightarrow>
              let d = snd (sql_UpdateFeedStatus (bv_sql E 3) fid (int (length texts)) (bv_format E (bv_now E)) [] d)
              in (case with_controller (ApplyBatch (eo_announce Eng) (eo_withdraw Eng) (fs_List target) toAdd toRemove)
                         (with_db d s) of
                    (x, s) \<Rightarrow> ((int (length texts), map_option (ms_controller M) x), s)))))"

definition backend_SyncFeed :: "('e, 'x) engine_ops \<Rightarrow> 'x messages \<Rightarrow> bk_env \<Rightarrow> string \<Rightarrow> 'e server
    \<Rightarrow> (int \<times> string option) \<times> 'e server" where
  "backend_SyncFeed Eng M E fid s =
     (if fid \<in> set (srv_syncing s) then ((0, None), s)
      else
        let s = s\<lparr>srv_syncing := fid # srv_syncing s\<rparr>;
            (r, s) =
              (case ct_sql (srv_controller s) of
                 Some d \<Rightarrow> sql_sync Eng M E fid d s
               | None \<Rightarrow>
                   (case manager_SyncFeed (bv_net E) (bv_syncFaults E) (bv_now E) (ms_feed M)
                           (Some (feed_onSync Eng M)) id fid (srv_feeds s) (srv_feedsDisk s) (srv_controller s) of
                      ((n, e), m, d, c) \<Rightarrow>
                        ((n, map_option (ms_manager M) e),
                         s\<lparr>srv_feeds := m, srv_feedsDisk := d, srv_controller := c\<rparr>)))
        in (r, s\<lparr>srv_syncing := removeAll fid (srv_syncing s)\<rparr>))"

section \<open>The backend of the dashboard\<close>

definition dashboard_ops :: "('e, 'x) engine_ops \<Rightarrow> 'x messages \<Rightarrow> bk_env \<Rightarrow> 'e server backend" where
  "dashboard_ops Eng M E =
     \<lparr>bk_Config = backend_Config E, bk_UpdateConfig = backend_UpdateConfig,
      bk_EstablishedPeers = backend_EstablishedPeers Eng, bk_MutatePolicy = backend_MutatePolicy Eng M E,
      bk_importer = Some (backend_ImportFeed Eng M E),
      bk_feeds = Some \<lparr>fb_ListFeeds = backend_ListFeeds M E, fb_SaveFeed = backend_SaveFeed M E,
        fb_DeleteFeed = backend_DeleteFeed Eng M E, fb_SyncFeed = backend_SyncFeed Eng M E\<rparr>,
      bk_paginator = Some (backend_ListPolicies M E)\<rparr>"

section \<open>Periodic synchronisation\<close>

text \<open>\<open>runSQLFeedSync\<close>: which feeds a tick synchronises, and the tick.\<close>

definition sql_due :: "bk_env \<Rightarrow> time \<Rightarrow> feed_source \<Rightarrow> bool" where
  "sql_due E now f =
     (if \<not> fs_Enabled f \<or> fs_Interval f \<le> 0 then False
      else if fs_LastSync f = [] then True
      else case bv_rfc3339 E (fs_LastSync f) of
        Some t \<Rightarrow> now - t \<ge> wrap64 (fs_Interval f * Second)
      | None \<Rightarrow>
          (case bv_parse E (fs_LastSync f) of
             Some t \<Rightarrow> now - t \<ge> wrap64 (fs_Interval f * Second)
           | None \<Rightarrow> True))"

definition syncDue :: "('e, 'x) engine_ops \<Rightarrow> 'x messages \<Rightarrow> (nat \<Rightarrow> bk_env) \<Rightarrow> time \<Rightarrow> 'e server \<Rightarrow> 'e server" where
  "syncDue Eng M Es now s =
     (case ct_sql (srv_controller s) of
        None \<Rightarrow> s
      | Some d \<Rightarrow>
          (case sql_ListFeeds (bv_byName (Es 0)) (bv_sql (Es 0) 0) d of
             Inl _ \<Rightarrow> s
           | Inr feeds \<Rightarrow>
               fold (\<lambda>(i, f) s. if sql_due (Es 0) now f then snd (backend_SyncFeed Eng M (Es (Suc i)) (fs_ID f) s) else s)
                 (List.enumerate 0 feeds) s))"

text \<open>\<open>Server.SyncFeed\<close> of \<open>feed_sync.go\<close>: additions through the controller, counted until one fails.\<close>

fun apply_feed_from :: "('e, 'x) engine_ops \<Rightarrow> 'x messages \<Rightarrow> bk_env \<Rightarrow> string \<Rightarrow> nat \<Rightarrow> prefix list \<Rightarrow> 'e server
    \<Rightarrow> (nat \<times> string option) \<times> 'e server" where
  "apply_feed_from Eng M E list n [] s = ((n, None), s)"
| "apply_feed_from Eng M E list n (p # ps) s =
     (case with_controller (Apply (eo_announce Eng) (eo_withdraw Eng) (bv_ctl E n)
             \<lparr>pm_Action = ''add'', pm_List = list, pm_Prefix = prefix_String p, pm_ExpiresAt = None\<rparr>) s of
        (Some x, s) \<Rightarrow> ((n, Some (ms_controller M x)), s)
      | (None, s) \<Rightarrow> apply_feed_from Eng M E list (Suc n) ps s)"

definition server_SyncFeed :: "('e, 'x) engine_ops \<Rightarrow> 'x messages \<Rightarrow> bk_env \<Rightarrow> string \<Rightarrow> string \<Rightarrow> bool \<Rightarrow> 'e server
    \<Rightarrow> (nat \<times> string option) \<times> 'e server" where
  "server_SyncFeed Eng M E list source expandSlash24 s =
     (if source = [] then ((0, None), s)
      else case fst (Fetch (bv_net E) source expandSlash24) of
             Inl e \<Rightarrow> ((0, Some (ms_feed M e)), s)
           | Inr prefixes \<Rightarrow> apply_feed_from Eng M E list 0 prefixes s)"

definition syncAll :: "('e, 'x) engine_ops \<Rightarrow> 'x messages \<Rightarrow> bk_env \<Rightarrow> bk_env \<Rightarrow> 'e server \<Rightarrow> 'e server" where
  "syncAll Eng M E1 E2 s =
     (let c = srv_config s;
          s = (if c_WhitelistFeed c = [] then s
               else snd (server_SyncFeed Eng M E1 ''whitelist'' (c_WhitelistFeed c) (c_WhitelistExpandSlash24 c) s))
      in if c_BlocklistFeed c = [] then s
         else snd (server_SyncFeed Eng M E2 ''blocklist'' (c_BlocklistFeed c) False s))"

section \<open>What the operations leave alone\<close>

lemma batch_remove_frame:
  "ct_store (batch_remove wd list raws c) = ct_store c" "ct_disk (batch_remove wd list raws c) = ct_disk c"
  "ct_sql (batch_remove wd list raws c) = ct_sql c" "ct_published (batch_remove wd list raws c) = ct_published c"
  "ct_dryRun (batch_remove wd list raws c) = ct_dryRun c" "ct_publish (batch_remove wd list raws c) = ct_publish c"
  by (induction wd list raws c rule: batch_remove.induct) (auto split: option.split)

lemma batch_add_frame:
  "ct_store (batch_add an list raws c) = ct_store c" "ct_disk (batch_add an list raws c) = ct_disk c"
  "ct_sql (batch_add an list raws c) = ct_sql c" "ct_published (batch_add an list raws c) = ct_published c"
  "ct_dryRun (batch_add an list raws c) = ct_dryRun c" "ct_publish (batch_add an list raws c) = ct_publish c"
  by (induction an list raws c rule: batch_add.induct) (auto simp: Let_def split: option.split prod.split)

lemma ApplyBatch_frame:
  assumes "ApplyBatch an wd list toAdd toRemove c = (x, c')"
  shows "ct_store c' = ct_store c" "ct_disk c' = ct_disk c" "ct_sql c' = ct_sql c"
    "ct_published c' = ct_published c" "ct_dryRun c' = ct_dryRun c" "ct_dryRun c \<Longrightarrow> c' = c"
    "ct_publish c' = ct_publish c"
  using assms by (auto simp: ApplyBatch_def batch_add_frame batch_remove_frame split: if_splits)

text \<open>A mutation publishes at most itself, and only with a canonical prefix.\<close>

lemma Apply_published:
  assumes "Apply an wd env m c = (x, c')"
  shows "ct_published c' = ct_published c \<or>
    ct_published c' = ct_published c @ [m] \<and> parse_canonical (pm_Prefix m) \<noteq> None"
proof (cases "ct_dryRun c \<or> parse_canonical (pm_Prefix m) = None")
  case True
  with assms show ?thesis by (auto simp: Apply_def split: if_splits)
next
  case False
  show ?thesis
  proof (cases "ct_sql c")
    case None
    with assms False have "applyLocked an wd env m c = (x, c')" by (auto simp: Apply_def)
    then show ?thesis
    proof (cases rule: applyLocked_cases)
      case (delta p list bl wl y)
      from applyDelta_frame [OF delta(5)] show ?thesis by simp
    next
      case (persist p list bl wl e s d c1)
      then show ?thesis using applyDelta_frame [OF persist(4)] by (simp add: applyDelta_snd_frame)
    next
      case (commit p list bl wl s d c1)
      then show ?thesis using applyDelta_frame [OF commit(4)] by (simp add: publish_mutation_def)
    qed auto
  next
    case (Some d)
    with assms False show ?thesis
      by (auto simp: Apply_def Let_def publish_mutation_def applyDelta_frame split: prod.splits option.splits if_splits)
  qed
qed

section \<open>Invariants of the server\<close>

text \<open>What an invariant of the server has to keep for every request to keep it: mutations that the
  handlers pass on, batches of feed prefixes, new contents of the database, and the fields of the
  feeds, which it must not depend on.\<close>

locale server_laws =
  fixes Eng :: "('e, 'x) engine_ops" and M :: "'x messages" and E :: bk_env and I :: "'e server \<Rightarrow> bool"
  assumes quiet: "I s \<Longrightarrow> ct_published (srv_controller s) = []"
    and mutate: "I s \<Longrightarrow> dashboard_mutation m \<Longrightarrow>
      I (snd (with_controller (Apply (eo_announce Eng) (eo_withdraw Eng) (bv_ctl E n) m) s))"
    and batch: "I s \<Longrightarrow> ApplyBatch (eo_announce Eng) (eo_withdraw Eng) list toAdd toRemove (srv_controller s) = (x, c)
      \<Longrightarrow> I (s\<lparr>srv_controller := c\<rparr>)"
    and database: "I s \<Longrightarrow> ct_sql (srv_controller s) \<noteq> None \<Longrightarrow> I (with_db d s)"
    and feeds: "I (s\<lparr>srv_feeds := fm, srv_feedsDisk := fd\<rparr>) = I s"
    and tasks: "I (s\<lparr>srv_syncing := ids\<rparr>) = I s" "I (s\<lparr>srv_jobs := ids\<rparr>) = I s"
begin

lemma batch_step: "I s \<Longrightarrow>
    I (snd (with_controller (ApplyBatch (eo_announce Eng) (eo_withdraw Eng) list toAdd toRemove) s))"
proof -
  assume s: "I s"
  obtain x c where b: "ApplyBatch (eo_announce Eng) (eo_withdraw Eng) list toAdd toRemove (srv_controller s) = (x, c)"
    by fastforce
  have "ct_published c = []" using ApplyBatch_frame(4) [OF b] quiet [OF s] by simp
  then have "snd (with_controller (ApplyBatch (eo_announce Eng) (eo_withdraw Eng) list toAdd toRemove) s)
      = s\<lparr>srv_controller := c\<rparr>"
    using b by (simp add: with_controller_def)
  with batch [OF s b] show ?thesis by simp
qed

lemma mutate_step: "I s \<Longrightarrow> dashboard_mutation m \<Longrightarrow> I (snd (backend_MutatePolicy Eng M E n m s))"
  using mutate [of s m n] by (simp add: backend_MutatePolicy_def case_prod_unfold)

lemma import_from_step: "I s \<Longrightarrow> named_list list \<Longrightarrow> I (snd (import_from Eng M E list n ps s))"
proof (induction ps arbitrary: n s)
  case (Cons p ps)
  let ?m = "\<lparr>pm_Action = ''add'', pm_List = list, pm_Prefix = prefix_String p, pm_ExpiresAt = None\<rparr>"
  obtain e s' where c: "backend_MutatePolicy Eng M E n ?m s = (e, s')" by fastforce
  have "I s'" using mutate_step [OF Cons.prems(1), of ?m n] Cons.prems(2) c by (simp add: dashboard_mutation_def)
  with Cons.IH Cons.prems(2) c show ?case by (simp split: option.split)
qed simp

lemma import_step: "I s \<Longrightarrow> named_list (iq_List q) \<Longrightarrow> I (snd (backend_ImportFeed Eng M E q s))"
proof -
  assume s: "I s" "named_list (iq_List q)"
  have "import_from Eng M E (iq_List q) 0 ps s = (e, s') \<Longrightarrow> I s'" for ps e s'
    using import_from_step [OF s, of 0 ps] by simp
  then show ?thesis using s(1)
    by (auto simp: backend_ImportFeed_def Let_def split: sum.split prod.split option.split)
qed

lemma spawn_step: "I (spawn_sync b fid s) = I s"
  by (simp add: spawn_sync_def tasks)

lemma save_step: "I s \<Longrightarrow> I (snd (backend_SaveFeed M E q s))"
  using database [of s] feeds
  by (cases "ct_sql (srv_controller s)")
    (auto simp: backend_SaveFeed_def Let_def spawn_step split: prod.split option.split)

lemma feeds_controller:
  assumes "I s" "c = srv_controller s \<or> (\<exists>list a r x. ApplyBatch (eo_announce Eng) (eo_withdraw Eng) list a r (srv_controller s) = (x, c))"
  shows "I (s\<lparr>srv_feeds := m, srv_feedsDisk := d, srv_controller := c\<rparr>)"
proof -
  have "I (s\<lparr>srv_controller := c\<rparr>)" using assms batch by auto
  moreover have "s\<lparr>srv_feeds := m, srv_feedsDisk := d, srv_controller := c\<rparr> =
      (s\<lparr>srv_controller := c\<rparr>)\<lparr>srv_feeds := m, srv_feedsDisk := d\<rparr>" by simp
  ultimately show ?thesis by (simp only: feeds)
qed

lemma onDelete_controller:
  "feed_onDelete Eng M src ps c = (e, c') \<Longrightarrow>
   c' = c \<or> (\<exists>list a r x. ApplyBatch (eo_announce Eng) (eo_withdraw Eng) list a r c = (x, c'))"
  by (auto simp: feed_onDelete_def split: if_splits prod.splits)

lemma onSync_controller:
  "feed_onSync Eng M src a r c = (e, c') \<Longrightarrow>
   c' = c \<or> (\<exists>list a r x. ApplyBatch (eo_announce Eng) (eo_withdraw Eng) list a r c = (x, c'))"
  by (auto simp: feed_onSync_def split: if_splits prod.splits)

lemma Delete_controller:
  "Delete flt (Some (feed_onDelete Eng M)) fid m d c = (e, m', d', c') \<Longrightarrow>
   c' = c \<or> (\<exists>list a r x. ApplyBatch (eo_announce Eng) (eo_withdraw Eng) list a r c = (x, c'))"
  by (auto simp: Delete_def Let_def split: option.splits if_splits prod.splits dest!: onDelete_controller)

lemma delete_step: "I s \<Longrightarrow> I (snd (backend_DeleteFeed Eng M E fid s))"
proof (cases "ct_sql (srv_controller s)")
  case None
  assume s: "I s"
  obtain e m d c where del: "Delete (bv_deleteFault E) (Some (feed_onDelete Eng M)) fid (srv_feeds s) (srv_feedsDisk s)
      (srv_controller s) = (e, m, d, c)" by (metis prod_cases4)
  from feeds_controller [OF s Delete_controller [OF del]] del None show ?thesis
    by (simp add: backend_DeleteFeed_def)
next
  case (Some d)
  assume s: "I s"
  have "I (with_db d' s)" for d' using database [OF s] Some by simp
  then show ?thesis using Some
    by (auto simp: backend_DeleteFeed_def Let_def intro: batch_step split: prod.split sum.split)
qed

lemma finish_controller:
  "finish_sync ff now msg (Some (feed_onSync Eng M)) fid fetched m d c = (r, m', d', c') \<Longrightarrow>
   c' = c \<or> (\<exists>list a r x. ApplyBatch (eo_announce Eng) (eo_withdraw Eng) list a r c = (x, c'))"
  by (auto simp: finish_sync_def Let_def split: sum.splits prod.splits option.splits dest!: onSync_controller)

lemma sql_sync_step:
  assumes s: "I s" "ct_sql (srv_controller s) = Some d"
  shows "I (snd (sql_sync Eng M E fid d s))"
proof -
  have db: "I (with_db d' s)" for d' using database [OF s(1)] s(2) by simp
  have "with_controller (ApplyBatch (eo_announce Eng) (eo_withdraw Eng) list a r) (with_db d' s) = (x, s') \<Longrightarrow> I s'"
    for list a r d' x s'
    using batch_step [OF db, of list a r d'] by simp
  with db s(1) show ?thesis
    by (auto simp: sql_sync_def Let_def split: sum.split option.split prod.split)
qed

lemma manager_sync_step:
  assumes s: "I s"
    and sync: "manager_SyncFeed N ff now msg (Some (feed_onSync Eng M)) id fid (srv_feeds s) (srv_feedsDisk s)
      (srv_controller s) = (r, m, d, c)"
  shows "I (s\<lparr>srv_feeds := m, srv_feedsDisk := d, srv_controller := c\<rparr>)"
proof -
  have "c = srv_controller s \<or>
      (\<exists>list a r x. ApplyBatch (eo_announce Eng) (eo_withdraw Eng) list a r (srv_controller s) = (x, c))"
    using sync by (auto simp: manager_SyncFeed_def Let_def split: option.splits dest!: finish_controller)
  from feeds_controller [OF s this] show ?thesis .
qed

lemma sync_step: "I s \<Longrightarrow> I (snd (backend_SyncFeed Eng M E fid s))"
proof (cases "fid \<in> set (srv_syncing s)")
  case False
  assume s: "I s"
  let ?s = "s\<lparr>srv_syncing := fid # srv_syncing s\<rparr>"
  have s1: "I ?s" using s tasks by simp
  show ?thesis
  proof (cases "ct_sql (srv_controller s)")
    case None
    obtain n e m d c where sync: "manager_SyncFeed (bv_net E) (bv_syncFaults E) (bv_now E) (ms_feed M)
        (Some (feed_onSync Eng M)) id fid (srv_feeds ?s) (srv_feedsDisk ?s) (srv_controller ?s) = ((n, e), m, d, c)"
      by (metis prod_cases4 surj_pair)
    let ?t = "?s\<lparr>srv_feeds := m, srv_feedsDisk := d, srv_controller := c\<rparr>"
    have "I (?t\<lparr>srv_syncing := ids\<rparr>)" for ids
      using manager_sync_step [OF s1 sync] unfolding tasks .
    moreover have "snd (backend_SyncFeed Eng M E fid s) = ?t\<lparr>srv_syncing := removeAll fid (fid # srv_syncing s)\<rparr>"
      using sync None False by (simp add: backend_SyncFeed_def Let_def)
    ultimately show ?thesis by (simp only:)
  next
    case (Some d)
    then have "I (snd (sql_sync Eng M E fid d ?s))" by (intro sql_sync_step [OF s1]) simp
    with Some False show ?thesis
      by (simp add: backend_SyncFeed_def Let_def tasks case_prod_unfold)
  qed
qed (simp add: backend_SyncFeed_def)

end

sublocale server_laws \<subseteq> backend_laws "dashboard_ops Eng M E" I
proof
  show "I (snd (bk_UpdateConfig (dashboard_ops Eng M E) c b))" if "I b" for b c
    using that by (simp add: dashboard_ops_def backend_UpdateConfig_def)
qed (auto simp: dashboard_ops_def intro: mutate_step import_step save_step delete_step sync_step)

text \<open>The requests of a server's life, each with its surroundings.\<close>

definition serve_all :: "('e, 'x) engine_ops \<Rightarrow> 'x messages \<Rightarrow> (http_env \<times> bk_env \<times> (request \<Rightarrow> bool) \<times> request) list
    \<Rightarrow> 'e server \<Rightarrow> 'e server" where
  "serve_all Eng M rs s =
     fold (\<lambda>(H, E, authorize, r) s. snd (ServeHTTP H authorize (dashboard_ops Eng M E) r s)) rs s"

lemma serve_all_inv:
  assumes "\<And>H E a r s. (H, E, a, r) \<in> set rs \<Longrightarrow> I s \<Longrightarrow> I (snd (ServeHTTP H a (dashboard_ops Eng M E) r s))" "I s"
  shows "I (serve_all Eng M rs s)"
  using assms
proof (induction rs arbitrary: s)
  case (Cons x rs)
  obtain H E a r where x: "x = (H, E, a, r)" by (metis prod_cases4)
  have "I (snd (ServeHTTP H a (dashboard_ops Eng M E) r s))" using Cons.prems x by auto
  then have "I (serve_all Eng M rs (snd (ServeHTTP H a (dashboard_ops Eng M E) r s)))"
    using Cons.prems(1) by (intro Cons.IH) auto
  with x show ?case by (simp add: serve_all_def)
qed (simp add: serve_all_def)

section \<open>Changes that can be sent\<close>

definition queue_sendable :: "'e server \<Rightarrow> bool" where
  "queue_sendable s = (ct_published (srv_controller s) = [] \<and>
     (\<forall>change\<in>set (pq_pending (srv_queue s)). validatePolicy change = None))"

lemma queue_change_valid:
  "dashboard_mutation m \<Longrightarrow> parse_canonical (pm_Prefix m) \<noteq> None \<Longrightarrow> validatePolicy (queue_change n m) = None"
  by (auto simp: validatePolicy_def queue_change_def queue_key_def dashboard_mutation_def named_list_def)

lemma pending_publish: "pq_pending (publish m q) = pq_pending q @ [queue_change (pq_nextID q + 1) m]"
  by (simp add: publish_def Let_def)

lemma with_controller_fields:
  assumes "f (srv_controller s) = (r, c)"
  shows "fst (with_controller f s) = r"
    "srv_controller (snd (with_controller f s)) = c\<lparr>ct_published := []\<rparr>"
    "srv_queue (snd (with_controller f s)) = fold publish (ct_published c) (srv_queue s)"
  using assms by (simp_all add: with_controller_def)

interpretation sendable: server_laws Eng M E queue_sendable for Eng :: "('e, 'x) engine_ops" and M E
proof
  fix s :: "'e server" and m n
  assume s: "queue_sendable s" and m: "dashboard_mutation m"
  let ?f = "Apply (eo_announce Eng) (eo_withdraw Eng) (bv_ctl E n) m"
  obtain x c where run: "?f (srv_controller s) = (x, c)" by fastforce
  have p: "ct_published c = [] \<or> ct_published c = [m] \<and> parse_canonical (pm_Prefix m) \<noteq> None"
    using Apply_published [OF run] s by (simp add: queue_sendable_def)
  then show "queue_sendable (snd (with_controller ?f s))"
    using s queue_change_valid [OF m]
    by (auto simp: queue_sendable_def with_controller_fields [of ?f s x c, OF run] pending_publish)
next
  fix s :: "'e server" and list toAdd toRemove x c
  assume "queue_sendable s"
    and "ApplyBatch (eo_announce Eng) (eo_withdraw Eng) list toAdd toRemove (srv_controller s) = (x, c)"
  then show "queue_sendable (s\<lparr>srv_controller := c\<rparr>)"
    using ApplyBatch_frame(4) by (fastforce simp: queue_sendable_def)
qed (simp_all add: queue_sendable_def with_db_def)

section \<open>Dry run\<close>

text \<open>The controller is \<open>c\<close>, but for the contents of its database, and the queue is \<open>q\<close>.\<close>

definition dry_server :: "'e controller \<Rightarrow> policy_queue \<Rightarrow> 'e server \<Rightarrow> bool" where
  "dry_server c q s = (ct_dryRun c \<and> ct_published c = [] \<and> srv_queue s = q \<and>
     (ct_sql (srv_controller s) = None \<longleftrightarrow> ct_sql c = None) \<and>
     (srv_controller s)\<lparr>ct_sql := None\<rparr> = c\<lparr>ct_sql := None\<rparr>)"

lemma dry_server_D:
  assumes "dry_server c q s"
  shows "ct_dryRun (srv_controller s)" "ct_published (srv_controller s) = []"
    "(srv_controller s)\<lparr>ct_sql := x\<rparr> = c\<lparr>ct_sql := x\<rparr>"
proof -
  have eq: "(srv_controller s)\<lparr>ct_sql := None\<rparr> = c\<lparr>ct_sql := None\<rparr>" using assms by (simp add: dry_server_def)
  show "ct_dryRun (srv_controller s)" using arg_cong [OF eq, of ct_dryRun] assms by (simp add: dry_server_def)
  show "ct_published (srv_controller s) = []" using arg_cong [OF eq, of ct_published] assms by (simp add: dry_server_def)
  show "(srv_controller s)\<lparr>ct_sql := x\<rparr> = c\<lparr>ct_sql := x\<rparr>"
    using arg_cong [OF eq, of "ct_sql_update (\<lambda>_. x)"] by simp
qed

interpretation dry: server_laws Eng M E "dry_server c q" for Eng :: "('e, 'x) engine_ops" and M E c q
proof
  fix s :: "'e server" and m n
  assume s: "dry_server c q s"
  let ?f = "Apply (eo_announce Eng) (eo_withdraw Eng) (bv_ctl E n) m"
  have "?f (srv_controller s) = (Some ApplyDryRun, srv_controller s)"
    using dry_server_D [OF s] by (simp add: Apply_def)
  then have "snd (with_controller ?f s) = s"
    using dry_server_D [OF s] by (simp add: with_controller_def)
  then show "dry_server c q (snd (with_controller ?f s))" using s by simp
next
  fix s :: "'e server" and list toAdd toRemove x c1
  assume s: "dry_server c q s"
    and b: "ApplyBatch (eo_announce Eng) (eo_withdraw Eng) list toAdd toRemove (srv_controller s) = (x, c1)"
  have "c1 = srv_controller s" using ApplyBatch_frame(6) [OF b] dry_server_D [OF s] by simp
  then show "dry_server c q (s\<lparr>srv_controller := c1\<rparr>)" using s by simp
next
  fix s :: "'e server" and d
  assume s: "dry_server c q s" "ct_sql (srv_controller s) \<noteq> None"
  then show "dry_server c q (with_db d s)"
    by (simp add: dry_server_def with_db_def)
qed (erule dry_server_D(2) | simp add: dry_server_def)+

section \<open>Pages\<close>

lemma wrap64_negative: "2 ^ 63 \<le> x \<Longrightarrow> x < 2 ^ 64 \<Longrightarrow> wrap64 x = x - 2 ^ 64"
  unfolding wrap64_mod by (simp add: mod_pos_geq mod_pos_pos_trivial)

lemma total_pages_least:
  assumes "0 \<le> n" "1 \<le> limit"
  shows "n \<le> total_pages n limit * limit" "(total_pages n limit - 1) * limit < n \<or> n = 0 \<and> total_pages n limit = 0"
proof -
  let ?t = "total_pages n limit"
  have t: "n + limit - 1 = ?t * limit + (n + limit - 1) mod limit"
    by (simp add: total_pages_def)
  have m: "0 \<le> (n + limit - 1) mod limit" "(n + limit - 1) mod limit < limit" using assms(2) by simp_all
  show "n \<le> ?t * limit" using t m by linarith
  have "(?t - 1) * limit = ?t * limit - limit" by (simp add: algebra_simps)
  then have lt: "(?t - 1) * limit < n" if "0 < n" using t m that by linarith
  have "total_pages 0 limit = 0" using assms(2) by (simp add: total_pages_def)
  then show "(?t - 1) * limit < n \<or> n = 0 \<and> ?t = 0" using lt assms(1) by (cases "n = 0") auto
qed

lemma slice_clamped:
  assumes "0 \<le> a" "0 \<le> n"
  shows "slice xs (min a (int (length xs))) (min (a + n) (int (length xs))) = Some (take (nat n) (drop (nat a) xs))"
proof (cases "a \<le> int (length xs)")
  case True
  then show ?thesis
  proof (cases "a + n \<le> int (length xs)")
    case False
    have "take (nat (int (length xs) - a)) (drop (nat a) xs) = drop (nat a) xs"
      "take (nat n) (drop (nat a) xs) = drop (nat a) xs" using True False assms by auto
    with True False assms show ?thesis by (simp add: slice_def min_def)
  qed (use True assms in \<open>simp add: slice_def min_def\<close>)
qed (use assms in \<open>simp add: slice_def min_def\<close>)

text \<open>A server with one block, and surroundings in which nothing fails and no download succeeds.\<close>

definition sample_server :: "(mem_state, prefix, mem_attr) viewed server" where
  "sample_server = \<lparr>srv_config = DefaultConfig, srv_controller = sample_ctl, srv_queue = newPolicyQueue,
     srv_cursor = 0, srv_feeds = NewManager, srv_feedsDisk = Map.empty, srv_syncing = [], srv_jobs = []\<rparr>"

definition silent_messages :: "'x messages" where
  "silent_messages = \<lparr>ms_controller = (\<lambda>_. ''controller''), ms_feed = (\<lambda>_. ''feed''), ms_manager = (\<lambda>_. ''manager''),
     ms_sql = (\<lambda>_. ''sql'')\<rparr>"

definition offline :: net_env where
  "offline = \<lparr>ne_parse = (\<lambda>_. None), ne_split = (\<lambda>_. None), ne_checked = (\<lambda>_ _. None), ne_dialled = (\<lambda>_ _. None),
     ne_answer = (\<lambda>_ _. ConnectFailed), ne_file = (\<lambda>_. None)\<rparr>"

definition sample_bk_env :: bk_env where
  "sample_bk_env = \<lparr>bv_ctl = (\<lambda>_. sample_env), bv_sql = (\<lambda>_. None), bv_rows = (\<lambda>_. None), bv_net = offline, bv_now = 5, bv_fresh = ''1'',
     bv_saveFault = None, bv_deleteFault = None,
     bv_syncFaults = \<lparr>ff_fetch = None, ff_store = None, ff_handler = None\<rparr>,
     bv_format = (\<lambda>_. ''now''), bv_parse = (\<lambda>_. None), bv_rfc3339 = (\<lambda>_. None), bv_like = (\<lambda>_ _. True),
     bv_newest = id, bv_byName = id\<rparr>"

definition viewed_ops :: "((mem_state, prefix, mem_attr) viewed, engine_error) engine_ops" where
  "viewed_ops = \<lparr>eo_announce = announce_viewed, eo_withdraw = withdraw_viewed,
     eo_status = (\<lambda>e. (fst (Status (snd e)), None))\<rparr>"

text \<open>C40: A page of policies, in file mode, is the slice of the matching prefixes that its number and size name,
  with their number and the least number of pages that holds them, as long as the last position on
  the page is a 64-bit integer.\<close>

theorem list_policies_exact:
  assumes "ct_sql (srv_controller s) = None" "1 \<le> page" "1 \<le> limit" "page * limit < 2 ^ 63"
    and "found = matching_texts list search (ct_store (srv_controller s))"
  shows "\<exists>pages. backend_ListPolicies M E list search page limit s =
      Some (Inr \<lparr>pp_Items = map (item_with (srv_feeds s) list) (take (nat limit) (drop (nat ((page - 1) * limit)) found)),
        pp_Total = int (length found), pp_Page = page, pp_Limit = limit, pp_TotalPages = pages\<rparr>) \<and>
    int (length found) \<le> pages * limit \<and> ((pages - 1) * limit < int (length found) \<or> found = [] \<and> pages = 0)"
proof -
  let ?a = "(page - 1) * limit"
  have a: "0 \<le> ?a" "?a + limit = page * limit" using assms(2,3) by (simp_all add: algebra_simps)
  have w: "wrap64 ?a = ?a" "wrap64 (?a + limit) = ?a + limit" using a assms(3,4) by (auto intro!: wrap64_id)
  have clamp: "(if x > y then y else x) = min x y" for x y :: int by simp
  have "backend_ListPolicies M E list search page limit s =
      Some (Inr \<lparr>pp_Items = map (item_with (srv_feeds s) list) (take (nat limit) (drop (nat ?a) found)),
        pp_Total = int (length found), pp_Page = page, pp_Limit = limit,
        pp_TotalPages = total_pages (int (length found)) limit\<rparr>)"
    using assms(1-3) slice_clamped [OF a(1), of limit found]
    by (simp add: backend_ListPolicies_def Let_def w clamp assms(5) [symmetric])
  then show ?thesis using total_pages_least [of "int (length found)" limit] assms(3) by auto
qed

theorem list_policies_exact_witness:
  "\<exists>pages. backend_ListPolicies silent_messages sample_bk_env ''blocklist'' [] 1 25 sample_server =
      Some (Inr \<lparr>pp_Items = [item_with NewManager ''blocklist'' (prefix_String doc_net)],
        pp_Total = 1, pp_Page = 1, pp_Limit = 25, pp_TotalPages = pages\<rparr>) \<and> 1 \<le> pages * 25"
proof -
  have "TrimSpace [] = []" by (rule TrimSpace_graphic) simp
  then have "[prefix_String doc_net] = matching_texts ''blocklist'' [] (ct_store (srv_controller sample_server))"
    by (simp add: matching_texts_def sample_server_def sample_lists ToLower_def)
  from list_policies_exact [OF _ _ _ _ this, of 1 25 silent_messages sample_bk_env] show ?thesis
    by (auto simp: sample_server_def sample_ctl_def)
qed

text \<open>Beyond that the product wraps to a negative start and the slice expression panics.\<close>

theorem list_policies_panics:
  assumes "ct_sql (srv_controller s) = None" "1 \<le> page" "1 \<le> limit"
    and "2 ^ 63 \<le> (page - 1) * limit" "(page - 1) * limit < 2 ^ 64"
  shows "backend_ListPolicies M E list search page limit s = None"
  using assms wrap64_negative [OF assms(4,5)] by (simp add: backend_ListPolicies_def Let_def slice_def)

section \<open>Feeds in SQL mode\<close>

definition sql_target :: "bk_env \<Rightarrow> string \<Rightarrow> db \<Rightarrow> feed_source option" where
  "sql_target E fid d = find (\<lambda>f. fs_ID f = fid) (map feed_of_row (bv_byName E (t_feeds d)))"

text \<open>In SQL mode a feed whose download fails is due again at once: the failure erases the time of its
  last synchronisation, so that every tick of the scheduler downloads it, whatever its interval.\<close>

theorem sql_failed_feed_due:
  assumes "ct_sql (srv_controller s) = Some d" "fid \<notin> set (srv_syncing s)" "bv_sql E 0 = None" "bv_sql E 1 = None"
    and "sql_target E fid d = Some f" "fst (Fetch (bv_net E) (fs_URL f) (fs_ExpandSubnets f)) = Inl e"
  shows "\<exists>d'. ct_sql (srv_controller (snd (backend_SyncFeed Eng M E fid s))) = Some d' \<and>
    (\<forall>row\<in>set (t_feeds d'). fr_id row = fid \<longrightarrow>
       fr_prefix_count row = 0 \<and> (\<forall>E' now. sql_due E' now (feed_of_row row) = (fr_enabled row \<noteq> 0 \<and> fr_interval_sec row > 0)))"
proof -
  let ?d = "snd (sql_UpdateFeedStatus (bv_sql E 1) fid 0 [] (ms_feed M e) d)"
  let ?s = "s\<lparr>srv_syncing := fid # srv_syncing s\<rparr>"
  have "sql_sync Eng M E fid d ?s = ((0, Some (ms_feed M e)), with_db ?d ?s)"
    using assms(3,5,6) by (simp add: sql_sync_def sql_ListFeeds_def sql_target_def)
  then have "ct_sql (srv_controller (snd (backend_SyncFeed Eng M E fid s))) = Some ?d"
    using assms(1,2) by (simp add: backend_SyncFeed_def Let_def with_db_def)
  moreover have "fr_last_sync row = Some [] \<and> fr_prefix_count row = 0" if row: "row \<in> set (t_feeds ?d)" "fr_id row = fid" for row
  proof -
    let ?u = "\<lambda>r. r\<lparr>fr_prefix_count := 0, fr_last_sync := Some [], fr_last_error := Some (ms_feed M e)\<rparr>"
    have "t_feeds ?d = map (\<lambda>r. if fr_id r = fid then ?u r else r) (t_feeds d)"
      using assms(4) by (simp add: sql_UpdateFeedStatus_def exec_one_def update_where_def)
    then have "row \<in> (\<lambda>r. if fr_id r = fid then ?u r else r) ` set (t_feeds d)" using row(1) by (simp only: set_map)
    then obtain r0 where "row = (if fr_id r0 = fid then ?u r0 else r0)" by (rule imageE)
    then show ?thesis using row(2) by (cases "fr_id r0 = fid") simp_all
  qed
  moreover have "sql_due E' now (feed_of_row row) = (fr_enabled row \<noteq> 0 \<and> fr_interval_sec row > 0)"
    if "fr_last_sync row = Some []" for E' now row
    using that by (simp add: sql_due_def feed_of_row_def not_le)
  ultimately show ?thesis by (intro exI [of _ ?d]) simp
qed

definition feed_db :: db where
  "feed_db = \<lparr>t_feeds = [\<lparr>fr_id = ''f'', fr_name = ''n'', fr_list = ''blocklist'', fr_url = ''u'', fr_interval_sec = 3600,
     fr_enabled = 1, fr_last_sync = Some ''then'', fr_prefix_count = 7, fr_last_error = None, fr_expand_subnets = 0\<rparr>],
     t_policies = [], t_audit = []\<rparr>"

theorem sql_failed_feed_due_witness:
  "\<exists>d'. ct_sql (srv_controller (snd (backend_SyncFeed viewed_ops silent_messages sample_bk_env ''f'' (with_db feed_db sample_server)))) = Some d' \<and>
    (\<forall>row\<in>set (t_feeds d'). fr_id row = ''f'' \<longrightarrow>
       fr_prefix_count row = 0 \<and> (\<forall>E' now. sql_due E' now (feed_of_row row) = (fr_enabled row \<noteq> 0 \<and> fr_interval_sec row > 0)))"
proof (rule sql_failed_feed_due)
  show "sql_target sample_bk_env ''f'' feed_db = Some (feed_of_row (hd (t_feeds feed_db)))"
    by (simp add: sql_target_def sample_bk_env_def feed_db_def feed_of_row_def)
  have "TrimSpace ''u'' = ''u''" by (rule TrimSpace_graphic) (simp add: graphic_def)
  then show "fst (Fetch (bv_net sample_bk_env) (fs_URL (feed_of_row (hd (t_feeds feed_db))))
      (fs_ExpandSubnets (feed_of_row (hd (t_feeds feed_db))))) = Inl NotURLOrFile"
    by (simp add: Fetch_def sample_bk_env_def offline_def feed_db_def feed_of_row_def)
qed (simp_all add: with_db_def sample_server_def sample_bk_env_def)

text \<open>In SQL mode a dry run synchronises the database all the same; only the announcement is refused.\<close>

theorem sql_dry_run_sync_writes:
  assumes "ct_sql (srv_controller s) = Some d" "ct_dryRun (srv_controller s)" "fid \<notin> set (srv_syncing s)"
    and "bv_sql E 0 = None" "sql_target E fid d = Some f"
    and "fst (Fetch (bv_net E) (fs_URL f) (fs_ExpandSubnets f)) = Inr ps"
    and "pooled (SyncFeedPolicies (bv_sql E 2) (bv_rows E 2) (bv_now E) (bv_format E (bv_now E)) (fs_ID f)
      (fs_Name f) (fs_List f) (map prefix_String ps)) d = (Inr (toAdd, toRemove), d1)"
  shows "fst (backend_SyncFeed Eng M E fid s) = (int (length ps), Some (ms_controller M ApplyDryRun)) \<and>
    (\<exists>d'. ct_sql (srv_controller (snd (backend_SyncFeed Eng M E fid s))) = Some d' \<and> t_policies d' = t_policies d1)"
proof -
  let ?d = "snd (sql_UpdateFeedStatus (bv_sql E 3) fid (int (length ps)) (bv_format E (bv_now E)) [] d1)"
  let ?s = "s\<lparr>srv_syncing := fid # srv_syncing s\<rparr>"
  let ?r = "with_controller (ApplyBatch (eo_announce Eng) (eo_withdraw Eng) (fs_List f) toAdd toRemove) (with_db ?d ?s)"
  have policies: "t_policies ?d = t_policies d1"
    by (simp add: sql_UpdateFeedStatus_def exec_one_def)
  have "fst ?r = Some ApplyDryRun" and ctl: "ct_sql (srv_controller (snd ?r)) = Some ?d"
    using assms(2) by (simp_all add: with_controller_def with_db_def ApplyBatch_def)
  moreover have "sql_sync Eng M E fid d ?s =
      ((int (length ps), map_option (ms_controller M) (fst ?r)), snd ?r)"
    using assms(4-7) by (simp add: sql_sync_def sql_ListFeeds_def sql_target_def case_prod_unfold Let_def)
  ultimately have "backend_SyncFeed Eng M E fid s = ((int (length ps), Some (ms_controller M ApplyDryRun)),
      (snd ?r)\<lparr>srv_syncing := removeAll fid (srv_syncing (snd ?r))\<rparr>)"
    using assms(1,3) by (simp add: backend_SyncFeed_def Let_def)
  with ctl policies show ?thesis by simp
qed

text \<open>C19: In a dry run no request reaches the speaker or the agents, and with a policy file none changes
  the policy. Whatever is posted, by whomever, the policy store and its file, the routes, the engine
  and the queue of changes stay as they are, in file mode and in SQL mode. In file mode that is all
  there is; in SQL mode the database is left out: feed requests change it in a dry run too.\<close>

theorem dry_run_changes_nothing:
  assumes "ct_dryRun (srv_controller s)" "ct_published (srv_controller s) = []"
  shows "srv_controller (serve_all Eng M rs s) =
      (srv_controller s)\<lparr>ct_sql := ct_sql (srv_controller (serve_all Eng M rs s))\<rparr> \<and>
    srv_queue (serve_all Eng M rs s) = srv_queue s \<and>
    (ct_sql (srv_controller s) = None \<longrightarrow> srv_controller (serve_all Eng M rs s) = srv_controller s)"
proof -
  let ?I = "dry_server (srv_controller s) (srv_queue s)"
  have "?I s" using assms by (simp add: dry_server_def)
  with serve_all_inv [of rs ?I Eng M s, OF dry.ServeHTTP_inv] have I: "?I (serve_all Eng M rs s)" by blast
  have "(srv_controller (serve_all Eng M rs s))\<lparr>ct_sql := ct_sql (srv_controller (serve_all Eng M rs s))\<rparr> =
      (srv_controller s)\<lparr>ct_sql := ct_sql (srv_controller (serve_all Eng M rs s))\<rparr>"
    by (rule dry_server_D(3) [OF I])
  then have eq: "srv_controller (serve_all Eng M rs s) =
      (srv_controller s)\<lparr>ct_sql := ct_sql (srv_controller (serve_all Eng M rs s))\<rparr>" by simp
  have "srv_controller (serve_all Eng M rs s) = srv_controller s" if "ct_sql (srv_controller s) = None"
  proof -
    have "ct_sql (srv_controller (serve_all Eng M rs s)) = ct_sql (srv_controller s)"
      using I that by (simp add: dry_server_def)
    with eq show ?thesis by (metis controller.surjective controller.update_convs(3))
  qed
  moreover have "srv_queue (serve_all Eng M rs s) = srv_queue s" using I by (simp add: dry_server_def)
  ultimately show ?thesis using eq by blast
qed

definition dry_sample :: "(mem_state, prefix, mem_attr) viewed server" where
  "dry_sample = sample_server\<lparr>srv_controller := sample_ctl\<lparr>ct_dryRun := True\<rparr>\<rparr>"

theorem dry_run_changes_nothing_witness:
  "\<forall>rs. srv_controller (serve_all viewed_ops silent_messages rs dry_sample) = sample_ctl\<lparr>ct_dryRun := True\<rparr>"
  using dry_run_changes_nothing [of dry_sample viewed_ops silent_messages]
  by (simp add: dry_sample_def sample_ctl_def)

end
