(* ===== verification/Server_Run.thy ===== *)
theory Server_Run
  imports Backend
begin

text \<open>
  \<open>Run\<close> of \<open>internal/runtime/server.go\<close>: the order of start-up and shut-down with every early return, and
  between them the events that the goroutines of a running server serve, in the order in which the
  locks let them through. The synchronisation sessions, which work on the queue and the cursor, are
  the theories on policy synchronisation.
\<close>

section \<open>Events\<close>

datatype event =
    HTTPRequest http_env bk_env request
  | PeerUpdate peer_event
  | ExpiryRound "nat \<Rightarrow> ctl_env" time
  | FeedPass "string \<Rightarrow> bk_env" time
  | SQLTick "nat \<Rightarrow> bk_env" time
  | BackgroundSync bk_env

definition bgp_ops :: "(engine_error \<Rightarrow> string) \<Rightarrow> (('g, 'n, 'a) engine, engine_error) engine_ops" where
  "bgp_ops msg = \<lparr>eo_announce = Announce, eo_withdraw = Withdraw,
     eo_status = (\<lambda>e. case Status e of (st, x) \<Rightarrow> (st, map_option msg x))\<rparr>"

text \<open>What the program was built and started with: the texts of errors and SHA-256.\<close>

record program =
  pr_engineText :: "engine_error \<Rightarrow> string"
  pr_messages :: "engine_error messages"
  pr_sha256 :: "string \<Rightarrow> string"

definition program_ops :: "program \<Rightarrow> (('g, 'n, 'a) engine, engine_error) engine_ops" where
  "program_ops P = bgp_ops (pr_engineText P)"

text \<open>A pass of the feed manager's scheduler over the feeds that are due.\<close>

definition feed_pass :: "('e, 'x) engine_ops \<Rightarrow> 'x messages \<Rightarrow> (string \<Rightarrow> bk_env) \<Rightarrow> time \<Rightarrow> 'e server \<Rightarrow> 'e server" where
  "feed_pass Eng M Es now s =
     (case run_pass (\<lambda>fid. \<lparr>se_net = bv_net (Es fid), se_faults = bv_syncFaults (Es fid), se_now = bv_now (Es fid),
              se_others = id\<rparr>) (ms_feed M) (Some (feed_onSync Eng M)) now (srv_feeds s) (srv_feedsDisk s)
              (srv_controller s) of
        (_, m, d, c) \<Rightarrow> s\<lparr>srv_feeds := m, srv_feedsDisk := d, srv_controller := c\<rparr>)"

fun serve_event :: "program \<Rightarrow> event \<Rightarrow> ('g, 'n, 'a) engine server \<Rightarrow> ('g, 'n, 'a) engine server" where
  "serve_event P (HTTPRequest H E r) s =
     snd (ServeHTTP H (BearerTokenAuthorizer (pr_sha256 P) (c_APIToken (srv_config s)))
       (dashboard_ops (program_ops P) (pr_messages P) E) r s)"
| "serve_event P (PeerUpdate ev) s =
     s\<lparr>srv_controller := (srv_controller s)\<lparr>ct_engine := onPeerUpdate ev (ct_engine (srv_controller s))\<rparr>\<rparr>"
| "serve_event P (ExpiryRound envs now) s =
     (if c_DryRun (srv_config s) then s else snd (with_controller (applyExpired Announce Withdraw envs now) s))"
| "serve_event P (FeedPass Es now) s = feed_pass (program_ops P) (pr_messages P) Es now s"
| "serve_event P (SQLTick Es now) s = syncDue (program_ops P) (pr_messages P) Es now s"
| "serve_event P (BackgroundSync E) s =
     (case srv_jobs s of
        [] \<Rightarrow> s
      | fid # jobs \<Rightarrow> snd (backend_SyncFeed (program_ops P) (pr_messages P) E fid (s\<lparr>srv_jobs := jobs\<rparr>)))"

section \<open>Run\<close>

datatype run_error =
    StartFailed engine_error
  | ReconcileFailed "engine_error ctl_error"
  | DashboardListen
  | PolicySyncListen
  | ServeFailed string
  | CloseSyncListener string
  | ShutdownDashboard string
  | StopFailed engine_error
  | CloseDashboardListener string

text \<open>The outcome of the calls on the network: whether a listener opens, what ends the select (an error of
  a goroutine, or none), and the errors of closing.\<close>

record run_env =
  rn_reconcile :: ctl_env
  rn_now :: time
  rn_httpListenFails :: bool
  rn_syncListenFails :: bool
  rn_httpClose :: "string option"
  rn_ended :: "string option"
  rn_syncClose :: "string option"
  rn_shutdown :: "string option"

definition with_engine :: "'e \<Rightarrow> 'e server \<Rightarrow> 'e server" where
  "with_engine e s = s\<lparr>srv_controller := (srv_controller s)\<lparr>ct_engine := e\<rparr>\<rparr>"

text \<open>\<open>errors.Join\<close> of the errors so far and that of stopping the engine.\<close>

definition stop_after :: "run_error list \<Rightarrow> ('g, 'n, 'a) engine server \<Rightarrow> run_error list \<times> ('g, 'n, 'a) engine server" where
  "stop_after errs s =
     (case Stop (ct_engine (srv_controller s)) of
        (x, e) \<Rightarrow> (errs @ (case x of None \<Rightarrow> [] | Some x \<Rightarrow> [StopFailed x]), with_engine e s))"

definition first_error :: "run_error option \<Rightarrow> run_error option \<Rightarrow> run_error option" where
  "first_error runErr err = (if runErr = None then err else runErr)"

definition shut_down :: "run_env \<Rightarrow> ('g, 'n, 'a) engine server \<Rightarrow> run_error list \<times> ('g, 'n, 'a) engine server" where
  "shut_down R s =
     (let runErr = map_option ServeFailed (rn_ended R);
          runErr = first_error runErr (map_option CloseSyncListener (rn_syncClose R));
          runErr = first_error runErr (map_option ShutdownDashboard (rn_shutdown R));
          (x, e) = Stop (ct_engine (srv_controller s));
          runErr = first_error runErr (map_option StopFailed x)
      in ((case runErr of None \<Rightarrow> [] | Some err \<Rightarrow> [err]), with_engine e s))"

definition server_Run :: "program \<Rightarrow> run_env \<Rightarrow> event list \<Rightarrow> ('g, 'n, 'a) engine server
    \<Rightarrow> run_error list \<times> ('g, 'n, 'a) engine server" where
  "server_Run P R evs s =
     (case Start (ct_engine (srv_controller s)) of
        (Some x, e) \<Rightarrow> ([StartFailed x], with_engine e s)
      | (None, e) \<Rightarrow>
          let s = with_engine e s;
              s = s\<lparr>srv_controller := (srv_controller s)\<lparr>ct_publish := True\<rparr>\<rparr>
          in case with_controller (Reconcile Announce Withdraw (rn_reconcile R) (rn_now R)) s of
               (Some x, s) \<Rightarrow> stop_after [ReconcileFailed x] s
             | (None, s) \<Rightarrow>
                 if rn_httpListenFails R then stop_after [DashboardListen] s
                 else if rn_syncListenFails R then
                   stop_after (PolicySyncListen # (case rn_httpClose R of None \<Rightarrow> [] | Some e \<Rightarrow> [CloseDashboardListener e])) s
                 else shut_down R (fold (serve_event P) evs s))"

section \<open>The engine is stopped\<close>

lemma Stop_stops: "\<not> running (snd (Stop e))"
  by (simp add: Stop_def Let_def split: prod.split)

lemma stop_after_stops: "\<not> running (ct_engine (srv_controller (snd (stop_after errs s))))"
  using Stop_stops [of "ct_engine (srv_controller s)"] by (simp add: stop_after_def with_engine_def case_prod_unfold)

lemma shut_down_stops: "\<not> running (ct_engine (srv_controller (snd (shut_down R s))))"
  using Stop_stops [of "ct_engine (srv_controller s)"] by (simp add: shut_down_def with_engine_def Let_def case_prod_unfold)

lemma Start_failed: "Start e = (Some x, e') \<Longrightarrow> \<not> running e \<Longrightarrow> \<not> running e'"
  by (auto simp: Start_def Let_def split: if_splits prod.splits option.splits)

lemma NewServer_not_running: "NewServer W c = Inr s \<Longrightarrow> \<not> running (ct_engine (srv_controller s))"
  by (erule NewServer_Inr) (auto simp: engine_New_def split: option.splits)

section \<open>Events keep the queue sendable\<close>

lemma applyLocked_published:
  assumes "applyLocked an wd env m c = (x, c')"
  shows "ct_published c' = ct_published c \<or>
    ct_published c' = ct_published c @ [m] \<and> parse_canonical (pm_Prefix m) \<noteq> None"
  using assms
proof (cases rule: applyLocked_cases)
  case (delta p list bl wl y)
  from applyDelta_frame [OF delta(5)] show ?thesis by simp
next
  case (persist p list bl wl e s d c1)
  then show ?thesis using applyDelta_frame [OF persist(4)] by (simp add: applyDelta_snd_frame)
next
  case (commit p list bl wl s d c1)
  then show ?thesis using applyDelta_frame [OF commit(4)] by (simp add: publish_mutation_def)
qed auto

definition sendable_mutation :: "policy_mutation \<Rightarrow> bool" where
  "sendable_mutation m = (dashboard_mutation m \<and> parse_canonical (pm_Prefix m) \<noteq> None)"

lemma expire_from_published:
  "expire_from an wd envs now i es c = (x, c') \<Longrightarrow> \<forall>m\<in>set (ct_published c). sendable_mutation m \<Longrightarrow>
   \<forall>m\<in>set (ct_published c'). sendable_mutation m"
proof (induction an wd envs now i es c arbitrary: x c' rule: expire_from.induct)
  case (2 an wd envs now i p t es c)
  let ?m = "\<lparr>pm_Action = ''remove'', pm_List = ''blocklist'', pm_Prefix = prefix_String p, pm_ExpiresAt = None\<rparr>"
  obtain y c1 where a: "applyLocked an wd (envs i) ?m c = (y, c1)" by fastforce
  have "\<forall>m\<in>set (ct_published c1). sendable_mutation m"
    using applyLocked_published [OF a] "2.prems"(2)
    by (auto simp: sendable_mutation_def dashboard_mutation_def named_list_def)
  then show ?case using 2 a by (auto split: if_splits option.splits)
qed simp

lemma fold_publish_sendable:
  "\<forall>m\<in>set ms. sendable_mutation m \<Longrightarrow> \<forall>c\<in>set (pq_pending q). validatePolicy c = None \<Longrightarrow>
   \<forall>c\<in>set (pq_pending (fold publish ms q)). validatePolicy c = None"
proof (induction ms arbitrary: q)
  case (Cons m ms)
  have "\<forall>c\<in>set (pq_pending (publish m q)). validatePolicy c = None"
    using Cons.prems queue_change_valid by (auto simp: pending_publish sendable_mutation_def)
  then show ?case using Cons by simp
qed simp

text \<open>What batches keep of the controller, a pass over the due feeds keeps; what a synchronisation keeps
  of the server, a round of the schedule keeps.\<close>

lemma manager_SyncFeed_controller:
  assumes "manager_SyncFeed N ff now msg (Some (feed_onSync Eng M)) id fid m d c = (r, m', d', c')" "K c"
    and "\<And>list a r c x c'. K c \<Longrightarrow> ApplyBatch (eo_announce Eng) (eo_withdraw Eng) list a r c = (x, c') \<Longrightarrow> K c'"
  shows "K c'"
proof -
  have "c' = c \<or> (\<exists>list a r x. ApplyBatch (eo_announce Eng) (eo_withdraw Eng) list a r c = (x, c'))"
    using assms(1) by (auto simp: manager_SyncFeed_def Let_def split: option.splits dest!: sendable.finish_controller)
  with assms(2,3) show ?thesis by blast
qed

lemma feed_pass_controller:
  assumes "K (srv_controller s)"
    and "\<And>list a r c x c'. K c \<Longrightarrow> ApplyBatch (eo_announce Eng) (eo_withdraw Eng) list a r c = (x, c') \<Longrightarrow> K c'"
  shows "K (srv_controller (feed_pass Eng M Es now s)) \<and> srv_queue (feed_pass Eng M Es now s) = srv_queue s"
proof -
  let ?step = "\<lambda>fid (m, d, c). snd (manager_SyncFeed (bv_net (Es fid)) (bv_syncFaults (Es fid)) (bv_now (Es fid))
      (ms_feed M) (Some (feed_onSync Eng M)) id fid m d c)"
  have one: "K (snd (snd (?step fid t)))" if "K (snd (snd t))" for fid t
  proof -
    obtain r m d c where "manager_SyncFeed (bv_net (Es fid)) (bv_syncFaults (Es fid)) (bv_now (Es fid))
      (ms_feed M) (Some (feed_onSync Eng M)) id fid (fst t) (fst (snd t)) (snd (snd t)) = (r, m, d, c)"
      by (rule prod_cases4)
    with manager_SyncFeed_controller [OF this, of K] that assms(2) show ?thesis by (simp add: case_prod_unfold)
  qed
  have all: "K (snd (snd (fold ?step ids t)))" if "K (snd (snd t))" for ids t
    using that by (induction ids arbitrary: t) (simp_all add: one)
  obtain n m d c where r: "run_pass (\<lambda>fid. \<lparr>se_net = bv_net (Es fid), se_faults = bv_syncFaults (Es fid),
      se_now = bv_now (Es fid), se_others = id\<rparr>) (ms_feed M) (Some (feed_onSync Eng M)) now (srv_feeds s)
      (srv_feedsDisk s) (srv_controller s) = (n, m, d, c)" by (rule prod_cases4)
  obtain ids k where "schedule now (mg_sources (srv_feeds s)) [] feed_hour = (ids, k)" by fastforce
  with r have "fold ?step ids (srv_feeds s, srv_feedsDisk s, srv_controller s) = (m, d, c)"
    by (simp add: run_pass_def case_prod_unfold Let_def)
  with all [of "(srv_feeds s, srv_feedsDisk s, srv_controller s)" ids] assms(1) have "K c" by simp
  with r show ?thesis by (simp add: feed_pass_def)
qed

lemma syncDue_keeps:
  assumes "I s" "\<And>n fid t. I t \<Longrightarrow> I (snd (backend_SyncFeed Eng M (Es n) fid t))"
  shows "I (syncDue Eng M Es now s)"
proof -
  have "I (fold (\<lambda>(i, f) s. if sql_due E now f then snd (backend_SyncFeed Eng M (Es (Suc i)) (fs_ID f) s) else s) xs t)"
    if "I t" for E xs t
    using that assms(2) by (induction xs arbitrary: t) (auto split: if_splits)
  with assms(1) show ?thesis by (auto simp: syncDue_def split: option.split sum.split)
qed

lemma feed_pass_sendable: "queue_sendable s \<Longrightarrow> queue_sendable (feed_pass Eng M Es now s)"
  using feed_pass_controller [of "\<lambda>c. ct_published c = []" s Eng M Es now] ApplyBatch_frame(4)
  by (fastforce simp: queue_sendable_def)

lemma syncDue_sendable: "queue_sendable s \<Longrightarrow> queue_sendable (syncDue Eng M Es now s)"
  by (rule syncDue_keeps) (simp_all add: sendable.sync_step)

lemma serve_event_sendable: "queue_sendable s \<Longrightarrow> queue_sendable (serve_event P ev s)"
proof (cases ev)
  case (HTTPRequest H E r)
  assume "queue_sendable s"
  with HTTPRequest show ?thesis by (simp add: sendable.ServeHTTP_inv)
next
  case (ExpiryRound envs now)
  assume s: "queue_sendable s"
  let ?f = "applyExpired Announce Withdraw envs now"
  obtain x c where run: "?f (srv_controller s) = (x, c)" by fastforce
  have "\<forall>m\<in>set (ct_published c). sendable_mutation m"
    using expire_from_published [OF run [unfolded applyExpired_def]] s by (simp add: queue_sendable_def)
  from fold_publish_sendable [OF this, of "srv_queue s"] have "queue_sendable (snd (with_controller ?f s))"
    using s by (simp add: queue_sendable_def with_controller_fields [of ?f s x c, OF run])
  with ExpiryRound s show ?thesis by simp
next
  case (BackgroundSync E)
  assume s: "queue_sendable s"
  then have "queue_sendable (s\<lparr>srv_jobs := jobs\<rparr>)" for jobs by (simp add: queue_sendable_def)
  with BackgroundSync s show ?thesis by (auto split: list.split intro: sendable.sync_step)
next
  case (PeerUpdate pe)
  assume "queue_sendable s"
  with PeerUpdate show ?thesis by (simp add: queue_sendable_def)
qed (simp_all add: feed_pass_sendable syncDue_sendable)

lemma serve_events_sendable: "queue_sendable s \<Longrightarrow> queue_sendable (fold (serve_event P) evs s)"
  by (induction evs arbitrary: s) (simp_all add: serve_event_sendable)

lemma Reconcile_published: "Reconcile an wd env now c = (x, c') \<Longrightarrow> ct_published c' = ct_published c"
  by (auto simp: Reconcile_def applyDelta_frame split: if_splits)

lemma with_engine_sendable [simp]: "queue_sendable (with_engine e s) = queue_sendable s"
  by (simp add: queue_sendable_def with_engine_def)

section \<open>Invariants of a run\<close>

text \<open>What holds of a server whose engine was started, and, once it publishes, is kept by the first
  reconciliation, every event and stopping, holds after a run: \<open>J\<close> when the engine did not start.\<close>

lemma server_Run_invariant:
  assumes start: "\<And>x e. Start (ct_engine (srv_controller s)) = (x, e) \<Longrightarrow> J (with_engine e s)"
    and publish: "\<And>t. J t \<Longrightarrow> I (t\<lparr>srv_controller := (srv_controller t)\<lparr>ct_publish := True\<rparr>\<rparr>)"
    and reconcile: "\<And>t. I t \<Longrightarrow> I (snd (with_controller (Reconcile Announce Withdraw (rn_reconcile R) (rn_now R)) t))"
    and event: "\<And>ev t. ev \<in> set evs \<Longrightarrow> I t \<Longrightarrow> I (serve_event P ev t)"
    and stop: "\<And>t. I t \<Longrightarrow> I (with_engine (snd (Stop (ct_engine (srv_controller t)))) t)"
  shows "I (snd (server_Run P R evs s)) \<or> J (snd (server_Run P R evs s))"
proof -
  have events: "I (fold (serve_event P) es t)" if "set es \<subseteq> set evs" "I t" for es t
    using that event by (induction es arbitrary: t) simp_all
  obtain x e where st: "Start (ct_engine (srv_controller s)) = (x, e)" by fastforce
  let ?t = "(with_engine e s)\<lparr>srv_controller := (srv_controller (with_engine e s))\<lparr>ct_publish := True\<rparr>\<rparr>"
  obtain y u where rec: "with_controller (Reconcile Announce Withdraw (rn_reconcile R) (rn_now R)) ?t = (y, u)"
    by fastforce
  have u: "I u" using reconcile [OF publish [OF start [OF st]]] rec by simp
  have "I (snd (stop_after errs u))" for errs
    using stop [OF u] by (simp add: stop_after_def case_prod_unfold)
  moreover have "I (snd (shut_down R (fold (serve_event P) evs u)))"
    using stop [OF events [OF order_refl u]] by (simp add: shut_down_def Let_def case_prod_unfold)
  ultimately show ?thesis
    using start [OF st] st rec by (simp add: server_Run_def Let_def split: option.split)
qed

lemma server_Run_keeps:
  assumes "\<And>x e. Start (ct_engine (srv_controller s)) = (x, e) \<Longrightarrow> I (with_engine e s)"
    and "\<And>t. I t \<Longrightarrow> I (t\<lparr>srv_controller := (srv_controller t)\<lparr>ct_publish := True\<rparr>\<rparr>)"
    and "\<And>t. I t \<Longrightarrow> I (snd (with_controller (Reconcile Announce Withdraw (rn_reconcile R) (rn_now R)) t))"
    and "\<And>ev t. ev \<in> set evs \<Longrightarrow> I t \<Longrightarrow> I (serve_event P ev t)"
    and "\<And>t. I t \<Longrightarrow> I (with_engine (snd (Stop (ct_engine (srv_controller t)))) t)"
  shows "I (snd (server_Run P R evs s))"
proof -
  have "I (snd (server_Run P R evs s)) \<or> I (snd (server_Run P R evs s))"
    by (rule server_Run_invariant) (fact assms)+
  then show ?thesis by blast
qed

lemma Reconcile_sendable:
  assumes "queue_sendable s"
  shows "queue_sendable (snd (with_controller (Reconcile Announce Withdraw env now) s))"
proof -
  obtain x c where f: "Reconcile Announce Withdraw env now (srv_controller s) = (x, c)" by fastforce
  from Reconcile_published [OF f] assms show ?thesis
    by (simp add: queue_sendable_def with_controller_fields [of "Reconcile Announce Withdraw env now", OF f])
qed

lemma sendable_run:
  assumes "queue_sendable s"
  shows "queue_sendable (snd (server_Run P R evs s))"
proof (rule server_Run_keeps [where I = queue_sendable])
  show "queue_sendable (t\<lparr>srv_controller := (srv_controller t)\<lparr>ct_publish := True\<rparr>\<rparr>)" if "queue_sendable t" for t
    using that by (simp add: queue_sendable_def)
qed (use assms in \<open>simp_all add: serve_event_sendable Reconcile_sendable\<close>)

section \<open>Properties\<close>

text \<open>C20: \<open>Run\<close> leaves no engine behind: wherever start-up fails and however serving ends, the BGP engine of a
  new server is stopped when \<open>Run\<close> returns.\<close>

theorem Run_stops_engine:
  assumes "NewServer W c = Inr s" and "server_Run P R evs s = (errs, s')"
  shows "\<not> running (ct_engine (srv_controller s'))"
proof (cases "Start (ct_engine (srv_controller s))")
  case (Pair x e)
  show ?thesis
  proof (cases x)
    case (Some y)
    with Pair assms have "s' = with_engine e s" by (simp add: server_Run_def)
    with Start_failed [of _ y e] Pair Some NewServer_not_running [OF assms(1)] show ?thesis
      by (simp add: with_engine_def)
  next
    case None
    with Pair assms(2) have "(\<exists>errs t. s' = snd (stop_after errs t)) \<or> (\<exists>t. s' = snd (shut_down R t))"
      by (auto simp: server_Run_def Let_def split: prod.splits option.splits if_splits) (metis snd_conv)+
    then show ?thesis using stop_after_stops shut_down_stops by blast
  qed
qed

definition quiet_run :: run_env where
  "quiet_run = \<lparr>rn_reconcile = sample_env, rn_now = 5, rn_httpListenFails = False, rn_syncListenFails = False,
     rn_httpClose = None, rn_ended = None, rn_syncClose = None, rn_shutdown = None\<rparr>"

definition sample_program :: program where
  "sample_program = \<lparr>pr_engineText = (\<lambda>_. ''engine''), pr_messages = silent_messages, pr_sha256 = (\<lambda>s. s)\<rparr>"

theorem Run_stops_engine_witness:
  "\<exists>s errs s'. NewServer empty_world dsn_only = Inr s \<and> server_Run sample_program quiet_run [] s = (errs, s') \<and>
     \<not> running (ct_engine (srv_controller s'))"
proof -
  obtain s where s: "NewServer empty_world dsn_only = Inr s" using dsn_server by blast
  obtain errs s' where r: "server_Run sample_program quiet_run [] s = (errs, s')" by fastforce
  from Run_stops_engine [OF s r] s r show ?thesis by blast
qed

text \<open>C10: nothing that cannot be sent enters the queue. After any run of a new server, through whatever requests,
  expiries, peer events and feed synchronisations, every change waiting for the agent passes the checks
  that \<open>SendPolicy\<close> and the agent make, so that none of them blocks the queue.\<close>

theorem queued_changes_sendable:
  assumes "NewServer W c = Inr s" and "server_Run P R evs s = (errs, s')"
  shows "\<forall>change\<in>set (pq_pending (srv_queue s')). validatePolicy change = None"
proof -
  have "queue_sendable s"
    using assms(1) by (elim NewServer_Inr) (simp add: queue_sendable_def newPolicyQueue_def)
  then have "queue_sendable (snd (server_Run P R evs s))"
    by (rule sendable_run)
  with assms(2) show ?thesis by (simp add: queue_sendable_def)
qed

theorem queued_changes_sendable_witness:
  "\<exists>s errs s'. NewServer empty_world dsn_only = Inr s \<and>
     server_Run sample_program quiet_run [ExpiryRound (\<lambda>_. sample_env) 7] s = (errs, s') \<and>
     (\<forall>change\<in>set (pq_pending (srv_queue s')). validatePolicy change = None)"
proof -
  obtain s where s: "NewServer empty_world dsn_only = Inr s" using dsn_server by blast
  obtain errs s' where r: "server_Run sample_program quiet_run [ExpiryRound (\<lambda>_. sample_env) 7] s = (errs, s')"
    by fastforce
  from queued_changes_sendable [OF s r] s r show ?thesis by blast
qed

end
