(* ===== verification/Server_Invariant.thy ===== *)
theory Server_Invariant
  imports Server_Run
begin

text \<open>
  The data of a whole server stays well formed: the store, the routes it announces and the engine's
  session table, from \<open>NewServer\<close> of \<open>internal/runtime/server.go\<close> through every event of
  \<open>Run\<close>. It composes the invariants of the policy store and of the engine through the controller
  and the dashboard.
\<close>

section \<open>Route operations\<close>

definition keeps :: "('e \<Rightarrow> bool) \<Rightarrow> ('e, 'x) route_op \<Rightarrow> bool" where
  "keeps P f = (\<forall>r e. P e \<longrightarrow> P (snd (f r e)))"

lemma all_routes_keeps: "keeps P f \<Longrightarrow> P e \<Longrightarrow> P (all_routes f rs e)"
  by (induction rs arbitrary: e) (simp_all add: all_routes_def keeps_def)

lemma withdraw_stale_keeps:
  "keeps P an \<Longrightarrow> keeps P wd \<Longrightarrow> P e \<Longrightarrow> P (snd (snd (withdraw_stale an wd desired active withdrawn e)))"
proof (induction an wd desired active withdrawn e rule: withdraw_stale.induct)
  case (2 an wd desired p r active withdrawn e)
  have "P (snd (wd r e))" using 2(4,5) by (simp add: keeps_def)
  with 2 show ?case by (auto intro: all_routes_keeps split: prod.split option.split)
qed simp

lemma announce_new_keeps:
  "keeps P an \<Longrightarrow> keeps P wd \<Longrightarrow> P e \<Longrightarrow> P (snd (announce_new an wd active withdrawn desired announced e))"
proof (induction an wd active withdrawn desired announced e rule: announce_new.induct)
  case (2 an wd active withdrawn p r desired announced e)
  have "P (snd (an r e))" using 2(3,5) by (simp add: keeps_def)
  with 2 all_routes_keeps [OF 2(3)] all_routes_keeps [OF 2(4)] show ?case by (auto split: prod.split option.split)
qed simp

lemma applyDelta_keeps:
  assumes "keeps P an" "keeps P wd" "P (ct_engine c)" "applyDelta an wd desired c = (x, c')"
  shows "P (ct_engine c')"
proof -
  obtain y withdrawn e where w: "withdraw_stale an wd desired (ct_active c) [] (ct_engine c) = (y, withdrawn, e)"
    by (rule prod_cases3)
  obtain z e' where a: "announce_new an wd (ct_active c) withdrawn desired [] e = (z, e')" by fastforce
  have "P e" using withdraw_stale_keeps [OF assms(1-3), of desired "ct_active c" "[]"] w by simp
  moreover from announce_new_keeps [OF assms(1,2) this, of "ct_active c" withdrawn desired "[]"] a have "P e'" by simp
  ultimately show ?thesis using assms(4) w a by (auto simp: applyDelta_def split: option.splits)
qed

text \<open>Every route of a table is the one of its prefix.\<close>

definition own_routes :: "addr \<Rightarrow> addr \<Rightarrow> (prefix, route) gomap \<Rightarrow> bool" where
  "own_routes nh4 nh6 m = (wf_map m \<and> (\<forall>p r. lookup m p = Some r \<longrightarrow> r = route_for nh4 nh6 p))"

lemma own_routes_Nil [simp]: "own_routes nh4 nh6 []"
  by (simp add: own_routes_def)

lemma own_routes_update: "own_routes nh4 nh6 m \<Longrightarrow> own_routes nh4 nh6 (AList.update p (route_for nh4 nh6 p) m)"
  by (simp add: own_routes_def wf_map_update)

lemma own_routes_delete: "own_routes nh4 nh6 m \<Longrightarrow> own_routes nh4 nh6 (AList.delete p m)"
  by (simp add: own_routes_def wf_map_delete)

lemma effectiveRoutes_own [simp]: "own_routes nh4 nh6 (effectiveRoutes bl wl es now nh4 nh6)"
  by (simp add: own_routes_def effectiveRoutes_lookup)

lemma routes_own: "own_routes (ct_nextHopV4 c) (ct_nextHopV6 c) (routes env now c)"
  by (simp add: routes_def Let_def split: option.split)

lemma applyDelta_own:
  "own_routes nh4 nh6 (ct_active c) \<Longrightarrow> own_routes nh4 nh6 desired \<Longrightarrow> applyDelta an wd desired c = (x, c') \<Longrightarrow>
   own_routes nh4 nh6 (ct_active c')"
  by (auto simp: applyDelta_def split: prod.splits option.splits)

section \<open>The controller\<close>

text \<open>What a controller is made with: the configuration of its engine and the two next hops.\<close>

type_synonym ctl_setup = "config \<times> addr \<times> addr"

definition typed_controller :: "ctl_setup \<Rightarrow> ('g, 'n, 'a) engine controller \<Rightarrow> bool" where
  "typed_controller conf c = (store_inv (ct_store c) \<and>
     own_routes (ct_nextHopV4 c) (ct_nextHopV6 c) (ct_active c) \<and> (ct_nextHopV4 c, ct_nextHopV6 c) = snd conf \<and>
     engine_inv (ct_engine c) \<and> eng_config (ct_engine c) = fst conf)"

definition typed_engine :: "ctl_setup \<Rightarrow> ('g, 'n, 'a) engine \<Rightarrow> bool" where
  "typed_engine conf e = (engine_inv e \<and> eng_config e = fst conf)"

lemma typed_engine_step: "engine_step e e' \<Longrightarrow> typed_engine conf e \<Longrightarrow> typed_engine conf e'"
  by (simp add: typed_engine_def engine_inv_step engine_config_step)

lemma typed_engine_calls [simp]:
  "typed_engine conf e \<Longrightarrow> typed_engine conf (snd (Announce r e))"
  "typed_engine conf e \<Longrightarrow> typed_engine conf (snd (Withdraw r e))"
  "typed_engine conf e \<Longrightarrow> typed_engine conf (snd (Start e))"
  "typed_engine conf e \<Longrightarrow> typed_engine conf (snd (Stop e))"
  "typed_engine conf e \<Longrightarrow> typed_engine conf (onPeerUpdate ev e)"
  by (auto intro: typed_engine_step engine_step.intros prod.collapse [symmetric])

lemma typed_engine_ops: "keeps (typed_engine conf) Announce" "keeps (typed_engine conf) Withdraw"
  by (simp_all add: keeps_def)

lemma typed_controller_iff: "typed_controller conf c \<longleftrightarrow>
    store_inv (ct_store c) \<and> own_routes (ct_nextHopV4 c) (ct_nextHopV6 c) (ct_active c) \<and>
    (ct_nextHopV4 c, ct_nextHopV6 c) = snd conf \<and> typed_engine conf (ct_engine c)"
  by (simp add: typed_controller_def typed_engine_def)

lemma applyDelta_typed:
  assumes "typed_controller conf c" "own_routes (ct_nextHopV4 c) (ct_nextHopV6 c) desired"
    and "applyDelta Announce Withdraw desired c = (x, c')"
  shows "typed_controller conf c'"
  using assms(1) applyDelta_frame(1,5,6) [OF assms(3)] applyDelta_own [OF _ assms(2,3)]
    applyDelta_keeps [OF typed_engine_ops _ assms(3)]
  by (simp add: typed_controller_iff)

lemma publish_mutation_typed [simp]: "typed_controller conf (publish_mutation m c) = typed_controller conf c"
  by (simp add: typed_controller_def publish_mutation_def)

lemma typed_unrelated [simp]:
  "typed_controller conf (c\<lparr>ct_published := ms\<rparr>) = typed_controller conf c"
  "typed_controller conf (c\<lparr>ct_wake := b\<rparr>) = typed_controller conf c"
  "typed_controller conf (c\<lparr>ct_publish := b\<rparr>) = typed_controller conf c"
  "typed_controller conf (c\<lparr>ct_disk := d\<rparr>) = typed_controller conf c"
  "typed_controller conf (c\<lparr>ct_sql := q\<rparr>) = typed_controller conf c"
  "typed_controller conf (c\<lparr>ct_sql := q, ct_disk := d\<rparr>) = typed_controller conf c"
  by (simp_all add: typed_controller_def)

lemma persist_mutation_typed:
  assumes "parse_canonical (pm_Prefix m) = Some p" "policyList (pm_List m) = Some list"
    and "propose m p list s = Some y" "persist_mutation env m p s d = (None, s', d')" "ce_stamp env \<noteq> 0" "store_inv s"
  shows "store_inv s'"
proof -
  obtain w where "persist_mutation env m p s d =
     result_error w (exec_command (ce_io env) (ce_stamp env) (mutation_command m p) s d)"
    using persist_mutation_exec [OF assms(1-3)] by blast
  with assms(4) obtain b where ex: "exec_command (ce_io env) (ce_stamp env) (mutation_command m p) s d = (Inr b, s', d')"
    by (auto simp: result_error_def split: prod.splits sum.splits)
  have "canonical p" using parse_canonical_Some [OF assms(1)] by blast
  from exec_command_inv [OF assms(6) mutation_command_wf [OF this] assms(5) ex] show ?thesis .
qed

lemma applyLocked_typed:
  assumes "typed_controller conf c" "ce_stamp env \<noteq> 0" "applyLocked Announce Withdraw env m c = (x, c')"
  shows "typed_controller conf c'"
  using assms(3)
proof (cases rule: applyLocked_cases)
  case (delta p list bl wl y)
  from applyDelta_typed [OF assms(1) _ delta(5)] show ?thesis by simp
next
  case (persist p list bl wl e s d c1)
  have c1: "typed_controller conf c1" using applyDelta_typed [OF assms(1) _ persist(4)] by simp
  have "s = ct_store c1"
    using persist_mutation_error [OF persist(1,2) _ persist(5)] persist(3) applyDelta_frame(1) [OF persist(4)] by simp
  with c1 have "typed_controller conf (c1\<lparr>ct_store := s, ct_disk := d\<rparr>)" by (simp add: typed_controller_def)
  moreover have "own_routes (ct_nextHopV4 c1) (ct_nextHopV6 c1) (routes env (ce_now env) c)"
    using routes_own [of c env "ce_now env"] applyDelta_frame(5,6) [OF persist(4)] by simp
  ultimately show ?thesis
    using applyDelta_typed [of conf "c1\<lparr>ct_store := s, ct_disk := d\<rparr>" "routes env (ce_now env) c"] persist(7)
    by (cases "applyDelta Announce Withdraw (routes env (ce_now env) c) (c1\<lparr>ct_store := s, ct_disk := d\<rparr>)") simp
next
  case (commit p list bl wl s d c1)
  have c1: "typed_controller conf c1" using applyDelta_typed [OF assms(1) _ commit(4)] by simp
  have "ct_store c1 = ct_store c" using applyDelta_frame(1) [OF commit(4)] .
  then have "store_inv s" using persist_mutation_typed [OF commit(1,2) _ commit(5) assms(2)] commit(3) c1
    by (simp add: typed_controller_def)
  with c1 have "typed_controller conf (c1\<lparr>ct_store := s, ct_disk := d\<rparr>)" by (simp add: typed_controller_def)
  with commit(7) show ?thesis by simp
qed (use assms(1) in simp_all)

lemma Apply_typed:
  assumes "typed_controller conf c" "ce_stamp env \<noteq> 0" "Apply Announce Withdraw env m c = (x, c')"
  shows "typed_controller conf c'"
proof (cases "ct_dryRun c \<or> parse_canonical (pm_Prefix m) = None \<or> ct_sql c = None")
  case True
  with assms(3) have "c' = c \<or> applyLocked Announce Withdraw env m c = (x, c')" by (auto simp: Apply_def split: if_splits)
  with applyLocked_typed [OF assms(1,2)] assms(1) show ?thesis by blast
next
  case False
  have "typed_controller conf c1"
    if "applyDelta Announce Withdraw (routes env n (c\<lparr>ct_sql := q\<rparr>)) (c\<lparr>ct_sql := q\<rparr>) = (y, c1)" for n q y c1
    using that assms(1) by (intro applyDelta_typed [OF _ routes_own that]) simp
  with False assms(1,3) show ?thesis
    by (auto simp: Apply_def Let_def split: if_splits option.splits prod.splits)
qed

lemma batch_remove_typed: "typed_controller conf c \<Longrightarrow> typed_controller conf (batch_remove Withdraw list raws c)"
proof (induction raws arbitrary: c)
  case (Cons raw raws)
  have "typed_controller conf (c\<lparr>ct_engine := snd (Withdraw r (ct_engine c)), ct_active := AList.delete p (ct_active c)\<rparr>)" for r p
    using Cons.prems by (simp add: typed_controller_iff own_routes_delete)
  with Cons show ?case by (auto split: option.split)
qed simp

lemma batch_add_typed: "typed_controller conf c \<Longrightarrow> typed_controller conf (batch_add Announce list raws c)"
proof (induction raws arbitrary: c)
  case (Cons raw raws)
  have "typed_controller conf (c\<lparr>ct_engine := e\<rparr>)"
    "typed_controller conf (c\<lparr>ct_engine := e,
       ct_active := AList.update p (route_for (ct_nextHopV4 c) (ct_nextHopV6 c) p) (ct_active c)\<rparr>)"
    if "Announce r (ct_engine c) = (x, e)" for r x e p
  proof -
    have "typed_engine conf e" using typed_engine_calls(1) [of conf "ct_engine c" r] Cons.prems that
      by (simp add: typed_controller_iff)
    then show "typed_controller conf (c\<lparr>ct_engine := e\<rparr>)"
      "typed_controller conf (c\<lparr>ct_engine := e,
         ct_active := AList.update p (route_for (ct_nextHopV4 c) (ct_nextHopV6 c) p) (ct_active c)\<rparr>)"
      using Cons.prems by (simp_all add: typed_controller_iff own_routes_update)
  qed
  with Cons show ?case by (auto simp: Let_def split: option.split prod.split)
qed simp

lemma ApplyBatch_typed:
  "typed_controller conf c \<Longrightarrow> ApplyBatch Announce Withdraw list a r c = (x, c') \<Longrightarrow> typed_controller conf c'"
  by (auto simp: ApplyBatch_def batch_add_typed batch_remove_typed split: if_splits)

lemma expire_from_typed:
  "\<forall>n. ce_stamp (envs n) \<noteq> 0 \<Longrightarrow> typed_controller conf c \<Longrightarrow>
   expire_from Announce Withdraw envs now i es c = (x, c') \<Longrightarrow> typed_controller conf c'"
proof (induction es arbitrary: i c)
  case (Cons pt es)
  obtain p t where pt: "pt = (p, t)" by fastforce
  let ?m = "\<lparr>pm_Action = ''remove'', pm_List = ''blocklist'', pm_Prefix = prefix_String p, pm_ExpiresAt = None\<rparr>"
  obtain y c1 where a: "applyLocked Announce Withdraw (envs i) ?m c = (y, c1)" by fastforce
  from applyLocked_typed [OF Cons.prems(2) _ this] Cons.prems(1) have "typed_controller conf c1" by blast
  with Cons a pt show ?case by (auto split: if_splits option.splits)
qed simp

lemma Reconcile_typed:
  "typed_controller conf c \<Longrightarrow> Reconcile Announce Withdraw env now c = (x, c') \<Longrightarrow> typed_controller conf c'"
  by (auto simp: Reconcile_def intro: applyDelta_typed routes_own split: if_splits)

section \<open>The server\<close>

text \<open>Clocks read after 1 January of year 1: the zero \<open>time.Time\<close> is never the time of a change.\<close>

definition clock_ok :: "bk_env \<Rightarrow> bool" where
  "clock_ok E = (\<forall>n. ce_stamp (bv_ctl E n) \<noteq> 0)"

fun clocks_ok :: "event \<Rightarrow> bool" where
  "clocks_ok (HTTPRequest H E r) = clock_ok E"
| "clocks_ok (ExpiryRound envs now) = (\<forall>n. ce_stamp (envs n) \<noteq> 0)"
| "clocks_ok (SQLTick Es now) = (\<forall>n. clock_ok (Es n))"
| "clocks_ok (BackgroundSync E) = clock_ok E"
| "clocks_ok _ = True"

definition typed_server :: "ctl_setup \<Rightarrow> ('g, 'n, 'a) engine server \<Rightarrow> bool" where
  "typed_server conf s = (ct_published (srv_controller s) = [] \<and> typed_controller conf (srv_controller s))"

lemma with_controller_typed:
  assumes "\<And>x c. f (srv_controller s) = (x, c) \<Longrightarrow> typed_controller conf c"
  shows "typed_server conf (snd (with_controller f s))"
proof -
  obtain x c where f: "f (srv_controller s) = (x, c)" by fastforce
  with assms show ?thesis by (simp add: with_controller_fields [of f s x c, OF f] typed_server_def)
qed

interpretation typed: server_laws "bgp_ops msg" M E
    "\<lambda>s. ct_published (srv_controller s) = [] \<and> (clock_ok E \<longrightarrow> typed_controller conf (srv_controller s))"
  for msg M E conf
proof
  fix s :: "('a, 'b, 'c) engine server" and m n
  let ?f = "Apply (eo_announce (bgp_ops msg)) (eo_withdraw (bgp_ops msg)) (bv_ctl E n) m"
  assume s: "ct_published (srv_controller s) = [] \<and> (clock_ok E \<longrightarrow> typed_controller conf (srv_controller s))"
  obtain x c where f: "?f (srv_controller s) = (x, c)" by fastforce
  from s Apply_typed [of conf "srv_controller s" "bv_ctl E n" m x c] f
  show "ct_published (srv_controller (snd (with_controller ?f s))) = [] \<and>
    (clock_ok E \<longrightarrow> typed_controller conf (srv_controller (snd (with_controller ?f s))))"
    unfolding with_controller_fields [of ?f s x c, OF f] by (auto simp: clock_ok_def bgp_ops_def)
next
  fix s :: "('a, 'b, 'c) engine server" and list a r x c
  assume s: "ct_published (srv_controller s) = [] \<and> (clock_ok E \<longrightarrow> typed_controller conf (srv_controller s))"
    and b: "ApplyBatch (eo_announce (bgp_ops msg)) (eo_withdraw (bgp_ops msg)) list a r (srv_controller s) = (x, c)"
  from s ApplyBatch_frame(4) [OF b] ApplyBatch_typed [of conf "srv_controller s" list a r x c] b
  show "ct_published (srv_controller (s\<lparr>srv_controller := c\<rparr>)) = [] \<and>
    (clock_ok E \<longrightarrow> typed_controller conf (srv_controller (s\<lparr>srv_controller := c\<rparr>)))"
    by (simp add: bgp_ops_def)
qed (simp_all add: with_db_def)

text \<open>Every event of a run.\<close>

lemma serve_event_typed:
  assumes "clocks_ok ev" "typed_server conf s"
  shows "typed_server conf (serve_event P ev s)"
proof (cases ev)
  case (HTTPRequest H E r)
  from typed.ServeHTTP_inv [of s E conf H _ "pr_engineText P"] assms HTTPRequest show ?thesis
    by (simp add: typed_server_def program_ops_def)
next
  case (PeerUpdate pe)
  with assms(2) show ?thesis by (simp add: typed_server_def typed_controller_iff)
next
  case (ExpiryRound envs now)
  then have "\<forall>n. ce_stamp (envs n) \<noteq> 0" using assms(1) by simp
  then have "typed_server conf (snd (with_controller (applyExpired Announce Withdraw envs now) s))"
    using assms(2) expire_from_typed by (fastforce simp: applyExpired_def typed_server_def intro!: with_controller_typed)
  with ExpiryRound assms(2) show ?thesis by simp
next
  case (FeedPass Es now)
  from feed_pass_controller [of "\<lambda>c. ct_published c = [] \<and> typed_controller conf c" s "program_ops P" "pr_messages P" Es now]
    assms(2) ApplyBatch_frame(4) ApplyBatch_typed FeedPass
  show ?thesis by (fastforce simp: typed_server_def program_ops_def bgp_ops_def)
next
  case (SQLTick Es now)
  have "typed_server conf (snd (backend_SyncFeed (program_ops P) (pr_messages P) (Es n) fid t))"
    if "typed_server conf t" for n fid t
    using typed.sync_step [of t "Es n" conf "pr_engineText P"] assms(1) SQLTick that
    by (simp add: typed_server_def program_ops_def)
  from syncDue_keeps [of "typed_server conf" s, OF assms(2) this] SQLTick show ?thesis by simp
next
  case (BackgroundSync E)
  have "typed_server conf (snd (backend_SyncFeed (program_ops P) (pr_messages P) E fid (s\<lparr>srv_jobs := jobs\<rparr>)))" for fid jobs
    using typed.sync_step [of "s\<lparr>srv_jobs := jobs\<rparr>" E conf "pr_engineText P"] assms BackgroundSync
    by (simp add: typed_server_def program_ops_def)
  with BackgroundSync assms(2) show ?thesis by (simp split: list.split)
qed

lemma with_engine_typed: "typed_server conf s \<Longrightarrow> typed_engine conf e \<Longrightarrow> typed_server conf (with_engine e s)"
  by (simp add: typed_server_def typed_controller_iff with_engine_def)

lemma typed_server_engine: "typed_server conf s \<Longrightarrow> typed_engine conf (ct_engine (srv_controller s))"
  by (simp add: typed_server_def typed_controller_iff)

lemma typed_run:
  assumes "typed_server conf s" "\<forall>ev\<in>set evs. clocks_ok ev"
  shows "typed_server conf (snd (server_Run P R evs s))"
proof (rule server_Run_keeps [where I = "typed_server conf"])
  show "typed_server conf (with_engine e s)" if "Start (ct_engine (srv_controller s)) = (x, e)" for x e
    using with_engine_typed [OF assms(1)] typed_engine_calls(3) [OF typed_server_engine [OF assms(1)]] that by simp
  show "typed_server conf (t\<lparr>srv_controller := (srv_controller t)\<lparr>ct_publish := True\<rparr>\<rparr>)" if "typed_server conf t" for t
    using that by (simp add: typed_server_def)
  show "typed_server conf (snd (with_controller (Reconcile Announce Withdraw (rn_reconcile R) (rn_now R)) t))"
    if "typed_server conf t" for t
    using that by (intro with_controller_typed) (auto simp: typed_server_def intro: Reconcile_typed)
  show "typed_server conf (serve_event P ev t)" if "ev \<in> set evs" "typed_server conf t" for ev t
    using serve_event_typed that assms(2) by blast
  show "typed_server conf (with_engine (snd (Stop (ct_engine (srv_controller t)))) t)" if "typed_server conf t" for t
    by (intro with_engine_typed that typed_engine_calls typed_server_engine)
qed

text \<open>The next hops of a server: the router identifier stands in for a missing IPv4 one.\<close>

definition next_hops :: "settings \<Rightarrow> addr \<times> addr" where
  "next_hops c =
     (if addr_IsValid (c_RTBHNextHopV4 c) then c_RTBHNextHopV4 c else c_RouterID c, c_RTBHNextHopV6 c)"

lemma NewServer_typed:
  assumes "NewServer W c = Inr s" "\<And>file st. sw_policyDisk W file = Some (Document st) \<Longrightarrow> wf_document st"
  shows "\<exists>host port. typed_server (engine_config c host port, next_hops c) s"
  using assms(1)
proof (rule NewServer_Inr)
  fix host port eng st c' sql cursor m
  assume e: "engine_New (sw_gobgp W) (sw_bgp W) (engine_config c host port) = Inr eng"
    and o: "open_policy W c = Inr (st, c')" and s: "s = make_server W c' eng st sql cursor m"
  have "store_inv st"
    using o Open_inv [OF _ assms(2)] store_inv_New by (auto simp: open_policy_def split: if_splits sum.splits)
  moreover have "eng_config eng = engine_config c host port" using e by (auto simp: engine_New_def split: option.splits)
  moreover have "next_hops c' = next_hops c"
    using o by (auto simp: open_policy_def next_hops_def split: if_splits sum.splits)
  moreover have "(ct_nextHopV4 (srv_controller s), ct_nextHopV6 (srv_controller s)) = next_hops c'"
    by (simp add: s make_server_def next_hops_def newPolicyController_def Let_def case_prod_beta)
  ultimately have "typed_server (engine_config c host port, next_hops c) s"
    using s engine_inv_New [OF e] by (simp add: typed_server_def typed_controller_def)
  then show ?thesis by blast
qed

section \<open>Properties\<close>

text \<open>C9: the data of a server stays well formed. Whatever a new server is asked and meets, after any run
  the lists of its store are canonical, distinct and agree with the expiries and the audit log; every
  route it announces is listed under its own prefix and carries the next hop that the settings name
  for its family and the BLACKHOLE community alone; and the BGP sessions it has admitted are at most
  \<open>MaxSessions\<close> of the settings, each with an allowed ASN when ASNs are restricted. The policy file
  must hold prefixes as Go represents them and no clock may read the zero time.\<close>

theorem server_well_formed:
  assumes "NewServer W c = Inr s" and "server_Run P R evs s = (errs, s')"
    and "\<forall>name st. sw_policyDisk W name = Some (Document st) \<longrightarrow> wf_document st"
    and "\<forall>ev\<in>set evs. clocks_ok ev"
  shows "store_inv (ct_store (srv_controller s')) \<and>
    (\<forall>(p, r)\<in>set (ct_active (srv_controller s')).
       rt_Prefix r = p \<and> rt_Communities r = [BlackholeCommunity] \<and>
       rt_NextHop r = (if Is6 (pfx_addr p) then c_RTBHNextHopV6 c
         else if addr_IsValid (c_RTBHNextHopV4 c) then c_RTBHNextHopV4 c else c_RouterID c)) \<and>
    session_count (eng_policy (ct_engine (srv_controller s'))) \<le> c_MaxSessions c \<and>
    (c_AllowedASNs c \<noteq> [] \<longrightarrow>
       (\<forall>(a, n)\<in>set (sp_peers (eng_policy (ct_engine (srv_controller s')))). n \<in> set (c_AllowedASNs c)))"
proof -
  let ?c = "srv_controller s'"
  obtain host port where "typed_server (engine_config c host port, next_hops c) s"
    using NewServer_typed [OF assms(1)] assms(3) by blast
  from typed_run [OF this assms(4), of P R] assms(2)
  have t: "typed_controller (engine_config c host port, next_hops c) ?c" by (simp add: typed_server_def)
  then have "engine_inv (ct_engine ?c)" "eng_config (ct_engine ?c) = engine_config c host port"
    by (simp_all add: typed_controller_def)
  note limits = engine_inv_limits [OF this(1), unfolded this(2)]
  have hops: "ct_nextHopV6 ?c = c_RTBHNextHopV6 c"
      "ct_nextHopV4 ?c = (if addr_IsValid (c_RTBHNextHopV4 c) then c_RTBHNextHopV4 c else c_RouterID c)"
    using t by (simp_all add: typed_controller_def next_hops_def)
  have "r = route_for (ct_nextHopV4 ?c) (ct_nextHopV6 ?c) p" if "(p, r) \<in> set (ct_active ?c)" for p r
    using t that by (simp add: typed_controller_def own_routes_def)
  then have "\<forall>(p, r)\<in>set (ct_active ?c). r = route_for (ct_nextHopV4 ?c) (ct_nextHopV6 ?c) p" by blast
  then show ?thesis
    using limits t unfolding hops by (auto simp: typed_controller_def engine_config_def route_for_def)
qed

theorem server_well_formed_witness:
  "\<exists>s errs s'. NewServer empty_world dsn_only = Inr s \<and>
     server_Run sample_program quiet_run
       [PeerUpdate \<lparr>pe_address = Addr4 2, pe_asn = 65001, pe_established = True\<rparr>, ExpiryRound (\<lambda>_. sample_env) 7] s
     = (errs, s') \<and> store_inv (ct_store (srv_controller s')) \<and>
     session_count (eng_policy (ct_engine (srv_controller s'))) \<le> c_MaxSessions dsn_only"
proof -
  obtain s where s: "NewServer empty_world dsn_only = Inr s" using dsn_server by blast
  let ?evs = "[PeerUpdate \<lparr>pe_address = Addr4 2, pe_asn = 65001, pe_established = True\<rparr>, ExpiryRound (\<lambda>_. sample_env) 7]"
  obtain errs s' where r: "server_Run sample_program quiet_run ?evs s = (errs, s')" by fastforce
  have "\<forall>name st. sw_policyDisk empty_world name = Some (Document st) \<longrightarrow> wf_document st"
    by (simp add: empty_world_def)
  moreover have "\<forall>ev\<in>set ?evs. clocks_ok ev" by (simp add: sample_env_def)
  ultimately show ?thesis using server_well_formed [OF s r] s r by blast
qed

end
