(* ===== verification/Sync_System.thy ===== *)
theory Sync_System
  imports Policy_Sync
begin

text \<open>
  Server and agent together. A system is a server with its queue, an agent with its store and its
  session, whether their connection is usable, and, as a ghost, everything published so far. Its
  steps are a publication, a reconnection of both ends, and one round of \<open>handleSync\<close> against
  \<open>consume\<close> in which each direction delivers any part of the bytes written, every write may fail,
  the agent's store and both cursor files may fail. The invariant says that the agent's policy is the
  published changes applied in order, up to the one in flight.
\<close>

section \<open>What applying a change does to the agent's policy\<close>

definition apply_change :: "policy_change \<Rightarrow> policy \<Rightarrow> policy" where
  "apply_change ch P = (case change_command ch of None \<Rightarrow> P | Some k \<Rightarrow> apply_command k P)"

definition agent_store :: "agent \<Rightarrow> store option" where
  "agent_store a =
     (case ag_adapter a of
        StoreAdapter sa \<Rightarrow> if ad_dryRun sa then None else ad_store sa
      | DryRunAdapter _ \<Rightarrow> None)"

lemma apply_change_idem: "apply_change ch (apply_change ch P) = apply_change ch P"
  by (simp add: apply_change_def apply_command_idem split: option.split)

lemma adapter_Apply_view:
  assumes "agent_store a = Some s" "store_inv s" "now \<noteq> 0"
    and "adapter_Apply io now ch (ag_adapter a) (ag_policyDisk a) = (e, ag_adapter a', ag_policyDisk a')"
  shows "\<exists>s'. agent_store a' = Some s' \<and> store_inv s' \<and>
     abs_store s' = (if e = None then apply_change ch (abs_store s) else abs_store s)"
proof -
  obtain sa where sa: "ag_adapter a = StoreAdapter sa" "\<not> ad_dryRun sa" "ad_store sa = Some s"
    using assms(1) by (auto simp: agent_store_def split: policy_adapter.splits if_splits)
  obtain sa' where ap: "store_adapter_Apply io now ch sa (ag_policyDisk a) = (e, sa', ag_policyDisk a')"
      "ag_adapter a' = StoreAdapter sa'"
    using assms(4) sa(1) by (auto simp: adapter_Apply_def split: prod.splits)
  show ?thesis
  proof (cases "change_command ch")
    case None
    from store_adapter_Apply_reject [OF sa(3,2) None, of io now "ag_policyDisk a"] ap sa assms(2)
    show ?thesis by (auto simp: agent_store_def)
  next
    case (Some k)
    obtain x s' d' where ex: "exec_command io now k s (ag_policyDisk a) = (x, s', d')"
      by (metis prod_cases3)
    from store_adapter_Apply_command [OF sa(3,2) Some ex] ap
    have sa': "sa' = sa\<lparr>ad_store := Some s'\<rparr>" and e: "e = None \<longleftrightarrow> (\<exists>b. x = Inr b)" by auto
    have view: "agent_store a' = Some s'" using ap(2) sa' sa(2) by (simp add: agent_store_def)
    show ?thesis
    proof (cases x)
      case (Inl err)
      with ex have "s' = s" by (simp add: exec_command_error)
      with view e Inl assms(2) show ?thesis by auto
    next
      case (Inr b)
      with ex have "exec_command io now k s (ag_policyDisk a) = (Inr b, s', d')" by simp
      from exec_command_inv [OF assms(2) change_command_wf [OF Some] assms(3) this]
        exec_command_abs [OF assms(2) this] view e Inr Some
      show ?thesis by (simp add: apply_change_def)
    qed
  qed
qed

section \<open>The system and its steps\<close>

record system =
  sy_server :: sync_server
  sy_agent :: agent
  sy_session :: session
  sy_up :: bool
  sy_published :: "policy_change list"

record sync_params =
  sp_codec :: json_codec
  sp_serverFile :: string
  sp_agentFile :: string
  sp_serverConfig :: rpc_config
  sp_agentConfig :: rpc_config

definition fresh_conn :: "byte list \<Rightarrow> nat option \<Rightarrow> conn" where
  "fresh_conn bs room = \<lparr>cn_in = bs, cn_out = [], cn_room = room\<rparr>"

definition with_conn :: "conn \<Rightarrow> sync_server \<Rightarrow> sync_server" where
  "with_conn c sv = sv\<lparr>sv_session := (sv_session sv)\<lparr>ss_conn := c\<rparr>\<rparr>"

text \<open>A round: the server sends and waits, the agent consumes the part that arrives, the server
  goes on with the part of the reply that arrives.\<close>

inductive sync_step :: "sync_params \<Rightarrow> system \<Rightarrow> system \<Rightarrow> bool" for P where
  step_publish:
    "q = sv_queue (sy_server y) \<Longrightarrow>
     sync_step P y (y\<lparr>sy_server := (sy_server y)\<lparr>sv_queue := publish m q\<rparr>,
       sy_published := sy_published y @ [queue_change (pq_nextID q + 1) m]\<rparr>)"
| step_connect:
    "NewSession (Some c) (sp_serverConfig P)
       \<lparr>rs_AppliedCursor = 0, rs_PeerCursor = sv_cursor (sy_server y), rs_NextSequence = 0\<rparr> = Inr s \<Longrightarrow>
     NewSession (Some c') (sp_agentConfig P)
       \<lparr>rs_AppliedCursor = ag_cursor (sy_agent y), rs_PeerCursor = 0, rs_NextSequence = 0\<rparr> = Inr s' \<Longrightarrow>
     sync_step P y (y\<lparr>sy_server := (sy_server y)\<lparr>sv_session := s\<rparr>, sy_session := s', sy_up := True\<rparr>)"
| step_round:
    "sy_up y \<Longrightarrow>
     snd (sync_round (sp_codec P) (sp_serverFile P) cio ms
       (with_conn (fresh_conn [] room) (sy_server y))) = waiting \<Longrightarrow>
     (\<And>n. ae_now (env n) \<noteq> 0) \<Longrightarrow>
     consume (sp_codec P) (sp_agentFile P) False env
       ((sy_session y)\<lparr>ss_conn := fresh_conn (take k (cn_out (ss_conn (sv_session waiting)))) room'\<rparr>) (sy_agent y)
       = (e, s', a') \<Longrightarrow>
     sync_round (sp_codec P) (sp_serverFile P) cio ms
       (with_conn (fresh_conn (take k' (cn_out (ss_conn s'))) room) (sy_server y)) = (r, sv') \<Longrightarrow>
     sync_step P y (y\<lparr>sy_server := sv', sy_agent := a', sy_session := s', sy_up := goes_on r,
       sy_published := sy_published y @ dashboard_queue.items ms (sv_queue (sy_server y))\<rparr>)"

inductive sync_reachable :: "sync_params \<Rightarrow> system \<Rightarrow> system \<Rightarrow> bool" for P y0 where
  sync_init: "sync_reachable P y0 y0"
| sync_more: "sync_reachable P y0 y \<Longrightarrow> sync_step P y y' \<Longrightarrow> sync_reachable P y0 y'"

definition params_ok :: "sync_params \<Rightarrow> bool" where
  "params_ok P = (codec_ok (sp_codec P) \<and> MaxMessageBytes (sp_serverConfig P) < 2 ^ 32 \<and>
     MaxMessageBytes (sp_agentConfig P) < 2 ^ 32)"

text \<open>The policy after the first \<open>n\<close> of the published changes.\<close>

definition policy_after :: "policy \<Rightarrow> policy_change list \<Rightarrow> nat \<Rightarrow> policy" where
  "policy_after P0 chs n = fold apply_change (take n chs) P0"

lemma policy_after_Suc: "n < length chs \<Longrightarrow> policy_after P0 chs (Suc n) = apply_change (chs ! n) (policy_after P0 chs n)"
  by (simp add: policy_after_def take_Suc_conv_app_nth)

lemma policy_after_append: "n \<le> length chs \<Longrightarrow> policy_after P0 (chs @ ys) n = policy_after P0 chs n"
  by (simp add: policy_after_def)

text \<open>The agent is level with the server, or ahead of it by the change in flight, whose cursor it
  may or may not have saved.\<close>

definition agent_level :: "policy \<Rightarrow> policy_change list \<Rightarrow> nat \<Rightarrow> 64 word \<Rightarrow> agent \<Rightarrow> bool" where
  "agent_level P0 chs n c a =
     (\<exists>s. agent_store a = Some s \<and> store_inv s \<and>
        (abs_store s = policy_after P0 chs n \<and> ag_cursor a = c \<or>
         n < length chs \<and> abs_store s = policy_after P0 chs (Suc n) \<and>
           (ag_cursor a = c \<or> ag_cursor a = c + 1 \<and> c + 1 \<noteq> 0)))"

definition sync_inv :: "policy \<Rightarrow> sync_params \<Rightarrow> system \<Rightarrow> bool" where
  "sync_inv P0 P y =
     (\<exists>n \<le> length (sy_published y).
        pq_pending (sv_queue (sy_server y)) = drop n (sy_published y) \<and>
        agent_level P0 (sy_published y) n (sv_cursor (sy_server y)) (sy_agent y) \<and>
        (sy_up y \<longrightarrow>
          ss_next (sv_session (sy_server y)) = sv_cursor (sy_server y) + 1 \<and>
          ss_config (sv_session (sy_server y)) = sp_serverConfig P \<and>
          ss_config (sy_session y) = sp_agentConfig P \<and> ss_applied (sy_session y) = ag_cursor (sy_agent y)))"

lemma agent_level_append:
  "n \<le> length chs \<Longrightarrow> agent_level P0 chs n c a \<Longrightarrow> agent_level P0 (chs @ ys) n c a"
  by (auto simp: agent_level_def policy_after_append)

section \<open>The server's side of a round\<close>

lemma SendPolicy_wire:
  assumes "SendPolicy C ch s = (x, s1)" "cn_out (ss_conn s) = []" "MaxMessageBytes (ss_config s) < 2 ^ 32"
  shows "(cn_out (ss_conn s1) = [] \<or> wire C (policy_message (ss_next s) ch) (cn_out (ss_conn s1))) \<and>
    ss_config s1 = ss_config s \<and> cn_in (ss_conn s1) = cn_in (ss_conn s) \<and>
    (\<forall>n. x = Inr n \<longrightarrow> n = ss_next s \<and> ss_next s1 = ss_next s + 1)"
proof -
  let ?s = "s\<lparr>ss_next := ss_next s + 1, ss_pending := AList.update (ss_next s) () (ss_pending s)\<rparr>"
  obtain e s2 where w: "session_write C (policy_message (ss_next s) ch) ?s = (e, s2)" by fastforce
  have "\<exists>bs. cn_out (ss_conn s2) = bs \<and> (bs = [] \<or> wire C (policy_message (ss_next s) ch) bs)"
    using write_wire [OF w] assms(2,3) by simp
  then show ?thesis
    using assms(1,2) w session_write_frame [OF w] session_write_in [OF w]
    by (auto simp: SendPolicy_def Let_def split: option.splits if_splits)
qed

lemma sync_round_sent:
  assumes "codec_ok C" "MaxMessageBytes (ss_config (sv_session sv)) < 2 ^ 32"
    and "sync_round C f io ms (with_conn (fresh_conn [] room) sv) = (res, sv')"
  shows "cn_out (ss_conn (sv_session sv')) = [] \<or>
    (\<exists>ch rest. pq_pending (sv_queue sv) = ch # rest \<and>
       wire C (policy_message (ss_next (sv_session sv)) ch) (cn_out (ss_conn (sv_session sv'))))"
proof -
  let ?s = "(sv_session sv)\<lparr>ss_conn := fresh_conn [] room\<rparr>"
  have conn: "cn_out (ss_conn ?s) = []" "cn_in (ss_conn ?s) = []" by (simp_all add: fresh_conn_def)
  obtain r q where q: "queue_next False False (sv_queue sv) = (r, q)" by fastforce
  show ?thesis
  proof (cases r)
    case (Next ch)
    with q have rest: "\<exists>rest. pq_pending (sv_queue sv) = ch # rest" by (auto dest: queue_next_Next)
    obtain x s1 where sp: "SendPolicy C ch ?s = (x, s1)" by fastforce
    note w = SendPolicy_wire [OF sp conn(1)]
    have "Receive C s1 = (Inl ReadHeader, s1)" using w conn(2) assms(2) by (intro Receive_empty) simp
    with assms(3) q Next sp have "sv_session sv' = s1"
      by (cases x) (auto simp: sync_round_def with_conn_def Let_def)
    with w rest assms(2) show ?thesis by auto
  qed (use assms(3) q in \<open>auto simp: sync_round_def with_conn_def fresh_conn_def\<close>)
qed

lemma sync_round_outcome:
  assumes "codec_ok C" "MaxMessageBytes (ss_config (sv_session sv)) < 2 ^ 32"
    and "reply = [] \<or> wire C (ack_message c) reply"
    and "sync_round C f io ms (with_conn (fresh_conn reply room) sv) = (res, sv')"
  shows "pq_pending (sv_queue sv') =
      (if res = Committed then tl (pq_pending (sv_queue sv)) else pq_pending (sv_queue sv)) @
        dashboard_queue.items ms (sv_queue sv) \<and>
    (res \<noteq> Committed \<longrightarrow> sv_cursor sv' = sv_cursor sv) \<and>
    (res = Waits \<longrightarrow> ss_next (sv_session sv') = ss_next (sv_session sv) \<and>
       ss_config (sv_session sv') = ss_config (sv_session sv)) \<and>
    (res = Committed \<longrightarrow> pq_pending (sv_queue sv) \<noteq> [] \<and> sv_cursor sv' = c \<and> c \<noteq> 0 \<and> reply \<noteq> [] \<and>
       ss_next (sv_session sv) \<le> c \<and> ss_next (sv_session sv') = ss_next (sv_session sv) + 1 \<and>
       ss_config (sv_session sv') = ss_config (sv_session sv))"
proof -
  let ?s = "(sv_session sv)\<lparr>ss_conn := fresh_conn reply room\<rparr>"
  have conn: "cn_out (ss_conn ?s) = []" "cn_in (ss_conn ?s) = reply" by (simp_all add: fresh_conn_def)
  obtain r q where q: "queue_next False False (sv_queue sv) = (r, q)" by fastforce
  note pending = queue_next_published [OF q]
  show ?thesis
  proof (cases r)
    case (Next ch)
    with q have head: "q = sv_queue sv" "\<exists>rest. pq_pending q = ch # rest" by (auto dest: queue_next_Next)
    then obtain rest where rest: "pq_pending q = ch # rest" by blast
    note commit = dashboard_queue.remove_peeked [OF rest, of ms]
    obtain x s1 where sp: "SendPolicy C ch ?s = (x, s1)" by fastforce
    note w = SendPolicy_wire [OF sp conn(1)]
    obtain y s2 where rc: "Receive C s1 = (y, s2)" by fastforce
    have "cn_in (ss_conn s1) = reply" using w conn(2) assms(2) by simp
    then have "cn_in (ss_conn s1) = [] \<or> wire C (ack_message c) (cn_in (ss_conn s1))" using assms(3) by simp
    note R = Receive_ack [OF assms(1) this rc]
    show ?thesis
    proof (cases "\<exists>m. x = Inr (ss_next (sv_session sv)) \<and> y = Inr m \<and> res = Committed")
      case True
      then obtain m where x: "x = Inr (ss_next (sv_session sv))" and y: "y = Inr m" and res: "res = Committed" by blast
      have m: "m = ack_message c" "c \<noteq> 0" using R y by auto
      have "reply \<noteq> []" using rc y \<open>cn_in (ss_conn s1) = reply\<close> by (auto simp: Receive_empty)
      moreover have "sv_session sv' = s2 \<and> sv_cursor sv' = c \<and> ss_next (sv_session sv) \<le> c \<and>
          sv_queue sv' = queue_commit ch (fold publish ms q)"
        using assms(4) q Next sp rc x y res m
        by (auto simp: sync_round_def with_conn_def Let_def ack_message_def split: if_splits option.splits prod.splits)
      ultimately show ?thesis using w R x m res rest commit head assms(2) by simp
    next
      case False
      then have "res \<noteq> Committed \<and> res \<noteq> Waits \<and> sv_cursor sv' = sv_cursor sv \<and> sv_queue sv' = fold publish ms q"
        using assms(4) q Next sp rc w assms(2)
        by (auto simp: sync_round_def with_conn_def Let_def split: sum.splits if_splits option.splits prod.splits)
      with pending show ?thesis by auto
    qed
  qed (use assms(4) q pending in \<open>auto simp: sync_round_def with_conn_def\<close>)
qed

section \<open>The agent's side of a round\<close>

lemma agent_round:
  assumes "params_ok P" "agent_level P0 chs n c a" "ss_applied s = ag_cursor a" "ss_config s = sp_agentConfig P"
    and "cn_out (ss_conn s) = []" "\<And>k. ae_now (env k) \<noteq> 0"
    and "cn_in (ss_conn s) = [] \<or>
      (\<exists>ch rest. drop n chs = ch # rest \<and> wire (sp_codec P) (policy_message (c + 1) ch) (cn_in (ss_conn s)))"
    and "consume (sp_codec P) f False env s a = (e, s', a')"
  shows "agent_level P0 chs n c a' \<and> ss_applied s' = ag_cursor a' \<and> ss_config s' = sp_agentConfig P \<and>
    (cn_out (ss_conn s') = [] \<or>
     c + 1 \<noteq> 0 \<and> c + 1 \<le> ag_cursor a' \<and> wire (sp_codec P) (ack_message (ag_cursor a')) (cn_out (ss_conn s')))"
proof (cases "cn_in (ss_conn s) = []")
  case True
  with assms show ?thesis by (simp add: consume_empty)
next
  case False
  then obtain ch rest where ch: "drop n chs = ch # rest"
      "wire (sp_codec P) (policy_message (c + 1) ch) (cn_in (ss_conn s))"
    using assms(7) by blast
  have n: "n < length chs" "chs ! n = ch"
    using ch(1) by (metis drop_eq_Nil2 linorder_not_le list.distinct(1), metis hd_drop_conv_nth drop_all
        linorder_not_le list.distinct(1) list.sel(1))
  have ok: "codec_ok (sp_codec P)" "MaxMessageBytes (ss_config s) < 2 ^ 32"
    using assms(1,4) by (simp_all add: params_ok_def)
  note out = consume_outcome [OF ok(1) disjI2 [OF ch(2)] assms(5) ok(2) assms(8)]
  show ?thesis
  proof (cases "a' = a \<and> ss_applied s' = ss_applied s")
    case True
    with out assms(2-4) show ?thesis by auto
  next
    case False
    with out obtain err where ap: "adapter_Apply (ae_io (env (ss_applied s))) (ae_now (env (ss_applied s))) ch
          (ag_adapter a) (ag_policyDisk a) = (err, ag_adapter a', ag_policyDisk a')"
      and w: "c + 1 = ss_applied s + 1" "c + 1 \<noteq> 0"
      and cur: "ag_cursor a' = ag_cursor a \<and> ss_applied s' = ss_applied s \<and> cn_out (ss_conn s') = [] \<or>
        err = None \<and> ag_cursor a' = c + 1 \<and> ss_applied s' = c + 1 \<and>
          (cn_out (ss_conn s') = [] \<or> wire (sp_codec P) (ack_message (c + 1)) (cn_out (ss_conn s')))"
      by auto
    have c: "ag_cursor a = c" using w(1) assms(3) by simp
    obtain st where st: "agent_store a = Some st" "store_inv st"
        "abs_store st = policy_after P0 chs n \<or> abs_store st = policy_after P0 chs (Suc n)"
      using assms(2) by (auto simp: agent_level_def)
    obtain st' where st': "agent_store a' = Some st'" "store_inv st'"
        "abs_store st' = (if err = None then apply_change ch (abs_store st) else abs_store st)"
      using adapter_Apply_view [OF st(1,2) assms(6) ap] by blast
    have again: "apply_change ch (abs_store st) = policy_after P0 chs (Suc n)"
      using st(3) n by (auto simp: policy_after_Suc apply_change_idem)
    have "agent_level P0 chs n c a'"
    proof (cases "err = None")
      case True
      with st' again n(1) w(2) cur c show ?thesis by (auto simp: agent_level_def)
    next
      case False
      with st' st n(1) cur c show ?thesis by (auto simp: agent_level_def)
    qed
    with cur c assms(3) w(2) out show ?thesis using assms(4) by auto
  qed
qed

section \<open>The invariant\<close>

lemma sync_inv_publish:
  assumes "sync_inv P0 P y"
  shows "sync_inv P0 P (y\<lparr>sy_server := (sy_server y)\<lparr>sv_queue := publish m (sv_queue (sy_server y))\<rparr>,
      sy_published := sy_published y @ [queue_change (pq_nextID (sv_queue (sy_server y)) + 1) m]\<rparr>)"
proof -
  obtain n where "n \<le> length (sy_published y)" "pq_pending (sv_queue (sy_server y)) = drop n (sy_published y)"
      "agent_level P0 (sy_published y) n (sv_cursor (sy_server y)) (sy_agent y)"
    using assms by (auto simp: sync_inv_def)
  then show ?thesis
    using assms agent_level_append [of n "sy_published y"] unfolding sync_inv_def
    by (intro exI [of _ n]) (auto simp: dashboard_queue.put_view)
qed

lemma sync_inv_connect:
  assumes "sync_inv P0 P y"
    and "NewSession (Some c) (sp_serverConfig P)
       \<lparr>rs_AppliedCursor = 0, rs_PeerCursor = sv_cursor (sy_server y), rs_NextSequence = 0\<rparr> = Inr s"
    and "NewSession (Some c') (sp_agentConfig P)
       \<lparr>rs_AppliedCursor = ag_cursor (sy_agent y), rs_PeerCursor = 0, rs_NextSequence = 0\<rparr> = Inr s'"
  shows "sync_inv P0 P (y\<lparr>sy_server := (sy_server y)\<lparr>sv_session := s\<rparr>, sy_session := s', sy_up := True\<rparr>)"
proof -
  have "ss_next s = sv_cursor (sy_server y) + 1 \<and> ss_config s = sp_serverConfig P"
    "ss_applied s' = ag_cursor (sy_agent y) \<and> ss_config s' = sp_agentConfig P"
    using assms(2,3) by (auto simp: NewSession_def Let_def split: if_splits)
  with assms(1) show ?thesis unfolding sync_inv_def by simp blast
qed

lemma sync_inv_round:
  assumes "params_ok P" "sync_inv P0 P y" "sy_up y" "\<And>k. ae_now (env k) \<noteq> 0"
    and "snd (sync_round (sp_codec P) (sp_serverFile P) cio ms
       (with_conn (fresh_conn [] room) (sy_server y))) = waiting"
    and "consume (sp_codec P) (sp_agentFile P) False env
       ((sy_session y)\<lparr>ss_conn := fresh_conn (take k (cn_out (ss_conn (sv_session waiting)))) room'\<rparr>) (sy_agent y)
       = (e, s', a')"
    and "sync_round (sp_codec P) (sp_serverFile P) cio ms
       (with_conn (fresh_conn (take k' (cn_out (ss_conn s'))) room) (sy_server y)) = (r, sv')"
  shows "sync_inv P0 P (y\<lparr>sy_server := sv', sy_agent := a', sy_session := s', sy_up := goes_on r,
       sy_published := sy_published y @ dashboard_queue.items ms (sv_queue (sy_server y))\<rparr>)"
proof -
  let ?sv = "sy_server y" and ?chs = "sy_published y" and ?C = "sp_codec P"
  let ?c = "sv_cursor ?sv" and ?new = "dashboard_queue.items ms (sv_queue ?sv)"
  obtain n where n: "n \<le> length ?chs" "pq_pending (sv_queue ?sv) = drop n ?chs"
      "agent_level P0 ?chs n ?c (sy_agent y)"
    and up: "ss_next (sv_session ?sv) = ?c + 1" "ss_config (sv_session ?sv) = sp_serverConfig P"
      "ss_config (sy_session y) = sp_agentConfig P" "ss_applied (sy_session y) = ag_cursor (sy_agent y)"
    using assms(2,3) by (auto simp: sync_inv_def)
  have ok: "codec_ok ?C" "MaxMessageBytes (ss_config (sv_session ?sv)) < 2 ^ 32"
    using assms(1) up by (simp_all add: params_ok_def)
  let ?sent = "cn_out (ss_conn (sv_session waiting))"
  obtain err0 where w: "sync_round ?C (sp_serverFile P) cio ms (with_conn (fresh_conn [] room) ?sv) = (err0, waiting)"
    using assms(5) by (metis prod.collapse)
  from sync_round_sent [OF ok w] n(2) up(1) have sent: "?sent = [] \<or>
      (\<exists>ch rest. drop n ?chs = ch # rest \<and> wire ?C (policy_message (?c + 1) ch) ?sent)" by simp
  let ?s = "(sy_session y)\<lparr>ss_conn := fresh_conn (take k ?sent) room'\<rparr>"
  have "agent_level P0 ?chs n ?c a' \<and> ss_applied s' = ag_cursor a' \<and> ss_config s' = sp_agentConfig P \<and>
    (cn_out (ss_conn s') = [] \<or>
     ?c + 1 \<noteq> 0 \<and> ?c + 1 \<le> ag_cursor a' \<and> wire ?C (ack_message (ag_cursor a')) (cn_out (ss_conn s')))"
  proof (rule agent_round [OF assms(1) n(3) _ _ _ assms(4) _ assms(6)])
    show "cn_in (ss_conn ?s) = [] \<or>
        (\<exists>ch rest. drop n ?chs = ch # rest \<and> wire ?C (policy_message (?c + 1) ch) (cn_in (ss_conn ?s)))"
      using sent by (auto simp: fresh_conn_def intro: wire_take)
  qed (use up in \<open>simp_all add: fresh_conn_def\<close>)
  then have level: "agent_level P0 ?chs n ?c a'" and s': "ss_applied s' = ag_cursor a'" "ss_config s' = sp_agentConfig P"
    and reply: "cn_out (ss_conn s') = [] \<or>
      ?c + 1 \<noteq> 0 \<and> ?c + 1 \<le> ag_cursor a' \<and> wire ?C (ack_message (ag_cursor a')) (cn_out (ss_conn s'))"
    by blast+
  have "take k' (cn_out (ss_conn s')) = [] \<or> wire ?C (ack_message (ag_cursor a')) (take k' (cn_out (ss_conn s')))"
    using reply by (auto intro: wire_take)
  note out = sync_round_outcome [OF ok this assms(7)]
  show ?thesis
  proof (cases "r = Committed")
    case False
    with out n level up s' agent_level_append [OF n(1) level, of ?new] show ?thesis
      unfolding sync_inv_def by (intro exI [of _ n]) (cases r; auto)
  next
    case True
    with out have o: "pq_pending (sv_queue sv') = tl (drop n ?chs) @ ?new" "drop n ?chs \<noteq> []"
        "sv_cursor sv' = ag_cursor a'" "ss_next (sv_session sv') = ?c + 1 + 1"
        "ss_config (sv_session sv') = sp_serverConfig P" "cn_out (ss_conn s') \<noteq> []"
      using n(2) up by auto
    have lt: "n < length ?chs" using o(2) by simp
    have c: "?c + 1 \<noteq> 0" "?c + 1 \<le> ag_cursor a'" using reply o(6) by auto
    have "ag_cursor a' \<noteq> ?c" using c unat_Suc_no_wrap [of ?c] by (auto simp: word_le_nat_alt)
    with level obtain st where st: "agent_store a' = Some st" "store_inv st"
        "abs_store st = policy_after P0 ?chs (Suc n)" "ag_cursor a' = ?c + 1"
      by (auto simp: agent_level_def)
    then have "agent_level P0 ?chs (Suc n) (ag_cursor a') a'" by (simp add: agent_level_def)
    then have "agent_level P0 (?chs @ ?new) (Suc n) (ag_cursor a') a'"
      using lt by (intro agent_level_append) auto
    moreover have "tl (drop n ?chs) @ ?new = drop (Suc n) (?chs @ ?new)" using lt by (simp add: drop_Suc tl_drop)
    ultimately show ?thesis
      using o s' st(4) True lt unfolding sync_inv_def by (intro exI [of _ "Suc n"]) auto
  qed
qed

lemma sync_inv_step:
  assumes "params_ok P" "sync_inv P0 P y" "sync_step P y y'"
  shows "sync_inv P0 P y'"
  using assms(3)
proof cases
  case (step_publish q m)
  with sync_inv_publish [OF assms(2)] show ?thesis by simp
next
  case (step_connect c s c' s')
  with sync_inv_connect [OF assms(2)] show ?thesis by blast
next
  case (step_round cio ms room waiting env k room' e s' a' k' r sv')
  with sync_inv_round [OF assms(1,2) step_round(2)] show ?thesis by blast
qed

lemma sync_inv_reachable:
  assumes "sync_reachable P y0 y" "params_ok P" "sync_inv P0 P y0"
  shows "sync_inv P0 P y"
  using assms by induction (auto intro: sync_inv_step)

end
