(* ===== verification/Sync_Delivery.thy ===== *)
theory Sync_Delivery
  imports Sync_System
begin

text \<open>
  The properties of the synchronisation: what holds in every reachable state of \<open>Sync_System\<close>, what
  one reconnection and one undisturbed round achieve, and what they lose when the server's cursor
  has fallen behind the agent's.
\<close>

section \<open>Undisturbed messages\<close>

text \<open>A message both ends accept.\<close>

definition sendable :: "sync_params \<Rightarrow> message \<Rightarrow> byte list \<Rightarrow> bool" where
  "sendable P m data = (marshal (sp_codec P) m = Some data \<and>
     int (length data) \<le> MaxMessageBytes (sp_serverConfig P) \<and> int (length data) \<le> MaxMessageBytes (sp_agentConfig P))"

definition limits_ok :: "rpc_config \<Rightarrow> bool" where
  "limits_ok cfg = (1 \<le> MaxMessageBytes cfg \<and> 1 \<le> MaxInFlight cfg)"

definition server_session :: "rpc_config \<Rightarrow> 64 word \<Rightarrow> byte list \<Rightarrow> session" where
  "server_session cfg c bs = \<lparr>ss_conn = fresh_conn bs None, ss_config = cfg, ss_next = c + 1, ss_applied = 0,
     ss_peer = c, ss_pending = []\<rparr>"

definition agent_session :: "rpc_config \<Rightarrow> 64 word \<Rightarrow> byte list \<Rightarrow> session" where
  "agent_session cfg c bs = \<lparr>ss_conn = fresh_conn bs None, ss_config = cfg, ss_next = 1, ss_applied = c,
     ss_peer = 0, ss_pending = []\<rparr>"

lemma NewSession_server:
  assumes "limits_ok cfg" "c + 1 \<noteq> 0"
  shows "NewSession (Some (fresh_conn bs None)) cfg
     \<lparr>rs_AppliedCursor = 0, rs_PeerCursor = c, rs_NextSequence = 0\<rparr> = Inr (server_session cfg c bs)"
  using assms unat_Suc_no_wrap [OF assms(2)]
  by (simp add: NewSession_def limits_ok_def server_session_def word_le_nat_alt)

lemma NewSession_agent:
  "limits_ok cfg \<Longrightarrow> NewSession (Some (fresh_conn bs None)) cfg
     \<lparr>rs_AppliedCursor = c, rs_PeerCursor = 0, rs_NextSequence = 0\<rparr> = Inr (agent_session cfg c bs)"
  by (simp add: NewSession_def limits_ok_def agent_session_def)

lemma session_write_ok:
  assumes "marshal C m = Some data" "int (length data) \<le> MaxMessageBytes (ss_config s)" "ss_conn s = fresh_conn bs None"
  shows "session_write C m s = (None, s\<lparr>ss_conn := \<lparr>cn_in = bs, cn_out = frame data, cn_room = None\<rparr>\<rparr>)"
  using assms by (simp add: session_write_def writeFull_def frame_def fresh_conn_def)

lemma read_whole:
  assumes "codec_ok C" "marshal C m = Some data" "int (length data) \<le> MaxMessageBytes (ss_config s)"
    and "MaxMessageBytes (ss_config s) < 2 ^ 32" "cn_in (ss_conn s) = frame data"
  shows "session_read C s = (Inr m, s\<lparr>ss_conn := (ss_conn s)\<lparr>cn_in := []\<rparr>\<rparr>)"
proof -
  have "int (length data) < int (2 ^ 32)" using assms(3,4) by simp
  then have "length data < 2 ^ 32" by (simp only: of_nat_less_iff)
  moreover have "decode C data = OneJSON m" "data \<noteq> []" using assms(1,2) by (auto simp: codec_ok_def)
  ultimately show ?thesis using assms(3,5) by (intro read_frame) auto
qed

text \<open>The server sends the head and takes an ACK of it, or of more.\<close>

lemma sync_round_acked:
  assumes "params_ok P" "limits_ok (sp_serverConfig P)" "sv_session sv = server_session (sp_serverConfig P) c []"
    and "pq_pending (sv_queue sv) = ch # rest" "validatePolicy ch = None"
    and "sendable P (policy_message (c + 1) ch) data" "sendable P (ack_message n) adata" "n \<noteq> 0" "c + 1 \<le> n"
    and "saveCursor cio (sp_serverFile P) n (sv_disk sv) = (None, d)"
  shows "cn_out (ss_conn (sv_session (snd (sync_round (sp_codec P) (sp_serverFile P) cio []
       (with_conn (fresh_conn [] None) sv))))) = frame data \<and>
    (\<exists>s. sync_round (sp_codec P) (sp_serverFile P) cio [] (with_conn (fresh_conn (frame adata) None) sv) =
       (Committed, sv\<lparr>sv_session := s, sv_disk := d, sv_cursor := n, sv_queue := queue_commit ch (sv_queue sv)\<rparr>))"
proof -
  let ?C = "sp_codec P" and ?cfg = "sp_serverConfig P"
  have q: "queue_next False False (sv_queue sv) = (Next ch, sv_queue sv)"
    using assms(4) by (simp add: queue_next_def)
  let ?sent = "\<lambda>bs. (server_session ?cfg c bs)\<lparr>ss_next := c + 1 + 1, ss_pending := [(c + 1, ())],
      ss_conn := \<lparr>cn_in = bs, cn_out = frame data, cn_room = None\<rparr>\<rparr>"
  have send: "SendPolicy ?C ch (server_session ?cfg c bs) = (Inr (c + 1), ?sent bs)" for bs
    using assms(2,5,6) session_write_ok [of ?C "policy_message (c + 1) ch" data]
    by (simp add: SendPolicy_def Let_def limits_ok_def sendable_def server_session_def)
  have conn: "sv_session (with_conn (fresh_conn bs None) sv) = server_session ?cfg c bs" for bs
    using assms(3) by (simp add: with_conn_def server_session_def)
  have queue: "sv_queue (with_conn x sv) = sv_queue sv" "sv_disk (with_conn x sv) = sv_disk sv"
      "(with_conn x sv)\<lparr>sv_queue := sv_queue sv, sv_session := s\<rparr> = sv\<lparr>sv_session := s\<rparr>" for x s
    by (simp_all add: with_conn_def)
  have "Receive ?C (?sent []) = (Inl ReadHeader, ?sent [])" by (rule Receive_empty) simp
  then have "sync_round ?C (sp_serverFile P) cio [] (with_conn (fresh_conn [] None) sv) =
      (Ends (ReceiveACK ReadHeader), sv\<lparr>sv_session := ?sent []\<rparr>)"
    using q send [of "[]"] queue by (simp add: sync_round_def Let_def conn)
  moreover
  have "session_read ?C (?sent (frame adata)) =
      (Inr (ack_message n), (?sent (frame adata))\<lparr>ss_conn := (ss_conn (?sent (frame adata)))\<lparr>cn_in := []\<rparr>\<rparr>)"
    using assms(1,7) by (intro read_whole) (simp_all add: params_ok_def sendable_def server_session_def)
  then obtain s where "Receive ?C (?sent (frame adata)) = (Inr (ack_message n), s)"
    using assms(8) by (simp add: Receive.simps [of ?C] ack_message_def TypeACK_def)
  then have "sync_round ?C (sp_serverFile P) cio [] (with_conn (fresh_conn (frame adata) None) sv) =
      (Committed, sv\<lparr>sv_session := s, sv_disk := d, sv_cursor := n, sv_queue := queue_commit ch (sv_queue sv)\<rparr>)"
    using q send [of "frame adata"] queue assms(9,10) by (simp add: sync_round_def Let_def conn ack_message_def)
  ultimately show ?thesis by (intro conjI exI [of _ s]) simp_all
qed

text \<open>The agent repeats its ACK for a sequence it has already applied, and looks no further.\<close>

lemma consume_old:
  assumes "params_ok P" "validatePolicy ch = None" "w \<noteq> 0" "w \<le> c"
    and "sendable P (policy_message w ch) data" "sendable P (ack_message c) adata"
  shows "\<exists>s'. consume (sp_codec P) f False env (agent_session (sp_agentConfig P) c (frame data)) a =
     (ReceiveACK ReadHeader, s', a) \<and> cn_out (ss_conn s') = frame adata"
proof -
  let ?C = "sp_codec P" and ?s = "agent_session (sp_agentConfig P) c (frame data)"
  let ?s1 = "agent_session (sp_agentConfig P) c []"
  have r: "session_read ?C ?s = (Inr (policy_message w ch), ?s1)"
    using assms(1,5) read_whole [of ?C "policy_message w ch" data ?s]
    by (simp add: params_ok_def sendable_def agent_session_def fresh_conn_def)
  let ?s2 = "?s1\<lparr>ss_conn := \<lparr>cn_in = [], cn_out = frame adata, cn_room = None\<rparr>\<rparr>"
  have w: "session_write ?C (ack_message c) ?s1 = (None, ?s2)"
    using assms(6) by (intro session_write_ok) (simp_all add: sendable_def agent_session_def)
  have "ss_applied ?s1 = c" by (simp add: agent_session_def)
  then have "Receive ?C ?s = (Inl ReadHeader, ?s2)"
    using r w assms(2-4)
    by (simp add: Receive.simps [of ?C ?s] policy_message_def TypePolicy_def TypeACK_def Receive_empty)
  then have "consume ?C f False env ?s a = (ReceiveACK ReadHeader, ?s2, a)"
    by (simp add: consume.simps [of ?C f False env ?s a] consume_round_def)
  then show ?thesis by simp
qed

text \<open>The agent applies the next sequence, saves it and acknowledges it.\<close>

lemma consume_next:
  assumes "params_ok P" "validatePolicy ch = None" "w = c + 1" "w \<noteq> 0" "ag_cursor a = c"
    and "sendable P (policy_message w ch) data" "sendable P (ack_message w) adata"
    and "adapter_Apply (ae_io (env c)) (ae_now (env c)) ch (ag_adapter a) (ag_policyDisk a) = (None, ad, d)"
    and "saveCursor (ae_cursorIO (env c)) f w (ag_cursorDisk a) = (None, cd)"
  shows "\<exists>s'. consume (sp_codec P) f False env (agent_session (sp_agentConfig P) c (frame data)) a =
     (ReceiveACK ReadHeader, s',
      a\<lparr>ag_adapter := ad, ag_policyDisk := d, ag_cursorDisk := cd, ag_cursor := w\<rparr>) \<and>
     cn_out (ss_conn s') = frame adata"
proof -
  let ?C = "sp_codec P" and ?s = "agent_session (sp_agentConfig P) c (frame data)"
  let ?s1 = "agent_session (sp_agentConfig P) c []"
  let ?a = "a\<lparr>ag_adapter := ad, ag_policyDisk := d, ag_cursorDisk := cd, ag_cursor := w\<rparr>"
  have r: "session_read ?C ?s = (Inr (policy_message w ch), ?s1)"
    using assms(1,6) read_whole [of ?C "policy_message w ch" data ?s]
    by (simp add: params_ok_def sendable_def agent_session_def fresh_conn_def)
  have "\<not> w \<le> c" using assms(3,4) unat_Suc_no_wrap [of c] by (simp add: word_le_nat_alt)
  moreover have "ss_applied ?s1 = c" by (simp add: agent_session_def)
  ultimately have R: "Receive ?C ?s = (Inr (policy_message w ch), ?s1)"
    using r assms(2-4)
    by (simp add: Receive.simps [of ?C ?s] policy_message_def TypePolicy_def TypeACK_def)
  let ?s2 = "?s1\<lparr>ss_applied := w, ss_conn := \<lparr>cn_in = [], cn_out = frame adata, cn_room = None\<rparr>\<rparr>"
  have ack: "Ack ?C w ?s1 = (None, ?s2)"
    using assms(3,7) session_write_ok [of ?C "ack_message w" adata "?s1\<lparr>ss_applied := w\<rparr>" "[]"]
    by (simp add: Ack_def sendable_def agent_session_def)
  have c: "ss_applied ?s = c" by (simp add: agent_session_def)
  have "consume_round ?C f False (env c) ?s a = (None, ?s2, ?a)"
    using R ack assms(8,9) by (simp add: consume_round_def policy_message_def TypePolicy_def)
  moreover have "consume ?C f False env ?s2 ?a = (ReceiveACK ReadHeader, ?s2, ?a)"
    by (rule consume_empty) simp
  ultimately have "consume ?C f False env ?s a = (ReceiveACK ReadHeader, ?s2, ?a)"
    by (simp add: consume.simps [of ?C f False env ?s a] c)
  then show ?thesis by simp
qed

section \<open>A reconnection and an undisturbed round\<close>

text \<open>What both ends need for a reconnection and a round: limits, a valid head, messages within the
  limits, a cursor file the server can write, and an agent that answers the head with an ACK of \<open>n\<close>.\<close>

lemma sync_exchange:
  assumes "params_ok P" "limits_ok (sp_serverConfig P)" "limits_ok (sp_agentConfig P)"
    and "pq_pending (sv_queue (sy_server y)) = ch # rest" "validatePolicy ch = None"
    and c: "c = sv_cursor (sy_server y)" "c + 1 \<noteq> 0" "c + 1 \<le> n" "n \<noteq> 0"
    and "sendable P (policy_message (c + 1) ch) data" "sendable P (ack_message n) adata"
    and "saveCursor cio (sp_serverFile P) n (sv_disk (sy_server y)) = (None, d)"
    and "\<And>k. ae_now (env k) \<noteq> 0"
    and "consume (sp_codec P) (sp_agentFile P) False env
       (agent_session (sp_agentConfig P) (ag_cursor (sy_agent y)) (frame data)) (sy_agent y) = (e, s', a')"
    and "cn_out (ss_conn s') = frame adata"
  shows "\<exists>y1 y2. sync_step P y y1 \<and> sync_step P y1 y2 \<and> pq_pending (sv_queue (sy_server y2)) = rest \<and>
     sv_cursor (sy_server y2) = n \<and> sy_agent y2 = a' \<and> sy_published y2 = sy_published y \<and> sy_up y2"
proof -
  let ?S = "server_session (sp_serverConfig P) c []" and ?A = "agent_session (sp_agentConfig P) (ag_cursor (sy_agent y)) []"
  let ?y1 = "y\<lparr>sy_server := (sy_server y)\<lparr>sv_session := ?S\<rparr>, sy_session := ?A, sy_up := True\<rparr>"
  let ?sv = "sy_server ?y1"
  have connect: "sync_step P y ?y1"
    using NewSession_server [OF assms(2) c(2), of "[]"] NewSession_agent [OF assms(3), of "[]"] c(1)
    by (intro step_connect [where c = "fresh_conn [] None" and c' = "fresh_conn [] None"]) simp_all
  have sv: "sv_session ?sv = ?S" "pq_pending (sv_queue ?sv) = ch # rest"
      "saveCursor cio (sp_serverFile P) n (sv_disk ?sv) = (None, d)"
    using assms(4,12) by simp_all
  note acked = sync_round_acked [OF assms(1,2) sv(1,2) assms(5,10,11) c(4,3) sv(3)]
  obtain s where round: "sync_round (sp_codec P) (sp_serverFile P) cio [] (with_conn (fresh_conn (frame adata) None) ?sv) =
       (Committed, ?sv\<lparr>sv_session := s, sv_disk := d, sv_cursor := n, sv_queue := queue_commit ch (sv_queue ?sv)\<rparr>)"
    using conjunct2 [OF acked] by blast
  let ?sv' = "?sv\<lparr>sv_session := s, sv_disk := d, sv_cursor := n, sv_queue := queue_commit ch (sv_queue ?sv)\<rparr>"
  define y2 where "y2 = ?y1\<lparr>sy_server := ?sv', sy_agent := a', sy_session := s', sy_up := goes_on Committed,
       sy_published := sy_published ?y1 @ dashboard_queue.items [] (sv_queue (sy_server ?y1))\<rparr>"
  have A: "(sy_session ?y1)\<lparr>ss_conn := fresh_conn (take (length (frame data)) (frame data)) None\<rparr> =
      agent_session (sp_agentConfig P) (ag_cursor (sy_agent y)) (frame data)"
    by (simp add: agent_session_def)
  have "sync_step P ?y1 y2"
    unfolding y2_def
  proof (rule step_round [where k = "length (frame data)" and k' = "length (frame adata)" and room = None
        and room' = None and cio = cio and ms = "[]", OF _ refl assms(13)])
    show "consume (sp_codec P) (sp_agentFile P) False env
        ((sy_session ?y1)\<lparr>ss_conn := fresh_conn (take (length (frame data)) (cn_out (ss_conn (sv_session
          (snd (sync_round (sp_codec P) (sp_serverFile P) cio [] (with_conn (fresh_conn [] None) ?sv))))))) None\<rparr>)
        (sy_agent ?y1) = (e, s', a')"
      using assms(14) unfolding conjunct1 [OF acked] A by simp
    show "sync_round (sp_codec P) (sp_serverFile P) cio []
        (with_conn (fresh_conn (take (length (frame adata)) (cn_out (ss_conn s'))) None) ?sv) = (Committed, ?sv')"
      using round assms(15) by simp
  qed simp
  moreover have "pq_pending (sv_queue (sy_server y2)) = rest"
    using assms(4) by (simp add: y2_def queue_commit_def)
  ultimately show ?thesis using connect by (intro exI [of _ ?y1] exI [of _ y2]) (simp add: y2_def)
qed

section \<open>Properties\<close>

definition sync_start :: "store \<Rightarrow> system \<Rightarrow> bool" where
  "sync_start s y = (agent_store (sy_agent y) = Some s \<and> store_inv s \<and>
     ag_cursor (sy_agent y) = sv_cursor (sy_server y) \<and> pq_pending (sv_queue (sy_server y)) = [] \<and>
     sy_published y = [] \<and> \<not> sy_up y)"

lemma sync_inv_start: "sync_start s y \<Longrightarrow> sync_inv (abs_store s) P y"
  by (auto simp: sync_start_def sync_inv_def agent_level_def policy_after_def)

text \<open>C1: The agent follows the server. From a start with level cursors, whatever is published and
  however often the connection breaks inside a frame, a write, a cursor file or the agent's store
  fails, the queue holds exactly the published changes not yet committed, in order, and the agent's
  policy is the result of applying the committed ones in order, or those and the next one; nothing is
  skipped, and a change applied twice counts once. When the queue is empty the agent's policy is the
  result of everything published.\<close>

theorem sync_prefix:
  assumes "params_ok P" "sync_start s0 y0" "sync_reachable P y0 y"
  shows "\<exists>n s. n \<le> length (sy_published y) \<and> pq_pending (sv_queue (sy_server y)) = drop n (sy_published y) \<and>
     agent_store (sy_agent y) = Some s \<and> store_inv s \<and>
     (abs_store s = fold apply_change (take n (sy_published y)) (abs_store s0) \<or>
      n < length (sy_published y) \<and>
        abs_store s = fold apply_change (take (Suc n) (sy_published y)) (abs_store s0)) \<and>
     (pq_pending (sv_queue (sy_server y)) = [] \<longrightarrow>
        abs_store s = fold apply_change (sy_published y) (abs_store s0))"
proof -
  have "sync_inv (abs_store s0) P y"
    using sync_inv_reachable [OF assms(3,1) sync_inv_start [OF assms(2)]] .
  then obtain n s where "n \<le> length (sy_published y)" "pq_pending (sv_queue (sy_server y)) = drop n (sy_published y)"
      "agent_store (sy_agent y) = Some s" "store_inv s"
      "abs_store s = policy_after (abs_store s0) (sy_published y) n \<or>
       n < length (sy_published y) \<and> abs_store s = policy_after (abs_store s0) (sy_published y) (Suc n)"
    by (auto simp: sync_inv_def agent_level_def)
  then show ?thesis by (intro exI [of _ n] exI [of _ s]) (auto simp: policy_after_def)
qed

text \<open>A system that has published one change, for the witnesses; \<open>n\<close> is the agent's cursor.\<close>

definition sample_params :: sync_params where
  "sample_params = \<lparr>sp_codec = sample_codec, sp_serverFile = [], sp_agentFile = [],
     sp_serverConfig = \<lparr>MaxMessageBytes = 1024, MaxInFlight = 1\<rparr>,
     sp_agentConfig = \<lparr>MaxMessageBytes = 1024, MaxInFlight = 1\<rparr>\<rparr>"

definition sample_idle :: "64 word \<Rightarrow> system" where
  "sample_idle n = \<lparr>sy_server = \<lparr>sv_queue = newPolicyQueue, sv_cursor = 0, sv_session = sample_session [],
       sv_disk = Map.empty\<rparr>,
     sy_agent = \<lparr>ag_adapter = StoreAdapter sample_adapter, ag_policyDisk = Map.empty,
       ag_cursorDisk = Map.empty, ag_cursor = n\<rparr>,
     sy_session = sample_session [], sy_up = False, sy_published = []\<rparr>"

definition sample_mutation :: policy_mutation where
  "sample_mutation = \<lparr>pm_Action = ''add'', pm_List = ''blocklist'', pm_Prefix = ''192.0.2.0/24'', pm_ExpiresAt = None\<rparr>"

definition sample_system :: "64 word \<Rightarrow> system" where
  "sample_system n = (sample_idle n)\<lparr>sy_server := (sy_server (sample_idle n))\<lparr>sv_queue :=
       publish sample_mutation newPolicyQueue\<rparr>, sy_published := [sample_change]\<rparr>"

lemma sample_queue_change: "queue_change 1 sample_mutation = sample_change"
proof -
  have "queue_key 1 = ''dashboard-1''" by code_simp
  then show ?thesis by (simp add: queue_change_def sample_mutation_def sample_change_def)
qed

lemma sample_publish: "sync_step P (sample_idle n) (sample_system n)"
  using step_publish [of "sv_queue (sy_server (sample_idle n))" "sample_idle n" P sample_mutation]
  by (simp add: sample_system_def sample_idle_def newPolicyQueue_def sample_queue_change)

lemma sample_params_ok [simp]:
  "params_ok sample_params" "limits_ok (sp_serverConfig sample_params)" "limits_ok (sp_agentConfig sample_params)"
  using sample_codec_ok by (simp_all add: params_ok_def sample_params_def limits_ok_def)

lemma sample_sendable:
  "sendable sample_params (policy_message 1 sample_change) [1]" "sendable sample_params (ack_message 1) [2]"
  by (simp_all add: sendable_def sample_params_def sample_codec_def)

lemma sample_pending: "pq_pending (sv_queue (sy_server (sample_system n))) = [sample_change]"
  by (simp add: sample_system_def publish_def newPolicyQueue_def Let_def sample_queue_change)

lemma sample_start: "sync_start sample_store (sample_idle 0)"
  using sample_inv
  by (simp add: sync_start_def sample_idle_def agent_store_def sample_adapter_def newPolicyQueue_def)

theorem sync_prefix_witness:
  "\<exists>s. agent_store (sy_agent (sample_system 0)) = Some s \<and> store_inv s \<and>
     (abs_store s = abs_store sample_store \<or> abs_store s = apply_change sample_change (abs_store sample_store))"
proof -
  have "sync_reachable sample_params (sample_idle 0) (sample_system 0)"
    by (rule sync_more [OF sync_init sample_publish])
  from sync_prefix [OF sample_params_ok(1) sample_start this] obtain n s where
      "n \<le> length (sy_published (sample_system 0))" "agent_store (sy_agent (sample_system 0)) = Some s" "store_inv s"
      "abs_store s = fold apply_change (take n (sy_published (sample_system 0))) (abs_store sample_store) \<or>
       abs_store s = fold apply_change (take (Suc n) (sy_published (sample_system 0))) (abs_store sample_store)"
    by blast
  moreover have "sy_published (sample_system 0) = [sample_change]" by (simp add: sample_system_def)
  ultimately show ?thesis by (cases n) auto
qed

text \<open>C2: The queue drains. From any reachable state with level cursors and a valid head, one reconnection
  and one undisturbed round commit the head, provided its messages fit, the agent's store accepts
  it and both cursor files can be written; the agent's policy then has the head applied and both
  cursors stand at its sequence.\<close>

theorem sync_progress:
  assumes "params_ok P" "limits_ok (sp_serverConfig P)" "limits_ok (sp_agentConfig P)"
    and "pq_pending (sv_queue (sy_server y)) = ch # rest" "validatePolicy ch = None"
    and "ag_cursor (sy_agent y) = sv_cursor (sy_server y)" "n = sv_cursor (sy_server y) + 1" "n \<noteq> 0"
    and "sendable P (policy_message n ch) data" "sendable P (ack_message n) adata"
    and "saveCursor cio (sp_serverFile P) n (sv_disk (sy_server y)) = (None, sd)"
    and "saveCursor (ae_cursorIO env) (sp_agentFile P) n (ag_cursorDisk (sy_agent y)) = (None, cd)"
    and "agent_store (sy_agent y) = Some s" "store_inv s" "ae_now (env :: agent_env) \<noteq> 0"
    and "adapter_Apply (ae_io env) (ae_now env) ch (ag_adapter (sy_agent y)) (ag_policyDisk (sy_agent y)) = (None, ad, d)"
  shows "\<exists>y1 y2 s2. sync_step P y y1 \<and> sync_step P y1 y2 \<and> pq_pending (sv_queue (sy_server y2)) = rest \<and>
     sv_cursor (sy_server y2) = n \<and> ag_cursor (sy_agent y2) = n \<and>
     agent_store (sy_agent y2) = Some s2 \<and> abs_store s2 = apply_change ch (abs_store s)"
proof -
  let ?a = "(sy_agent y)\<lparr>ag_adapter := ad, ag_policyDisk := d, ag_cursorDisk := cd, ag_cursor := n\<rparr>"
  have next_sequence: "n = ag_cursor (sy_agent y) + 1" using assms(6,7) by simp
  obtain s' where c: "consume (sp_codec P) (sp_agentFile P) False (\<lambda>_. env)
      (agent_session (sp_agentConfig P) (ag_cursor (sy_agent y)) (frame data)) (sy_agent y) =
      (ReceiveACK ReadHeader, s', ?a)" "cn_out (ss_conn s') = frame adata"
    using consume_next [OF assms(1,5) next_sequence assms(8) refl assms(9,10), of "\<lambda>_. env", OF assms(16,12)]
    by blast
  have "adapter_Apply (ae_io env) (ae_now env) ch (ag_adapter (sy_agent y)) (ag_policyDisk (sy_agent y)) =
      (None, ag_adapter ?a, ag_policyDisk ?a)" using assms(16) by simp
  from adapter_Apply_view [OF assms(13-15) this]
  obtain s2 where s2: "agent_store ?a = Some s2" "abs_store s2 = apply_change ch (abs_store s)" by auto
  have n: "sv_cursor (sy_server y) + 1 \<noteq> 0" "sv_cursor (sy_server y) + 1 \<le> n"
    using assms(7,8) by simp_all
  from sync_exchange [OF assms(1-5) refl n assms(8) assms(9) [unfolded assms(7)] assms(10,11) _ c] assms(15)
  obtain y1 y2 where "sync_step P y y1" "sync_step P y1 y2" "pq_pending (sv_queue (sy_server y2)) = rest"
      "sv_cursor (sy_server y2) = n" "sy_agent y2 = ?a" by blast
  with s2 show ?thesis by (intro exI [of _ y1] exI [of _ y2] exI [of _ s2]) simp
qed

theorem sync_progress_witness:
  "\<exists>y1 y2 s2. sync_step sample_params (sample_system 0) y1 \<and> sync_step sample_params y1 y2 \<and>
     pq_pending (sv_queue (sy_server y2)) = [] \<and> agent_store (sy_agent y2) = Some s2 \<and>
     abs_store s2 = apply_change sample_change (abs_store sample_store)"
proof -
  let ?env = "\<lparr>ae_io = sample_io, ae_now = 1, ae_cursorIO = sample_cursor_io\<rparr>"
  have a: "adapter_Apply (ae_io ?env) (ae_now ?env) sample_change (ag_adapter (sy_agent (sample_system 0)))
      (ag_policyDisk (sy_agent (sample_system 0))) =
      (None, StoreAdapter (sample_adapter\<lparr>ad_store := Some sample_stored\<rparr>), sample_disk)"
    using sample_adapter_Apply by (simp add: sample_system_def sample_idle_def adapter_Apply_def)
  have s: "agent_store (sy_agent (sample_system 0)) = Some sample_store"
    by (simp add: sample_system_def sample_idle_def agent_store_def sample_adapter_def)
  have c: "ag_cursor (sy_agent (sample_system 0)) = sv_cursor (sy_server (sample_system 0))"
      "1 = sv_cursor (sy_server (sample_system 0)) + 1" "(1 :: 64 word) \<noteq> 0"
    by (simp_all add: sample_system_def sample_idle_def)
  have f: "saveCursor io (sp_serverFile sample_params) 1 x = (None, x)"
      "saveCursor io (sp_agentFile sample_params) 1 x = (None, x)" for io x
    by (simp_all add: saveCursor_def sample_params_def)
  have "ae_now ?env \<noteq> 0" by simp
  from sync_progress [OF sample_params_ok sample_pending sample_valid c sample_sendable f(1) f(2) s sample_inv this a]
  show ?thesis by blast
qed

text \<open>C39: What the cursors cannot repair. When the server's cursor has fallen behind the agent's (its cursor
  file was lost or restored, or its queue was lost with an ACK in flight), the agent takes the next
  change for a repetition: it acknowledges it without applying it, and the server commits it. The
  change has left the queue and the agent's state is as it was.\<close>

theorem sync_lost_update:
  assumes "params_ok P" "limits_ok (sp_serverConfig P)" "limits_ok (sp_agentConfig P)"
    and "pq_pending (sv_queue (sy_server y)) = ch # rest" "validatePolicy ch = None"
    and "n = sv_cursor (sy_server y) + 1" "n \<noteq> 0" "n \<le> ag_cursor (sy_agent y)"
    and "sendable P (policy_message n ch) data" "sendable P (ack_message (ag_cursor (sy_agent y))) adata"
    and "saveCursor cio (sp_serverFile P) (ag_cursor (sy_agent y)) (sv_disk (sy_server y)) = (None, sd)"
  shows "\<exists>y1 y2. sync_step P y y1 \<and> sync_step P y1 y2 \<and> pq_pending (sv_queue (sy_server y2)) = rest \<and>
     sv_cursor (sy_server y2) = ag_cursor (sy_agent y) \<and> sy_agent y2 = sy_agent y"
proof -
  let ?env = "\<lambda>_ :: 64 word. \<lparr>ae_io = \<lparr>fault = None, tmp_name = []\<rparr>, ae_now = 1,
      ae_cursorIO = \<lparr>cio_unreadable = False, cio_fault = None, cio_temporary = []\<rparr>\<rparr>"
  obtain s' where c: "consume (sp_codec P) (sp_agentFile P) False ?env
      (agent_session (sp_agentConfig P) (ag_cursor (sy_agent y)) (frame data)) (sy_agent y) =
      (ReceiveACK ReadHeader, s', sy_agent y)" "cn_out (ss_conn s') = frame adata"
    using consume_old [OF assms(1,5,7-10)] by blast
  have n: "sv_cursor (sy_server y) + 1 \<noteq> 0" "sv_cursor (sy_server y) + 1 \<le> ag_cursor (sy_agent y)"
      "ag_cursor (sy_agent y) \<noteq> 0"
    using assms(6-8) by auto
  from sync_exchange [OF assms(1-5) refl n assms(9) [unfolded assms(6)] assms(10,11) _ c]
  show ?thesis by auto
qed

theorem sync_lost_update_witness:
  "\<exists>y1 y2. sync_step sample_params (sample_system 1) y1 \<and> sync_step sample_params y1 y2 \<and>
     pq_pending (sv_queue (sy_server y2)) = [] \<and> sy_agent y2 = sy_agent (sample_system 1)"
proof -
  have c: "1 = sv_cursor (sy_server (sample_system 1)) + 1" "(1 :: 64 word) \<noteq> 0"
      "1 \<le> ag_cursor (sy_agent (sample_system 1))" and a: "ag_cursor (sy_agent (sample_system 1)) = 1"
    by (simp_all add: sample_system_def sample_idle_def)
  have f: "saveCursor sample_cursor_io (sp_serverFile sample_params) (ag_cursor (sy_agent (sample_system 1))) x = (None, x)" for x
    by (simp add: saveCursor_def sample_params_def)
  have ack: "sendable sample_params (ack_message (ag_cursor (sy_agent (sample_system 1)))) [2]"
    using sample_sendable(2) by (simp add: a)
  from sync_lost_update [OF sample_params_ok sample_pending sample_valid c sample_sendable(1) ack f]
  show ?thesis by blast
qed

end
