(* ===== verification/Policy_Replication.thy ===== *)
theory Policy_Replication
  imports Server_Invariant Sync_Delivery
begin

text \<open>
  From the dashboard to the agent: the changes a server publishes, replayed on the policy it started
  with, give the policy of its store; so an agent that started with that policy and has been sent
  everything has the policy of the server. This joins the controller (\<open>internal/runtime/policy.go\<close>) and
  the events of \<open>Run\<close> (\<open>internal/runtime/server.go\<close>) to the synchronisation of both ends.
\<close>

section \<open>A published mutation is what the store did\<close>

definition change_policy :: "policy_mutation \<Rightarrow> policy \<Rightarrow> policy" where
  "change_policy m = apply_change (queue_change 0 m)"

text \<open>Identifier and key of a change do not matter.\<close>

lemma queue_change_fields:
  "pc_Prefix (queue_change n m) = pm_Prefix m" "pc_List (queue_change n m) = pm_List m"
  "pc_Operation (queue_change n m) = pm_Action m" "pc_ExpiresAt (queue_change n m) = pm_ExpiresAt m"
  by (simp_all add: queue_change_def)

lemma change_policy_any: "apply_change (queue_change n m) = change_policy m"
  unfolding change_policy_def apply_change_def change_command_def queue_change_fields ..

lemma queue_change_command:
  assumes "parse_canonical (pm_Prefix m) = Some p" "policyList (pm_List m) = Some list" "propose m p list s = Some x"
  shows "change_command (queue_change n m) = Some (mutation_command m p)"
  using assms(1,2) propose_action [OF assms(3)]
  by (auto simp: change_command_def queue_change_def mutation_command_def policyList_Some split: option.split)

lemma persist_mutation_policy:
  assumes "parse_canonical (pm_Prefix m) = Some p" "policyList (pm_List m) = Some list" "propose m p list s = Some x"
    and "persist_mutation env m p s d = (None, s', d')" "store_inv s"
  shows "abs_store s' = change_policy m (abs_store s)"
  using persist_mutation_abs [OF assms] queue_change_command [OF assms(1-3), of 0]
  by (simp add: change_policy_def apply_change_def)

section \<open>The controller\<close>

text \<open>In file mode the store has the policy \<open>P\<close> with what is published and not yet queued applied to it.\<close>

definition mirrored :: "policy \<Rightarrow> 'e controller \<Rightarrow> bool" where
  "mirrored P c = (ct_sql c = None \<and> ct_publish c \<and> store_inv (ct_store c) \<and>
     abs_store (ct_store c) = fold change_policy (ct_published c) P)"

lemma mirrored_cong:
  "ct_sql c' = ct_sql c \<Longrightarrow> ct_publish c' = ct_publish c \<Longrightarrow> ct_store c' = ct_store c \<Longrightarrow>
   ct_published c' = ct_published c \<Longrightarrow> mirrored P c' = mirrored P c"
  by (simp add: mirrored_def)

lemma applyLocked_mirrored:
  assumes "mirrored P c" "ce_stamp env \<noteq> 0" "applyLocked an wd env m c = (x, c')"
  shows "mirrored P c'"
  using assms(3)
proof (cases rule: applyLocked_cases)
  case (delta p list bl wl y)
  note f = applyDelta_frame [OF delta(5)]
  with assms(1) show ?thesis using mirrored_cong [of c' c P] by simp
next
  case (persist p list bl wl e s d c1)
  note f = applyDelta_frame [OF persist(4)]
  have "s = ct_store c1" using persist_mutation_error [OF persist(1,2) _ persist(5)] persist(3) f(1) by simp
  moreover obtain z c2 where z: "applyDelta an wd (routes env (ce_now env) c) (c1\<lparr>ct_store := s, ct_disk := d\<rparr>) = (z, c2)"
    by fastforce
  note g = applyDelta_frame [OF z]
  ultimately have "ct_sql c2 = ct_sql c" "ct_publish c2 = ct_publish c" "ct_store c2 = ct_store c"
    "ct_published c2 = ct_published c" using f by simp_all
  with persist(7) z assms(1) show ?thesis using mirrored_cong [of c2 c P] by simp
next
  case (commit p list bl wl s d c1)
  note f = applyDelta_frame [OF commit(4)]
  have p: "propose m p list (ct_store c1) = Some (bl, wl, True)" "store_inv (ct_store c1)"
    using commit(3) f(1) assms(1) by (simp_all add: mirrored_def)
  have "store_inv s" by (rule persist_mutation_typed [OF commit(1,2) p(1) commit(5) assms(2) p(2)])
  moreover have "abs_store s = change_policy m (abs_store (ct_store c1))"
    by (rule persist_mutation_policy [OF commit(1,2) p(1) commit(5) p(2)])
  ultimately show ?thesis using commit(7) f assms(1) by (simp add: mirrored_def publish_mutation_def)
qed (use assms(1) in simp_all)

lemma Apply_mirrored:
  assumes "mirrored P c" "ce_stamp env \<noteq> 0" "Apply an wd env m c = (x, c')"
  shows "mirrored P c'"
proof -
  have "c' = c \<or> applyLocked an wd env m c = (x, c')"
    using assms(1,3) by (auto simp: Apply_def mirrored_def split: if_splits)
  with applyLocked_mirrored [OF assms(1,2)] assms(1) show ?thesis by blast
qed

lemma ApplyBatch_mirrored:
  assumes "mirrored P c" "ApplyBatch an wd list a r c = (x, c')"
  shows "mirrored P c'"
  using assms(1) mirrored_cong [of c' c P] ApplyBatch_frame [OF assms(2)] by simp

lemma expire_from_mirrored:
  "\<forall>n. ce_stamp (envs n) \<noteq> 0 \<Longrightarrow> mirrored P c \<Longrightarrow> expire_from an wd envs now i es c = (x, c') \<Longrightarrow> mirrored P c'"
proof (induction es arbitrary: i c)
  case (Cons pt es)
  obtain p t where pt: "pt = (p, t)" by fastforce
  let ?m = "\<lparr>pm_Action = ''remove'', pm_List = ''blocklist'', pm_Prefix = prefix_String p, pm_ExpiresAt = None\<rparr>"
  obtain y c1 where a: "applyLocked an wd (envs i) ?m c = (y, c1)" by fastforce
  from applyLocked_mirrored [OF Cons.prems(2) _ this] Cons.prems(1) have "mirrored P c1" by blast
  with Cons a pt show ?case by (auto split: if_splits option.splits)
qed simp

lemma Reconcile_mirrored:
  assumes "mirrored P c" "Reconcile an wd env now c = (x, c')"
  shows "mirrored P c'"
  using assms mirrored_cong [of c' c P] by (auto simp: Reconcile_def applyDelta_frame split: if_splits)

section \<open>The server\<close>

abbreviation queued_policy :: "policy \<Rightarrow> 'e server \<Rightarrow> policy" where
  "queued_policy P0 s \<equiv> fold apply_change (pq_pending (srv_queue s)) P0"

definition mirror_server :: "policy \<Rightarrow> 'e server \<Rightarrow> bool" where
  "mirror_server P0 s = (ct_published (srv_controller s) = [] \<and> mirrored (queued_policy P0 s) (srv_controller s))"

lemma fold_publish_policy:
  "fold apply_change (pq_pending (fold publish ms q)) P = fold change_policy ms (fold apply_change (pq_pending q) P)"
  by (induction ms arbitrary: q) (simp_all add: pending_publish change_policy_any)

lemma with_controller_mirror:
  assumes "\<And>x c. f (srv_controller s) = (x, c) \<Longrightarrow> mirrored (queued_policy P0 s) c"
  shows "mirror_server P0 (snd (with_controller f s))"
proof -
  obtain x c where f: "f (srv_controller s) = (x, c)" by fastforce
  from assms [OF f] show ?thesis
    unfolding mirror_server_def with_controller_fields [of f s x c, OF f]
    by (simp add: mirrored_def fold_publish_policy)
qed

interpretation mirror: server_laws Eng M E
    "\<lambda>s. ct_published (srv_controller s) = [] \<and> (clock_ok E \<longrightarrow> mirror_server P0 s)"
  for Eng :: "('e, 'x) engine_ops" and M E P0
proof
  fix s :: "'e server" and m n
  let ?f = "Apply (eo_announce Eng) (eo_withdraw Eng) (bv_ctl E n) m"
  assume s: "ct_published (srv_controller s) = [] \<and> (clock_ok E \<longrightarrow> mirror_server P0 s)"
  have "mirror_server P0 (snd (with_controller ?f s))" if "clock_ok E"
    using s that Apply_mirrored [of "queued_policy P0 s" "srv_controller s" "bv_ctl E n"]
    by (intro with_controller_mirror) (auto simp: clock_ok_def mirror_server_def)
  moreover obtain x c where f: "?f (srv_controller s) = (x, c)" by fastforce
  ultimately show "ct_published (srv_controller (snd (with_controller ?f s))) = [] \<and>
      (clock_ok E \<longrightarrow> mirror_server P0 (snd (with_controller ?f s)))"
    by (simp add: with_controller_fields(2) [of ?f s x c, OF f])
next
  fix s :: "'e server" and list a r x c
  assume s: "ct_published (srv_controller s) = [] \<and> (clock_ok E \<longrightarrow> mirror_server P0 s)"
    and b: "ApplyBatch (eo_announce Eng) (eo_withdraw Eng) list a r (srv_controller s) = (x, c)"
  show "ct_published (srv_controller (s\<lparr>srv_controller := c\<rparr>)) = [] \<and>
      (clock_ok E \<longrightarrow> mirror_server P0 (s\<lparr>srv_controller := c\<rparr>))"
    using s ApplyBatch_frame(4) [OF b] ApplyBatch_mirrored [OF _ b] by (simp add: mirror_server_def)
qed (auto simp: with_db_def mirror_server_def mirrored_def)

lemma serve_event_mirror:
  assumes "clocks_ok ev" "mirror_server P0 s"
  shows "mirror_server P0 (serve_event P ev s)"
proof (cases ev)
  case (HTTPRequest H E r)
  from mirror.ServeHTTP_inv [of s E P0 H _ "program_ops P"] assms HTTPRequest show ?thesis
    by (simp add: mirror_server_def)
next
  case (PeerUpdate pe)
  with assms(2) show ?thesis by (simp add: mirror_server_def mirrored_def)
next
  case (ExpiryRound envs now)
  then have "\<forall>n. ce_stamp (envs n) \<noteq> 0" using assms(1) by simp
  then have "mirror_server P0 (snd (with_controller (applyExpired Announce Withdraw envs now) s))"
    using assms(2) expire_from_mirrored [of envs "queued_policy P0 s" "srv_controller s"]
    by (intro with_controller_mirror) (auto simp: applyExpired_def mirror_server_def)
  with ExpiryRound assms(2) show ?thesis by simp
next
  case (FeedPass Es now)
  from feed_pass_controller [of "\<lambda>c. ct_published c = [] \<and> mirrored (queued_policy P0 s) c" s "program_ops P" "pr_messages P" Es now]
    assms(2) ApplyBatch_frame(4) ApplyBatch_mirrored FeedPass
  show ?thesis by (fastforce simp: mirror_server_def)
next
  case (SQLTick Es now)
  with assms(2) show ?thesis by (simp add: syncDue_def mirror_server_def mirrored_def)
next
  case (BackgroundSync E)
  have "mirror_server P0 (snd (backend_SyncFeed (program_ops P) (pr_messages P) E fid (s\<lparr>srv_jobs := jobs\<rparr>)))" for fid jobs
    using mirror.sync_step [of "s\<lparr>srv_jobs := jobs\<rparr>" E P0 "program_ops P"] assms BackgroundSync
    by (simp add: mirror_server_def)
  with BackgroundSync assms(2) show ?thesis by (simp split: list.split)
qed

section \<open>A run\<close>

text \<open>Before \<open>Run\<close> publishes: nothing queued, the store as it was opened.\<close>

definition silent_server :: "policy \<Rightarrow> 'e server \<Rightarrow> bool" where
  "silent_server P0 s = (ct_published (srv_controller s) = [] \<and> pq_pending (srv_queue s) = [] \<and>
     ct_sql (srv_controller s) = None \<and> store_inv (ct_store (srv_controller s)) \<and>
     abs_store (ct_store (srv_controller s)) = P0)"

lemma mirror_run:
  assumes "silent_server P0 s" "\<forall>ev\<in>set evs. clocks_ok ev"
  shows "mirror_server P0 (snd (server_Run P R evs s)) \<or> silent_server P0 (snd (server_Run P R evs s))"
proof (rule server_Run_invariant [where I = "mirror_server P0" and J = "silent_server P0"])
  show "silent_server P0 (with_engine e s)" for e
    using assms(1) by (simp add: silent_server_def with_engine_def)
  show "mirror_server P0 (t\<lparr>srv_controller := (srv_controller t)\<lparr>ct_publish := True\<rparr>\<rparr>)" if "silent_server P0 t" for t
    using that by (simp add: silent_server_def mirror_server_def mirrored_def)
  show "mirror_server P0 (snd (with_controller (Reconcile Announce Withdraw (rn_reconcile R) (rn_now R)) t))"
    if "mirror_server P0 t" for t
    using that Reconcile_mirrored by (intro with_controller_mirror) (auto simp: mirror_server_def)
  show "mirror_server P0 (serve_event P ev t)" if "ev \<in> set evs" "mirror_server P0 t" for ev t
    using serve_event_mirror that assms(2) by blast
  show "mirror_server P0 (with_engine (snd (Stop (ct_engine (srv_controller t)))) t)" if "mirror_server P0 t" for t
    using that by (simp add: mirror_server_def mirrored_def with_engine_def)
qed

lemma NewServer_silent:
  assumes "NewServer W c = Inr s" "ct_sql (srv_controller s) = None"
    and "\<forall>name st. sw_policyDisk W name = Some (Document st) \<longrightarrow> wf_document st"
  shows "silent_server (abs_store (ct_store (srv_controller s))) s"
proof -
  obtain host port where "typed_server (engine_config c host port, next_hops c) s"
    using NewServer_typed [OF assms(1)] assms(3) by blast
  moreover have "pq_pending (srv_queue s) = []" using assms(1) by (elim NewServer_Inr) (simp add: newPolicyQueue_def)
  ultimately show ?thesis using assms(2) by (simp add: silent_server_def typed_server_def typed_controller_def)
qed

text \<open>The sample server keeps its policy in memory and starts with none.\<close>

lemma dsn_server_fields:
  assumes "NewServer empty_world dsn_only = Inr s"
  shows "ct_sql (srv_controller s) = None" "ct_store (srv_controller s) = New"
  using assms
  by (elim NewServer_Inr, auto simp: open_policy_def open_sql_def dsn_only_def DefaultConfig_def)+

lemma empty_world_wf: "\<forall>name st. sw_policyDisk empty_world name = Some (Document st) \<longrightarrow> wf_document st"
  by (simp add: empty_world_def)

section \<open>A request that reaches the agent\<close>

text \<open>A server that has just started, and a request to block a prefix.\<close>

definition ready :: "(mem_state, prefix, mem_attr) engine controller \<Rightarrow> bool" where
  "ready c = (ct_sql c = None \<and> \<not> ct_dryRun c \<and> ct_publish c \<and> ct_published c = [] \<and> ct_store c = New \<and>
     ct_active c = [] \<and> running (ct_engine c) \<and> ops (ct_engine c) = mem_gobgp \<and> ct_nextHopV4 c = Addr4 0xC0000201)"

definition block_request :: request where
  "block_request = \<lparr>rq_Method = ''POST'', rq_Path = ''/api/block'', rq_Authorization = [], rq_Query = (\<lambda>_. []),
     rq_Body = ''{}''\<rparr>"

definition block_http :: http_env where
  "block_http = \<lparr>he_decoders = \<lparr>de_put = (\<lambda>_. Undecodable),
       de_mutate = (\<lambda>_. Document \<lparr>mr_Action = ''add'', mr_Prefix = ''192.0.2.0/24'', mr_Apply = True, mr_ExpiresAt = None\<rparr>),
       de_import = (\<lambda>_. Undecodable), de_feed = (\<lambda>_. Undecodable), de_id = (\<lambda>_. Undecodable), de_bulk = (\<lambda>_. Undecodable)\<rparr>,
     he_net = offline, he_now = 5, he_static = False, he_exists = (\<lambda>_. False)\<rparr>"

lemma doc_net_parse: "parse_canonical ''192.0.2.0/24'' = Some doc_net"
  using parse_canonical_print [OF doc_net_canonical] by (simp add: sample_change_text)

lemma doc_net_announced:
  assumes "running e" "ops e = mem_gobgp"
  shows "\<exists>e'. Announce (route_for (Addr4 0xC0000201) nh6 doc_net) e = (None, e')"
proof -
  have "\<exists>path. routePath mem_gobgp (route_for (Addr4 0xC0000201) nh6 doc_net) = Inr path"
    using doc_net_Is4(1,2) canonical_valid [OF doc_net_canonical]
    by (auto simp: routePath_def route_for_def Let_def mem_gobgp_def addr_IsValid_def)
  with assms show ?thesis by (auto simp: Announce_def mem_gobgp_def split: prod.split)
qed

lemma block_applied:
  assumes "ready c"
  shows "\<exists>c'. Apply Announce Withdraw sample_env sample_mutation c = (None, c') \<and> ct_published c' = [sample_mutation]"
proof -
  obtain e' where a: "Announce (route_for (Addr4 0xC0000201) (ct_nextHopV6 c) doc_net) (ct_engine c) = (None, e')"
    using doc_net_announced assms by (auto simp: ready_def)
  have r: "effectiveRoutes [doc_net] [] [] t nh4 nh6 = [(doc_net, route_for nh4 nh6 doc_net)]" for t nh4 nh6
    by (simp add: effectiveRoutes_def expired_def)
  show ?thesis
    using assms a canonical_valid [OF doc_net_canonical] canonical_fix [OF doc_net_canonical]
    by (simp add: ready_def Apply_def applyLocked_def sample_mutation_def doc_net_parse policyList_def propose_def Let_def
        New_def Expirations_def r applyDelta_def persist_mutation_def mutateStore_def store_Add_def mutate_def
        validList_def commit_store_def result_error_def publish_mutation_def slices_Index_neg)
qed

abbreviation block_event :: event where
  "block_event \<equiv> HTTPRequest block_http sample_bk_env block_request"

lemma block_routed: "find_route ''POST'' ''/api/block'' = Some (EpMutateList ''blocklist'')" "cleanPath ''/api/block'' = ''/api/block''"
  by (simp add: find_route_def mux_routes_def endpoints_def method_matches_def) code_simp

lemma sample_mutation_of: "mutation_of ''blocklist'' \<lparr>mr_Action = ''add'', mr_Prefix = ''192.0.2.0/24'', mr_Apply = True,
    mr_ExpiresAt = None\<rparr> = sample_mutation"
  by (simp add: mutation_of_def sample_mutation_def)

lemma block_served:
  assumes "ready (srv_controller t)" "srv_queue t = newPolicyQueue" "c_APIToken (srv_config t) = []"
  shows "pq_pending (srv_queue (serve_event sample_program block_event t)) = [sample_change]"
proof -
  obtain c' where a: "Apply Announce Withdraw sample_env sample_mutation (srv_controller t) = (None, c')"
    "ct_published c' = [sample_mutation]" using block_applied [OF assms(1)] by blast
  have m: "backend_MutatePolicy (program_ops sample_program) M sample_bk_env n sample_mutation t =
      (None, t\<lparr>srv_controller := c'\<lparr>ct_published := []\<rparr>, srv_queue := publish sample_mutation newPolicyQueue\<rparr>)" for M n
    using a assms(2)
    by (simp add: backend_MutatePolicy_def with_controller_def program_ops_def bgp_ops_def sample_bk_env_def)
  have "serve_event sample_program block_event t =
      t\<lparr>srv_controller := c'\<lparr>ct_published := []\<rparr>, srv_queue := publish sample_mutation newPolicyQueue\<rparr>"
    using assms(3)
    by (simp add: ServeHTTP_def BearerTokenAuthorizer_def mux_ServeHTTP_def block_request_def block_routed
        mutate_handler_def decodeJSON_def maxBodyBytes_def block_http_def doc_net_parse sample_mutation_of
        dashboard_ops_def m)
  then show ?thesis
    by (simp add: pending_publish newPolicyQueue_def sample_queue_change)
qed

lemma ready_Reconcile:
  assumes "ready c"
  shows "Reconcile Announce Withdraw env now c = (None, c)"
  using assms
  by (simp add: ready_def Reconcile_def routes_file New_def effectiveRoutes_def applyDelta_def)

lemma block_start:
  assumes "NewServer empty_world dsn_only = Inr s"
  shows "\<exists>e. Start (ct_engine (srv_controller s)) = (None, e) \<and> running e \<and> ops e = mem_gobgp"
  using assms
proof (rule NewServer_Inr)
  fix host port eng st c' sql cursor m
  assume e: "engine_New (sw_gobgp empty_world) (sw_bgp empty_world) (engine_config dsn_only host port) = Inr eng"
    and s: "s = make_server empty_world c' eng st sql cursor m"
  have "eng_config eng = engine_config dsn_only host port" "ops eng = mem_gobgp" "bgp eng = ([], False)" "\<not> running eng"
    using e by (auto simp: engine_New_def empty_world_def split: option.splits)
  then show ?thesis using s
    by (simp add: Start_def Let_def mem_gobgp_def setup_calls_def engine_config_def dsn_only_def DefaultConfig_def
        buildRTBHExportPolicy_def)
qed

lemma block_ready:
  assumes "NewServer empty_world dsn_only = Inr s" "running e" "ops e = mem_gobgp"
  shows "ready ((srv_controller s)\<lparr>ct_engine := e, ct_publish := True\<rparr>) \<and> srv_queue s = newPolicyQueue \<and>
    c_APIToken (srv_config s) = []"
  using assms(1)
proof (rule NewServer_Inr)
  fix host port eng st c' sql cursor m
  assume "open_policy empty_world dsn_only = Inr (st, c')" "open_sql empty_world c' = Inr sql"
    and s: "s = make_server empty_world c' eng st sql cursor m"
  then have "c' = dsn_only" "st = New" "sql = None"
    by (auto simp: open_policy_def open_sql_def dsn_only_def DefaultConfig_def)
  with s assms(2,3) show ?thesis
    by (simp add: ready_def) (simp add: dsn_only_def DefaultConfig_def addr_IsValid_def)
qed

lemma block_run:
  assumes "NewServer empty_world dsn_only = Inr s" "server_Run sample_program quiet_run [block_event] s = (errs, s')"
  shows "pq_pending (srv_queue s') = [sample_change]"
proof -
  obtain e where e: "Start (ct_engine (srv_controller s)) = (None, e)" "running e" "ops e = mem_gobgp"
    using block_start [OF assms(1)] by blast
  let ?t = "(with_engine e s)\<lparr>srv_controller := (srv_controller (with_engine e s))\<lparr>ct_publish := True\<rparr>\<rparr>"
  have t: "ready (srv_controller ?t)" "srv_queue ?t = newPolicyQueue" "c_APIToken (srv_config ?t) = []"
    using block_ready [OF assms(1) e(2,3)] by (simp_all add: with_engine_def)
  let ?c = "(srv_controller ?t)\<lparr>ct_published := []\<rparr>"
  have "with_controller (Reconcile Announce Withdraw sample_env 5) ?t =
      (None, ?t\<lparr>srv_controller := ?c, srv_queue := newPolicyQueue\<rparr>)"
    using ready_Reconcile [OF t(1), of sample_env 5] t(1,2) by (simp add: with_controller_def ready_def)
  moreover have "ready ?c" using t(1) by (simp add: ready_def)
  moreover have "srv_queue (snd (shut_down R u)) = srv_queue u" for R and u :: "(mem_state, prefix, mem_attr) engine server"
    by (simp add: shut_down_def with_engine_def Let_def case_prod_unfold)
  moreover have "s' = snd (server_Run sample_program quiet_run [block_event] s)" using assms(2) by simp
  ultimately show ?thesis
    using e(1) t(3) block_served [of "?t\<lparr>srv_controller := ?c, srv_queue := newPolicyQueue\<rparr>"]
    by (simp add: server_Run_def Let_def quiet_run_def)
qed

lemma block_clocks: "\<forall>ev\<in>set [block_event]. clocks_ok ev"
  by (simp add: clock_ok_def sample_bk_env_def sample_env_def)

text \<open>The synchronisation of that one change.\<close>

lemma sample_delivered:
  "\<exists>y. sync_reachable sample_params (sample_idle 0) y \<and> pq_pending (sv_queue (sy_server y)) = [] \<and>
     sy_published y = [sample_change]"
proof -
  let ?y = "sample_system 0"
  let ?env = "\<lambda>_ :: 64 word. \<lparr>ae_io = sample_io, ae_now = 1, ae_cursorIO = sample_cursor_io\<rparr>"
  have level: "ag_cursor (sy_agent ?y) = 0" "sv_cursor (sy_server ?y) = 0" "sy_published ?y = [sample_change]"
    by (simp_all add: sample_system_def sample_idle_def)
  have f: "saveCursor io (sp_serverFile sample_params) w x = (None, x)"
      "saveCursor io (sp_agentFile sample_params) w x = (None, x)" for io w x
    by (simp_all add: saveCursor_def sample_params_def)
  have a: "adapter_Apply (ae_io (?env 0)) (ae_now (?env 0)) sample_change (ag_adapter (sy_agent ?y))
      (ag_policyDisk (sy_agent ?y)) =
      (None, StoreAdapter (sample_adapter\<lparr>ad_store := Some sample_stored\<rparr>), sample_disk)"
    using sample_adapter_Apply by (simp add: sample_system_def sample_idle_def adapter_Apply_def)
  obtain s' a' where c: "consume (sp_codec sample_params) (sp_agentFile sample_params) False ?env
      (agent_session (sp_agentConfig sample_params) (ag_cursor (sy_agent ?y)) (frame [1])) (sy_agent ?y) =
      (ReceiveACK ReadHeader, s', a')" "cn_out (ss_conn s') = frame [2]"
    using consume_next [OF sample_params_ok(1) sample_valid _ _ level(1) sample_sendable a f(2)] level(1) by auto
  have n: "(0 :: 64 word) = sv_cursor (sy_server ?y)" "(0 :: 64 word) + 1 \<noteq> 0" "(0 :: 64 word) + 1 \<le> 1"
    "(1 :: 64 word) \<noteq> 0" using level(2) by simp_all
  have send: "sendable sample_params (policy_message (0 + 1) sample_change) [1]" using sample_sendable(1) by simp
  from sync_exchange [OF sample_params_ok sample_pending sample_valid n send sample_sendable(2) f(1) _ c]
  obtain y1 y2 where y: "sync_step sample_params ?y y1" "sync_step sample_params y1 y2"
      "pq_pending (sv_queue (sy_server y2)) = []" "sy_published y2 = [sample_change]"
    using level(3) by auto
  then show ?thesis using sync_more [OF sync_more [OF sync_more [OF sync_init sample_publish]]] by blast
qed

section \<open>Properties\<close>

text \<open>C4: the changes a server has put into its queue are exactly what has happened to its policy. After any
  run of a new server in file mode, applying the queued changes in order to the policy the server
  started with gives the policy of its store: nothing changes the store without being published, and a
  mutation that failed at an announcement or at the file is not published.\<close>

theorem queue_replays_policy:
  assumes "NewServer W c = Inr s" and "ct_sql (srv_controller s) = None"
    and "server_Run P R evs s = (errs, s')"
    and "\<forall>name st. sw_policyDisk W name = Some (Document st) \<longrightarrow> wf_document st"
    and "\<forall>ev\<in>set evs. clocks_ok ev"
  shows "abs_store (ct_store (srv_controller s')) =
     fold apply_change (pq_pending (srv_queue s')) (abs_store (ct_store (srv_controller s)))"
  using mirror_run [OF NewServer_silent [OF assms(1,2,4)] assms(5), of P R] assms(3)
  by (auto simp: mirror_server_def silent_server_def mirrored_def)

theorem queue_replays_policy_witness:
  "\<exists>s errs s'. NewServer empty_world dsn_only = Inr s \<and>
     server_Run sample_program quiet_run [block_event] s = (errs, s') \<and> pq_pending (srv_queue s') = [sample_change] \<and>
     abs_store (ct_store (srv_controller s')) = apply_change sample_change (abs_store New)"
proof -
  obtain s where s: "NewServer empty_world dsn_only = Inr s" using dsn_server by blast
  note f = dsn_server_fields [OF s]
  obtain errs s' where r: "server_Run sample_program quiet_run [block_event] s = (errs, s')" by fastforce
  note q = block_run [OF s r]
  from queue_replays_policy [OF s f(1) r empty_world_wf block_clocks]
  have "abs_store (ct_store (srv_controller s')) = apply_change sample_change (abs_store New)" by (simp add: q f(2))
  with s r q show ?thesis by blast
qed

text \<open>C3: the agent gets the policy of the server, in file mode, from a level start. Take a run of a new server in file mode and a run of the
  synchronisation, with all its failures, that was given the changes this server queued and has
  committed all of them, to an agent that started level with the server and with the same policy. Then
  the policy of the agent is that of the server.\<close>

theorem agent_reaches_server_policy:
  assumes "NewServer W c = Inr s" and "ct_sql (srv_controller s) = None"
    and "server_Run P R evs s = (errs, s')"
    and "\<forall>name st. sw_policyDisk W name = Some (Document st) \<longrightarrow> wf_document st"
    and "\<forall>ev\<in>set evs. clocks_ok ev"
    and "params_ok Q" and "sync_start a0 y0" and "sync_reachable Q y0 y"
    and "abs_store a0 = abs_store (ct_store (srv_controller s))"
    and "sy_published y = pq_pending (srv_queue s')" and "pq_pending (sv_queue (sy_server y)) = []"
  shows "\<exists>a. agent_store (sy_agent y) = Some a \<and>
     abs_store a = abs_store (ct_store (srv_controller s'))"
proof -
  have "abs_store (ct_store (srv_controller s')) = fold apply_change (sy_published y) (abs_store a0)"
    using mirror_run [OF NewServer_silent [OF assms(1,2,4)] assms(5), of P R] assms(3,9,10)
    by (auto simp: mirror_server_def silent_server_def mirrored_def)
  moreover have "sync_inv (abs_store a0) Q y"
    using sync_inv_reachable [OF assms(8,6) sync_inv_start [OF assms(7)]] .
  ultimately show ?thesis using assms(11)
    by (auto simp: sync_inv_def agent_level_def policy_after_def)
qed

theorem agent_reaches_server_policy_witness:
  "\<exists>s errs s' y a. NewServer empty_world dsn_only = Inr s \<and>
     server_Run sample_program quiet_run [block_event] s = (errs, s') \<and>
     sync_reachable sample_params (sample_idle 0) y \<and> sy_published y = [sample_change] \<and>
     agent_store (sy_agent y) = Some a \<and> abs_store a = abs_store (ct_store (srv_controller s'))"
proof -
  obtain s where s: "NewServer empty_world dsn_only = Inr s" using dsn_server by blast
  note f = dsn_server_fields [OF s]
  obtain errs s' where r: "server_Run sample_program quiet_run [block_event] s = (errs, s')" by fastforce
  obtain y where y: "sync_reachable sample_params (sample_idle 0) y" "pq_pending (sv_queue (sy_server y)) = []"
    "sy_published y = [sample_change]" using sample_delivered by blast
  have start: "abs_store sample_store = abs_store (ct_store (srv_controller s))"
    by (simp add: f(2) abs_store_def sample_store_def New_def)
  have p: "sy_published y = pq_pending (srv_queue s')" using y(3) block_run [OF s r] by simp
  from agent_reaches_server_policy [OF s f(1) r empty_world_wf block_clocks sample_params_ok(1) sample_start y(1) start p y(2)]
  obtain a where "agent_store (sy_agent y) = Some a" "abs_store a = abs_store (ct_store (srv_controller s'))" by blast
  with s r y(1,3) show ?thesis by blast
qed

end
