(* ===== verification/Agent_Setup.thy ===== *)
theory Agent_Setup
  imports Server_Run Policy_Sync
begin

text \<open>
  \<open>NewAgent\<close> of \<open>internal/runtime/agent.go\<close> and the two programs, \<open>cmd/rtbh-agent/main.go\<close> and
  \<open>cmd/rtbh-server/main.go\<close>: from command line and environment to a running agent or server. Signals
  end the runs; they are the ends of the lists of connections and of events.
\<close>

section \<open>The agent\<close>

datatype agent_error =
    AdapterRequired
  | AgentSettings config_error
  | AdapterFailed adapter_error
  | RunFailed cursor_error

text \<open>The adapter may be missing in dry-run mode only.\<close>

definition NewAgent :: "settings \<Rightarrow> policy_adapter option \<Rightarrow> agent_error + (settings \<times> policy_adapter)" where
  "NewAgent c adapter =
     (if adapter = None \<and> \<not> c_DryRun c then Inl AdapterRequired
      else
        let a = (case adapter of None \<Rightarrow> DryRunAdapter 0 | Some a \<Rightarrow> a) in
        case validateCommon c of
          Some e \<Rightarrow> Inl (AgentSettings e)
        | None \<Rightarrow> (case validateAgent c of Some e \<Rightarrow> Inl (AgentSettings e) | None \<Rightarrow> Inr (c, a)))"

text \<open>What \<open>Agent.Run\<close> reads of the settings.\<close>

definition agent_settings :: "settings \<Rightarrow> agent_config" where
  "agent_settings c = \<lparr>ac_cursorFile = c_CursorFile c, ac_dryRun = c_DryRun c, ac_session = syncConfig c,
     ac_reconnectMin = c_ReconnectMin c, ac_reconnectMax = c_ReconnectMax c\<rparr>"

definition agent_main :: "(string \<Rightarrow> int option) \<Rightarrow> environment \<Rightarrow> string list \<Rightarrow> bool \<Rightarrow> json_codec \<Rightarrow> cursor_io
    \<Rightarrow> dial list \<Rightarrow> disk \<Rightarrow> cursor_disk \<Rightarrow> agent_error + int list \<times> agent" where
  "agent_main pd env args unreadable C io dls d cd =
     (case loadConfig pd env args configAgent of Inl e \<Rightarrow> Inl (AgentSettings e) | Inr c \<Rightarrow>
     (case NewConfiguredAdapter (c_DryRun c) (c_PolicyFile c) (c_DBDSN c) (c_DBDriver c) unreadable d of
        Inl e \<Rightarrow> Inl (AdapterFailed e)
      | Inr ad \<Rightarrow>
     (case NewAgent c (Some ad) of Inl e \<Rightarrow> Inl e | Inr (c, a) \<Rightarrow>
     (case agent_Run C (agent_settings c) io dls
         \<lparr>ag_adapter = a, ag_policyDisk = d, ag_cursorDisk = cd, ag_cursor = 0\<rparr> of
        Inl e \<Rightarrow> Inl (RunFailed e) | Inr r \<Rightarrow> Inr r))))"

section \<open>The server\<close>

datatype main_error = ServerSettings config_error | ServerSetup server_error | RunServer "run_error list"

definition server_main :: "(string \<Rightarrow> int option) \<Rightarrow> environment \<Rightarrow> string list \<Rightarrow> ('g, 'n, 'a) start_world
    \<Rightarrow> program \<Rightarrow> run_env \<Rightarrow> event list \<Rightarrow> main_error option \<times> ('g, 'n, 'a) engine server option" where
  "server_main pd env args W P R evs =
     (case loadConfig pd env args configServer of Inl e \<Rightarrow> (Some (ServerSettings e), None) | Inr c \<Rightarrow>
     (case NewServer W c of Inl e \<Rightarrow> (Some (ServerSetup e), None) | Inr s \<Rightarrow>
     (case server_Run P R evs s of (errs, s) \<Rightarrow> (if errs = [] then None else Some (RunServer errs), Some s))))"

section \<open>Waiting between connections\<close>

text \<open>Every attempt, successful or not, is followed by a wait.\<close>

lemma run_dials_waits: "length (fst (run_dials C ac dls delay a)) = length dls"
proof (induction dls arbitrary: delay a)
  case (Cons dl dls)
  then show ?case by (auto simp: Let_def split: option.split sum.split prod.split) (metis fst_conv)+
qed simp

lemma NewAgent_same: "NewAgent c (Some ad) = Inr (c', a) \<Longrightarrow> c' = c \<and> a = ad \<and> validateAgent c = None"
  by (auto simp: NewAgent_def split: option.splits if_splits)

text \<open>What the program of the agent ran with.\<close>

lemma agent_main_run:
  assumes "agent_main pd env args unreadable C io dls d cd = Inr (slept, a')"
  obtains c ad cursor where "loadConfig pd env args configAgent = Inr c"
    "NewConfiguredAdapter (c_DryRun c) (c_PolicyFile c) (c_DBDSN c) (c_DBDriver c) unreadable d = Inr ad"
    "validateAgent c = None" "loadCursor io (c_CursorFile c) cd = Inr cursor"
    "run_dials C (agent_settings c) dls (c_ReconnectMin c)
       \<lparr>ag_adapter = ad, ag_policyDisk = d, ag_cursorDisk = cd, ag_cursor = cursor\<rparr> = (slept, a')"
  using assms
  by (auto simp: agent_main_def agent_Run_def agent_settings_def dest!: NewAgent_same
      split: sum.splits prod.splits)

section \<open>A policy in memory\<close>

lemma store_adapter_memory:
  assumes "ad_store sa = Some st" "path st = []"
  shows "\<exists>e sa' st'. store_adapter_Apply io now ch sa d = (e, sa', d) \<and> ad_store sa' = Some st' \<and> path st' = []"
proof -
  have "\<exists>e s'. (case pc_ExpiresAt ch of
      Some t \<Rightarrow> (case parse_canonical (pc_Prefix ch) of
          None \<Rightarrow> (Some CanonicalPrefixRequired, st, d)
        | Some prefix \<Rightarrow> result_error AddUntilFailed (AddUntil io now Blocklist prefix t st d))
    | None \<Rightarrow> mutateStore io now (pc_Operation ch) (pc_List ch) (pc_Prefix ch) st d) = (e, s', d) \<and> path s' = []"
    by (simp add: assms mutateStore_memory result_error_memory [OF AddUntil_memory] split: option.split)
  with assms show ?thesis by (auto simp: store_adapter_Apply_def Let_def)
qed

fun memory_adapter :: "policy_adapter \<Rightarrow> bool" where
  "memory_adapter (DryRunAdapter n) = True"
| "memory_adapter (StoreAdapter sa) = (case ad_store sa of None \<Rightarrow> False | Some st \<Rightarrow> path st = [])"

definition memory_agent :: "disk \<Rightarrow> agent \<Rightarrow> bool" where
  "memory_agent d a = (memory_adapter (ag_adapter a) \<and> ag_policyDisk a = d)"

lemma adapter_Apply_memory:
  assumes "memory_adapter a"
  shows "memory_adapter (fst (snd (adapter_Apply io now ch a d))) \<and> snd (snd (adapter_Apply io now ch a d)) = d"
proof (cases a)
  case (StoreAdapter sa)
  with assms obtain st where "ad_store sa = Some st" "path st = []" by (auto split: option.splits)
  from store_adapter_memory [OF this, of io now ch d] StoreAdapter show ?thesis
    by (auto simp: adapter_Apply_def)
qed (simp add: adapter_Apply_def)

lemma consume_round_memory:
  "memory_agent d a \<Longrightarrow> memory_agent d (snd (snd (consume_round C f dry env s a)))"
  by (simp add: consume_round_def memory_agent_def Let_def case_prod_unfold adapter_Apply_memory
      split: sum.split option.split)

lemma consume_memory: "memory_agent d a \<Longrightarrow> memory_agent d (snd (snd (consume C f dry env s a)))"
proof (induction C f dry env s a rule: consume.induct)
  case (1 C f dry env s a)
  obtain x s' a' where r: "consume_round C f dry (env (ss_applied s)) s a = (x, s', a')" by (metis prod_cases3)
  have m: "memory_agent d a'" using consume_round_memory [OF "1.prems", of C f dry "env (ss_applied s)" s] r by simp
  show ?case
  proof (cases x)
    case None
    with "1.IH" r m show ?thesis by (simp add: consume.simps [of C f dry env s a])
  qed (simp add: consume.simps [of C f dry env s a] r m)
qed

lemma run_dials_memory: "memory_agent d a \<Longrightarrow> memory_agent d (snd (run_dials C ac dls delay a))"
proof (induction dls arbitrary: delay a)
  case (Cons dl dls)
  have "memory_agent d (snd (snd (consume C (ac_cursorFile ac) (ac_dryRun ac) (dl_env dl) s a)))" for s
    using Cons.prems by (rule consume_memory)
  with Cons show ?case
    by (auto simp: Let_def case_prod_unfold split: option.split sum.split)
qed simp

section \<open>Properties\<close>

text \<open>C34: the agent never hammers the server. After every attempt to connect, and after every session, it
  waits, between half of \<open>ReconnectMin\<close> and \<open>ReconnectMax\<close>, as long as doubling \<open>ReconnectMax\<close> (at
  most 73 years) does not overflow a duration.\<close>

theorem agent_reconnect_delays:
  assumes "loadConfig pd env args configAgent = Inr c" and "c_ReconnectMax c < 2 ^ 62"
    and "agent_main pd env args unreadable C io dls d cd = Inr (slept, a')"
  shows "length slept = length dls \<and>
    (\<forall>t\<in>set slept. c_ReconnectMin c div 2 \<le> t \<and> t \<le> c_ReconnectMax c)"
proof -
  obtain ad cursor where v: "validateAgent c = None" and r: "run_dials C (agent_settings c) dls (c_ReconnectMin c)
       \<lparr>ag_adapter = ad, ag_policyDisk = d, ag_cursorDisk = cd, ag_cursor = cursor\<rparr> = (slept, a')"
    using agent_main_run [OF assms(3)] assms(1) by (metis sum.inject(2))
  have "0 < c_ReconnectMin c" "c_ReconnectMin c \<le> c_ReconnectMax c"
    using v by (simp_all add: validateAgent_def split: if_splits)
  with run_dials_delays [of "agent_settings c" "c_ReconnectMin c" C dls] run_dials_waits [of C "agent_settings c" dls] r assms(2)
  show ?thesis by (simp add: agent_settings_def) (metis fst_conv)
qed

text \<open>Two failed attempts with the default settings.\<close>

definition failed_dial :: "int \<Rightarrow> dial" where
  "failed_dial r = \<lparr>dl_conn = None, dl_closeFails = False, dl_random = r,
     dl_env = (\<lambda>_. \<lparr>ae_io = sample_io, ae_now = 5, ae_cursorIO = \<lparr>cio_unreadable = False, cio_fault = None,
       cio_temporary = ''t''\<rparr>\<rparr>)\<rparr>"

theorem agent_reconnect_delays_witness:
  "\<exists>slept a'. agent_main (\<lambda>_. None) (\<lambda>_. []) [] False sample_codec
       \<lparr>cio_unreadable = False, cio_fault = None, cio_temporary = ''t''\<rparr> [failed_dial 3, failed_dial 4]
       Map.empty Map.empty = Inr (slept, a') \<and> length slept = 2 \<and> (\<forall>t\<in>set slept. t \<le> c_ReconnectMax DefaultConfig)"
proof -
  let ?c = "DefaultConfig\<lparr>c_RTBHNextHopV4 := Addr4 0xC0000201\<rparr>"
  let ?io = "\<lparr>cio_unreadable = False, cio_fault = None, cio_temporary = ''t''\<rparr>"
  let ?dls = "[failed_dial 3, failed_dial 4]"
  have l: "loadConfig (\<lambda>_. None) (\<lambda>_. []) [] configAgent = Inr ?c" by (rule default_loads)
  have f: "c_DryRun ?c" "c_CursorFile ?c = []" "c_ReconnectMax ?c < 2 ^ 62"
    by (simp_all add: DefaultConfig_def Second_def Millisecond_def)
  have v: "validateCommon ?c = None \<and> validateAgent ?c = None"
    using validate_mode_None [OF loaded_valid [OF l]] by simp
  have "\<exists>slept a'. agent_main (\<lambda>_. None) (\<lambda>_. []) [] False sample_codec ?io ?dls Map.empty Map.empty = Inr (slept, a')"
    using l f v by (simp add: agent_main_def NewConfiguredAdapter_def NewAgent_def agent_Run_def agent_settings_def
        loadCursor_def)
  then obtain slept a' where m: "agent_main (\<lambda>_. None) (\<lambda>_. []) [] False sample_codec ?io ?dls Map.empty Map.empty
      = Inr (slept, a')" by blast
  from agent_reconnect_delays [OF l f(3) m] m show ?thesis by auto
qed

text \<open>An agent with database settings keeps its policy in memory: whatever it applies, what a restart
  reads is what was there before, while the cursor of the changes it has acknowledged is saved.\<close>

theorem database_agent_forgets:
  assumes "loadConfig pd env args configAgent = Inr c" and "\<not> c_DryRun c" and "c_DBDriver c \<noteq> []"
    and "agent_main pd env args unreadable C io dls d cd = Inr (slept, a')"
  shows "ag_policyDisk a' = d \<and>
    NewConfiguredAdapter (c_DryRun c) (c_PolicyFile c) (c_DBDSN c) (c_DBDriver c) unreadable' (ag_policyDisk a') =
      Inr (StoreAdapter \<lparr>ad_store = Some New, ad_dryRun = False\<rparr>)"
proof -
  obtain ad cursor where a: "NewConfiguredAdapter (c_DryRun c) (c_PolicyFile c) (c_DBDSN c) (c_DBDriver c) unreadable d = Inr ad"
    and r: "run_dials C (agent_settings c) dls (c_ReconnectMin c)
       \<lparr>ag_adapter = ad, ag_policyDisk = d, ag_cursorDisk = cd, ag_cursor = cursor\<rparr> = (slept, a')"
    using agent_main_run [OF assms(4)] assms(1) by (metis sum.inject(2))
  have new: "NewConfiguredAdapter (c_DryRun c) (c_PolicyFile c) (c_DBDSN c) (c_DBDriver c) u e =
      Inr (StoreAdapter \<lparr>ad_store = Some New, ad_dryRun = False\<rparr>)" for u e
    using assms(2,3) by (simp add: NewConfiguredAdapter_def)
  have "memory_agent d \<lparr>ag_adapter = ad, ag_policyDisk = d, ag_cursorDisk = cd, ag_cursor = cursor\<rparr>"
    using a new [of unreadable d] by (auto simp: memory_agent_def New_def)
  from run_dials_memory [OF this] r have "memory_agent d a'" by (metis snd_conv)
  with new show ?thesis by (simp add: memory_agent_def)
qed

end
