(* ===== verification/Spec2Isabelle.thy ===== *)
theory Spec2Isabelle
  imports Controller Sync_Accept Feed Policy_Replication Agent_Setup
begin

text \<open>
  A verification of rtbh-panel, a remotely triggered black hole controller: a server that keeps a
  blocklist and a whitelist of CIDR prefixes, announces the effective blocklist over BGP, takes
  changes from a dashboard and from downloaded feeds, and streams its mutations to an agent that keeps
  a copy of the policy.

  \<^bold>\<open>The parts and how they interact.\<close>
  A request of the dashboard (\<open>internal/dashboard/http.go\<close>) is authorised, routed, decoded and checked,
  then acts on the backend (\<open>internal/runtime/backend.go\<close>). Mutations go to the policy controller
  (\<open>internal/runtime/policy.go\<close>), which computes the routes the changed policy asks for, moves the BGP
  engine (\<open>internal/bgpengine/engine.go\<close>, over GoBGP) to them, writes the policy store
  (\<open>internal/policystore/store.go\<close>) or the database (\<open>internal/sqlstore/store.go\<close>), and publishes the
  mutation to a queue (\<open>internal/runtime/queue.go\<close>). A sync session (\<open>internal/agentrpc/session.go\<close>)
  sends the head of the queue, waits for its acknowledgement, saves the cursor
  (\<open>internal/runtime/cursor.go\<close>) and commits it; the agent (\<open>internal/runtime/agent.go\<close>) applies the
  change to a store of its own, saves its cursor and acknowledges. Feeds (\<open>internal/feed\<close>) are
  downloaded on a schedule or on request, and the difference to the previous download goes to the
  controller in a batch. Configuration (\<open>internal/runtime/config.go\<close>) and the two programs under
  \<open>cmd\<close> set all of this up.

  \<^bold>\<open>The theories.\<close> Definitions carry the names of the source; state is a record that operations
  return updated, errors are datatypes in sums or options, and what a mutex delimits is one operation.
  \<^item> \<open>Prelude\<close>, \<open>Netip\<close>, \<open>Go_Text\<close>, \<open>Netip_Text\<close>, \<open>Go_Flag\<close>: Go's maps, 64-bit arithmetic,
    \<open>net/netip\<close>, \<open>strings\<close>, \<open>strconv\<close>, \<open>flag\<close> as far as the program uses them. The locale
    \<open>text_codec\<close> (printed values parse back) is interpreted on decimal numbers, addresses and prefixes.
  \<^item> \<open>Policystore\<close>: \<open>Open\<close>, \<open>Add\<close>, \<open>AddUntil\<close>, \<open>Remove\<close>, \<open>Blocked\<close>, \<open>persist\<close> of \<open>store.go\<close>. The
    lemmas show its invariant \<open>store_inv\<close>, refinement of a set of prefixes with expiries, crash atomicity of
    the file, and that the file reopens to the store. Locale \<open>policy_store\<close>, interpreted on the store.
  \<^item> \<open>Api_Types\<close>, \<open>Adapter\<close>: the messages, and how the agent applies a change (\<open>policyStoreAdapter\<close>).
  \<^item> \<open>Bgp_Engine\<close>: sessions, admission, lifecycle and announcements of the engine. Locale \<open>route_engine\<close>
    (\<open>Announce\<close>, \<open>Withdraw\<close> and the table they keep), interpreted on this engine over any GoBGP that
    satisfies \<open>gobgp_contract\<close>.
  \<^item> \<open>Sql_Store\<close>: statements as functions on tables, each of which may fail; a connection holds the
    stored tables and those of its open transaction, which a commit stores and the deferred rollback
    drops; a result may break off while it is read.
  \<^item> \<open>Route_Delta\<close>, \<open>Controller\<close>: \<open>effectiveRoutes\<close>, \<open>applyDelta\<close> with its rollback, \<open>Apply\<close>,
    \<open>ApplyBatch\<close>, \<open>Reconcile\<close> and the expiry rounds. The lemmas inside \<open>route_engine\<close> show that the
    table of the speaker equals the effective policy after each success and what errors leave.
  \<^item> \<open>Agent_Rpc\<close>, \<open>Policy_Queue\<close>, \<open>Cursor_File\<close>: frames and sessions, the queue (locale \<open>keyed_fifo\<close>,
    interpreted on it), the cursor file under failures and crashes.
  \<^item> \<open>Policy_Sync\<close>, \<open>Sync_Accept\<close>, \<open>Sync_System\<close>, \<open>Sync_Delivery\<close>: the loops of both ends, the one of
    the server with its wait for a change (\<open>Waits\<close>); the acceptance of agents, which keeps one session at work; both ends as a step relation in which bytes,
    writes and files fail anywhere, its invariant, delivery and progress.
  \<^item> \<open>Feed\<close>, \<open>Feed_Manager\<close>: parsing and expansion of lists, the guarded download with the reserved
    address blocks it keeps off, the sources, their file, synchronisation and schedule, and what the file
    holds after any run of them (\<open>feeds_run\<close>).
  \<^item> \<open>Dashboard\<close>, \<open>Backend\<close>: the HTTP API over an abstract backend, with the locale \<open>backend_laws\<close>
    (an invariant that the operations keep survives every request), and the backend itself, with the
    locale \<open>server_laws\<close>, which gives \<open>backend_laws\<close>; its interpretations are the sendable queue, the
    dry run and, in \<open>Server_Invariant\<close> and \<open>Policy_Replication\<close>, the well-formed and the mirrored server.
  \<^item> \<open>Runtime_Config\<close>, \<open>Server_Setup\<close>, \<open>Server_Run\<close>, \<open>Server_Invariant\<close>, \<open>Agent_Setup\<close>: the settings,
    \<open>NewServer\<close>, \<open>Run\<close> as start, a list of events in any order, and shutdown; the invariant of every
    run; the agent and the two programs.
  \<^item> \<open>Policy_Replication\<close>: what a run of the server queues is what happened to its policy; with the
    synchronisation, the agent ends with the policy of the server.

  \<^bold>\<open>What is shown.\<close> In file mode and over a BGP server that keeps its contract, a successful
  reconciliation changes the table of the speaker by exactly the difference between the routes listed
  before and the effective policy, and a successful mutation leaves the listed routes equal to the
  effective policy of the new store, except at its own prefix when it sets or replaces an expiry that
  has passed; a failed delta is rolled back when the compensating calls succeed, and a failed mutation
  changes no policy. In SQL mode a failed mutation stays stored and blocks do not expire, which is
  proved too. The policy file and the cursor are replaced atomically and reload to what was in memory
  unless the sync of the directory failed; the feeds file reopens after any faults, and after a
  successful write to the sources in memory. SQL transactions leave all of their work or none. From
  level cursors, the agent's policy is a prefix of the published changes in every reachable state and
  advances when a round is undisturbed; the loop of the agent ends with its connection, the loop of the
  server ends or waits for a change. Nothing that cannot be sent enters the queue; with a token
  configured, requests without it learn and change nothing; a dry run announces and publishes nothing,
  but feed requests change an SQL database in it; downloads connect to no reserved address, except that
  an IPv6 zone hides an address from some of the blocks; configured limits bound sessions, messages in
  flight and reconnection delays. Several theorems establish behaviour the program does not intend,
  such as a change that is lost when the server's cursor has fallen behind the agent's, or a refused
  feed synchronisation that is never retried.

  \<^bold>\<open>Bounds and fuel.\<close> \<open>client_Do\<close> follows at most ten redirects, as \<open>http.Client\<close> does. A round of
  a loop over a connection that goes on takes a message of at least five bytes off it, and between two
  such rounds the server's loop waits at most once (\<open>session_loops_end\<close>). \<open>TrimSpace\<close> recurses on the
  length of its text. Sequence numbers and counters are 64-bit words, ASNs and communities 32-bit; page
  and interval arithmetic wraps with \<open>wrap64\<close>.

  \<^bold>\<open>Arguments of the model.\<close> GoBGP, SQL drivers, the JSON codec, SHA-256, \<open>time.ParseDuration\<close>, the URL
  parser, the resolver, HTTP exchanges, the file system's failures, clocks and random numbers are
  arguments of the definitions; the laws assumed of them are \<open>gobgp_contract\<close> and \<open>codec_ok\<close>, each
  with a concrete instance.

  \<^bold>\<open>Not modelled.\<close> The embedded web assets (\<open>web/embed.go\<close>), log output, and the bytes of JSON texts
  hold no logic of the program. Interleavings inside a critical section do not exist; those between
  them are the orders of operations and events, except that a synchronisation requested through the
  dashboard is one step (in the feed manager other operations may run during its download). The maps of
  Go are association lists in the order of insertion; the order in which the code ranges over them is
  that order. Policy-sync sessions are no events of a run of the server, whose queue therefore holds
  every change it published; \<open>Sync_System\<close> takes them from there.
  \<open>runFeedSync\<close>, which nothing calls, and the tickers, whose rounds are events at any time, are left out. A
  backend without a controller, which \<open>NewServer\<close> never makes, and percent-encoded paths are left out.
\<close>

end
